(* ===== verification/Prelude.thy ===== *)
theory Prelude
  imports
    Complex_Main
    "HOL-Library.Word"
    "HOL-Library.AList"
    "HOL-Library.Char_ord"
    "HOL-Library.List_Lexorder"
    "HOL-Library.Product_Lexorder"
    "HOL-Library.Multiset"
    "HOL-Library.Sublist"
begin

text \<open>
  What every component shares: the Go scalar types and the pieces of the Go standard library the
  sources use (\<open>time\<close>, \<open>math\<close>, \<open>strings\<close>), and generic lemmas on lists and association lists.

  Go's \<open>string\<close> is a byte sequence, so it is HOL's \<open>string\<close> (8-bit characters). \<open>uint64\<close> and
  \<open>int64\<close> counters are 64-bit words (\<open>+\<close> wraps, \<open>sint\<close> reads a signed one). A \<open>float64\<close> is an
  exact rational: the values the program computes with are finite (JSON carries neither NaN nor an
  infinity) and rounding errors are not modelled. \<open>time.Time\<close> and \<open>time.Duration\<close> are nanosecond
  counts in \<open>int\<close>, and every reading of the clock is an argument named \<open>now\<close>.
  A Go map is an association list with distinct keys; nothing is proved that depends on the order
  of the list, which stands for the unspecified iteration order.
\<close>

section \<open>Collections of facts\<close>

text \<open>
  \<open>ok_intros\<close> collects the preservation lemmas of the components' invariants, \<open>go_eval\<close> the
  defining equations that witnesses evaluate with.
\<close>

named_theorems ok_intros
named_theorems go_eval

section \<open>Scalars\<close>

type_synonym float64 = rat
type_synonym int64 = "64 word"
type_synonym uint64 = "64 word"
type_synonym duration = int
type_synonym time = int

definition Millisecond :: duration where [go_eval]: "Millisecond = 1000000"
definition Second :: duration where [go_eval]: "Second = 1000000000"
definition Minute :: duration where [go_eval]: "Minute = 60000000000"

lemmas duration_units = Millisecond_def Second_def Minute_def

text \<open>The zero \<open>time.Time\<close>: midnight of January 1 of year 1, UTC.\<close>

definition zero_time :: time where [go_eval]: "zero_time = - 62135596800000000000"

text \<open>\<open>Time.Unix\<close>: whole seconds since the epoch, rounded down; \<open>time.Unix(s, 0)\<close>.\<close>

definition unix_sec :: "time \<Rightarrow> int" where [go_eval]: "unix_sec t = t div 1000000000"
definition unix_time :: "int \<Rightarrow> time" where [go_eval]: "unix_time s = s * 1000000000"

lemma unix_sec_unix_time [simp]: "unix_sec (unix_time s) = s"
  by (simp add: unix_sec_def unix_time_def)

lemma unix_sec_mono: "s \<le> t \<Longrightarrow> unix_sec s \<le> unix_sec t"
  by (simp add: unix_sec_def zdiv_mono1)

lemma unix_time_less_iff [simp]: "unix_time a < unix_time b \<longleftrightarrow> a < b"
  by (simp add: unix_time_def)

text \<open>A Go conversion from \<open>float64\<close> to an integer type truncates towards zero.\<close>

definition trunc :: "float64 \<Rightarrow> int" where
  [go_eval]: "trunc q = (if 0 \<le> q then \<lfloor>q\<rfloor> else - \<lfloor>- q\<rfloor>)"

lemma trunc_nonneg: "0 \<le> q \<Longrightarrow> 0 \<le> trunc q"
  by (simp add: trunc_def)

lemma trunc_pos: "1 \<le> q \<Longrightarrow> 1 \<le> trunc q"
  by (simp add: trunc_def le_floor_iff)

lemma trunc_mono_nonneg: "0 \<le> p \<Longrightarrow> p \<le> q \<Longrightarrow> trunc p \<le> trunc q"
  by (simp add: trunc_def floor_mono)

lemma trunc_of_int [simp]: "trunc (of_int k) = k"
  by (simp add: trunc_def)

text \<open>\<open>math.Round\<close> rounds half away from zero.\<close>

definition math_Round :: "float64 \<Rightarrow> int" where
  [go_eval]: "math_Round q = (if 0 \<le> q then \<lfloor>q + 1/2\<rfloor> else - \<lfloor>- q + 1/2\<rfloor>)"

lemma math_Round_ge1: "1 \<le> q \<Longrightarrow> 1 \<le> math_Round q"
  by (simp add: math_Round_def le_floor_iff)

text \<open>\<open>Duration.Seconds\<close>, the conversion \<open>time.Duration(x * float64(time.Second))\<close>, and
  \<open>Duration.Round(m)\<close> for a positive \<open>m\<close> (half away from zero).\<close>

definition Seconds :: "duration \<Rightarrow> float64" where
  [go_eval]: "Seconds d = of_int d / 1000000000"

definition secs_to_duration :: "float64 \<Rightarrow> duration" where
  [go_eval]: "secs_to_duration s = trunc (s * 1000000000)"

definition Duration_Round :: "duration \<Rightarrow> duration \<Rightarrow> duration" where
  [go_eval]: "Duration_Round d m =
    (if d < 0 then (let r = (- d) mod m in if r + r < m then d + r else d - m + r)
     else (let r = d mod m in if r + r < m then d - r else d + m - r))"

lemma secs_to_duration_Seconds [simp]: "secs_to_duration (Seconds d) = d"
  by (simp add: secs_to_duration_def Seconds_def)

lemma Duration_Round_eq:
  assumes "0 \<le> d" "0 < m"
  shows "Duration_Round d m = m * ((2 * d + m) div (2 * m))"
proof -
  define q r where "q = d div m" and "r = d mod m"
  have d: "d = m * q + r" and r: "0 \<le> r" "r < m"
    using assms(2) by (simp_all add: q_def r_def)
  have "2 * d + m = 2 * r + m + (2 * m) * q" by (simp add: d algebra_simps)
  then have "(2 * d + m) div (2 * m) = q + (2 * r + m) div (2 * m)"
    using assms(2) by (metis div_mult_self2 less_irrefl mult_eq_0_iff zero_neq_numeral)
  moreover have "(2 * r + m) div (2 * m) = (if 2 * r < m then 0 else 1)"
    using r by (auto intro: div_pos_pos_trivial int_div_pos_eq [where r = "2 * r - m"])
  ultimately show ?thesis
    using assms(1) by (simp add: Duration_Round_def Let_def r_def [symmetric])
      (simp add: d algebra_simps)
qed

lemma Duration_Round_dvd: "0 \<le> d \<Longrightarrow> 0 < m \<Longrightarrow> m dvd Duration_Round d m"
  by (simp add: Duration_Round_eq)

lemma Duration_Round_mono: "0 \<le> d \<Longrightarrow> d \<le> e \<Longrightarrow> 0 < m \<Longrightarrow> Duration_Round d m \<le> Duration_Round e m"
  by (simp add: Duration_Round_eq zdiv_mono1)

lemma Duration_Round_multiple: "0 \<le> k \<Longrightarrow> 0 < m \<Longrightarrow> Duration_Round (m * k) m = m * k"
  by (simp add: Duration_Round_def Let_def)

lemma Duration_Round_close:
  assumes "0 \<le> d" "0 < m"
  shows "2 * \<bar>Duration_Round d m - d\<bar> \<le> m"
proof -
  have "0 \<le> d mod m" "d mod m < m" using assms(2) by simp_all
  then show ?thesis using assms(1) unfolding Duration_Round_def Let_def
    by (cases "d mod m + d mod m < m") simp_all
qed

section \<open>Strings\<close>

text \<open>
  \<open>strings.TrimSpace\<close> removes Unicode white space from both ends. White space is a set of UTF-8
  encoded runes; a rune is recognised by its byte sequence, read forwards at the left end and
  backwards at the right end.
\<close>

definition ws_runes :: "string list" where [go_eval]:
  "ws_runes =
    [[CHR 0x20], [CHR 0x09], [CHR 0x0A], [CHR 0x0B], [CHR 0x0C], [CHR 0x0D],
     [CHR 0xC2, CHR 0x85], [CHR 0xC2, CHR 0xA0], [CHR 0xE1, CHR 0x9A, CHR 0x80],
     [CHR 0xE2, CHR 0x80, CHR 0x80], [CHR 0xE2, CHR 0x80, CHR 0x81], [CHR 0xE2, CHR 0x80, CHR 0x82],
     [CHR 0xE2, CHR 0x80, CHR 0x83], [CHR 0xE2, CHR 0x80, CHR 0x84], [CHR 0xE2, CHR 0x80, CHR 0x85],
     [CHR 0xE2, CHR 0x80, CHR 0x86], [CHR 0xE2, CHR 0x80, CHR 0x87], [CHR 0xE2, CHR 0x80, CHR 0x88],
     [CHR 0xE2, CHR 0x80, CHR 0x89], [CHR 0xE2, CHR 0x80, CHR 0x8A], [CHR 0xE2, CHR 0x80, CHR 0xA8],
     [CHR 0xE2, CHR 0x80, CHR 0xA9], [CHR 0xE2, CHR 0x80, CHR 0xAF], [CHR 0xE2, CHR 0x81, CHR 0x9F],
     [CHR 0xE3, CHR 0x80, CHR 0x80]]"

definition lead_len :: "string list \<Rightarrow> string \<Rightarrow> nat" where [go_eval]:
  "lead_len ws s = (case find (\<lambda>w. take (length w) s = w) ws of None \<Rightarrow> 0 | Some w \<Rightarrow> length w)"

lemma lead_len_le: "lead_len ws s \<le> length s"
proof (cases "find (\<lambda>w. take (length w) s = w) ws")
  case (Some w)
  then have "take (length w) s = w" by (simp add: find_Some_iff) blast
  then have "length (take (length w) s) = length w" by simp
  with Some show ?thesis by (simp add: lead_len_def)
qed (simp add: lead_len_def)

lemma lead_len_Nil [simp]: "lead_len ws [] = 0"
  using lead_len_le [of ws "[]"] by simp

function strip_lead :: "string list \<Rightarrow> string \<Rightarrow> string" where
  "strip_lead ws s = (if lead_len ws s = 0 then s else strip_lead ws (drop (lead_len ws s) s))"
  by pat_completeness auto
termination
proof (relation "measure (\<lambda>(ws, s). length s)")
  fix ws s
  assume "lead_len ws s \<noteq> 0"
  with lead_len_le [of ws s] have "length (drop (lead_len ws s) s) < length s" by simp
  then show "((ws, drop (lead_len ws s) s), (ws, s)) \<in> measure (\<lambda>(ws, s). length s)" by simp
qed simp

declare strip_lead.simps [simp del]

lemma strip_lead_stop: "lead_len ws s = 0 \<Longrightarrow> strip_lead ws s = s"
  by (subst strip_lead.simps) simp

definition TrimSpace :: "string \<Rightarrow> string" where [go_eval]:
  "TrimSpace s = rev (strip_lead (map rev ws_runes) (rev (strip_lead ws_runes s)))"

lemma TrimSpace_Nil [simp]: "TrimSpace [] = []"
  by (simp add: TrimSpace_def strip_lead_stop)

text \<open>
  \<open>strings.ToLower\<close>, as far as the sources can observe it: they compare the result with ASCII
  literals only, so besides the ASCII letters the runes whose lower case is ASCII matter
  (U+0130 gives \<^verbatim>\<open>i\<close>, U+212A gives \<^verbatim>\<open>k\<close>); every other non-ASCII rune maps to a
  non-ASCII one and is left as it is here.
\<close>

definition ascii_lower :: "char \<Rightarrow> char" where [go_eval]:
  "ascii_lower c = (let n = of_char c :: nat in if 65 \<le> n \<and> n \<le> 90 then char_of (n + 32) else c)"

fun ToLower :: "string \<Rightarrow> string" where
  "ToLower [] = []"
| "ToLower (c # cs) =
    (if c = CHR 0xC4 \<and> take 1 cs = [CHR 0xB0] then CHR ''i'' # ToLower (drop 1 cs)
     else if c = CHR 0xE2 \<and> take 2 cs = [CHR 0x84, CHR 0xAA] then CHR ''k'' # ToLower (drop 2 cs)
     else ascii_lower c # ToLower cs)"

text \<open>\<open>%d\<close> of \<open>fmt\<close>.\<close>

fun decimal_nat :: "nat \<Rightarrow> string" where
  "decimal_nat n =
    (if n < 10 then [char_of (48 + n)] else decimal_nat (n div 10) @ [char_of (48 + n mod 10)])"

declare decimal_nat.simps [simp del]

definition decimal :: "int \<Rightarrow> string" where [go_eval]:
  "decimal k = (if k < 0 then CHR ''-'' # decimal_nat (nat (- k)) else decimal_nat (nat k))"

section \<open>Lists\<close>

lemma sum_list_update:
  fixes xs :: "'a::ab_group_add list"
  shows "i < length xs \<Longrightarrow> sum_list (xs[i := x]) = sum_list xs - xs ! i + x"
  by (induction xs arbitrary: i) (auto simp: algebra_simps split: nat.splits)

lemma sorted_distinct_strict:
  fixes xs :: "'a::linorder list"
  shows "sorted_wrt (<) xs \<longleftrightarrow> sorted xs \<and> distinct xs"
  by (rule strict_sorted_iff)

lemma last_le_all_sorted_wrt:
  "sorted_wrt (<) (xs @ [y]) \<Longrightarrow> x \<in> set xs \<Longrightarrow> x < (y::'a::linorder)"
  by (simp add: sorted_wrt_append)

lemma remdups_adj_replicate_append:
  "p \<notin> set ys \<Longrightarrow> remdups_adj (replicate (Suc k) p @ ys) = p # remdups_adj ys"
proof (induction k)
  case 0
  then show ?case by (cases ys) auto
qed simp

section \<open>Association lists\<close>

lemma lookup_filtered:
  "distinct (map fst al) \<Longrightarrow>
   map_of (filter keep al) x = Option.bind (map_of al x) (\<lambda>y. if keep (x, y) then Some y else None)"
proof (induction al)
  case (Cons kv al)
  then show ?case by (cases kv) (auto simp: map_of_eq_None_iff split: bind_splits)
qed simp

lemma sum_list_alist_update:
  fixes g :: "'k \<times> 'v \<Rightarrow> 'n::ab_group_add"
  shows "(\<Sum>kv\<leftarrow>AList.update k v al. g kv) =
    (\<Sum>kv\<leftarrow>al. g kv) - (case map_of al k of None \<Rightarrow> 0 | Some w \<Rightarrow> g (k, w)) + g (k, v)"
  by (induction al) (auto simp: algebra_simps split: option.splits)

lemma sum_list_sort_key:
  fixes g :: "'x \<Rightarrow> 'n::comm_monoid_add"
  shows "(\<Sum>x\<leftarrow>sort_key f xs. g x) = (\<Sum>x\<leftarrow>xs. g x)"
  by (metis mset_map mset_sort sum_mset_sum_list)

lemma sum_list_partition:
  fixes g :: "'x \<Rightarrow> 'n::comm_monoid_add"
  shows "(\<Sum>x\<leftarrow>filter Q xs. g x) + (\<Sum>x\<leftarrow>filter (\<lambda>x. \<not> Q x) xs. g x) = (\<Sum>x\<leftarrow>xs. g x)"
  by (induction xs) (auto simp: ac_simps)

lemma map_of_eq_of_mset:
  assumes "distinct (map fst xs)" "mset xs = mset ys"
  shows "map_of xs = map_of ys"
proof -
  have "mset (map fst xs) = mset (map fst ys)" using assms(2) by simp
  then have "distinct (map fst ys)" using assms(1) by (metis mset_eq_imp_distinct_iff)
  moreover have "set xs = set ys" using assms(2) by (rule mset_eq_setD)
  ultimately show ?thesis using assms(1) by (intro map_of_inject_set [THEN iffD2])
qed

end
