(* ===== verification/Latency.thy ===== *)
theory Latency
  imports Prelude
begin

text \<open>
  Latency histograms (\<^verbatim>\<open>internal/protocol/latency.go\<close>): two fixed tables of bucket edges, one
  histogram per operation, the client-side \<open>ObserveUs\<close> and \<open>ObserveFailure\<close>, the
  controller-side \<open>Merge\<close> and \<open>Clone\<close>, and the set of the eight histograms of a run.
  Counters are 64-bit words. The lemmas state what a histogram counts and that merging the
  histograms of many clients is observing all their samples in one.
\<close>

section \<open>Edges and scales\<close>

definition LatencyBucketEdgesUs :: "float64 list" where [go_eval]:
  "LatencyBucketEdgesUs =
    [10, 20, 50, 100, 200, 500,
     1000, 2000, 5000, 10000, 20000, 50000,
     100000, 200000, 500000,
     1000000, 2000000, 5000000, 10000000]"

definition LatencyLongBucketEdgesUs :: "float64 list" where [go_eval]:
  "LatencyLongBucketEdgesUs =
    [500000, 1000000, 1500000, 2000000, 3000000, 4000000, 5000000, 7500000, 10000000,
     12500000, 15000000, 20000000, 25000000, 30000000, 40000000, 50000000, 60000000]"

text \<open>\<open>LatencyScale\<close> is a Go \<open>int\<close>: a message may carry any value.\<close>

type_synonym LatencyScale = int

definition LatencyScaleIO :: LatencyScale where [go_eval]: "LatencyScaleIO = 0"
definition LatencyScaleLong :: LatencyScale where [go_eval]: "LatencyScaleLong = 1"

definition LatencyEdgesFor :: "LatencyScale \<Rightarrow> float64 list" where [go_eval]:
  "LatencyEdgesFor scale =
    (if scale = LatencyScaleLong then LatencyLongBucketEdgesUs else LatencyBucketEdgesUs)"

definition LatencyBucketCount :: nat where [go_eval]:
  "LatencyBucketCount = length LatencyBucketEdgesUs + 1"

definition LatencyBucketCountFor :: "LatencyScale \<Rightarrow> nat" where [go_eval]:
  "LatencyBucketCountFor scale = length (LatencyEdgesFor scale) + 1"

lemma bucket_counts:
  "LatencyBucketCount = 20" "LatencyBucketCountFor LatencyScaleIO = 20"
  "LatencyBucketCountFor LatencyScaleLong = 18"
  by (simp_all add: go_eval)

lemma bucket_count_pos: "0 < LatencyBucketCountFor sc"
  by (simp add: LatencyBucketCountFor_def)

lemma edges_sorted: "sorted (LatencyEdgesFor sc)"
  by (simp add: go_eval)

section \<open>The histogram\<close>

record LatencyHistogram =
  Counts :: "uint64 list"
  Total :: uint64
  SumUs :: float64
  Failures :: uint64
  Scale :: LatencyScale

definition NewLatencyHistogramScale :: "LatencyScale \<Rightarrow> LatencyHistogram" where [go_eval]:
  "NewLatencyHistogramScale scale =
    \<lparr>Counts = replicate (LatencyBucketCountFor scale) 0, Total = 0, SumUs = 0, Failures = 0,
     Scale = scale\<rparr>"

definition NewLatencyHistogram :: LatencyHistogram where [go_eval]:
  "NewLatencyHistogram = NewLatencyHistogramScale LatencyScaleIO"

text \<open>A nil slice has length 0, which is never the bucket count, so the nil test adds nothing.\<close>

definition ensureCounts :: "LatencyHistogram \<Rightarrow> LatencyHistogram" where [go_eval]:
  "ensureCounts h =
    (let n = LatencyBucketCountFor (Scale h)
     in if length (Counts h) \<noteq> n then h\<lparr>Counts := replicate n 0\<rparr> else h)"

text \<open>The loop of \<open>ObserveUs\<close>: the index of the first edge that is not below the sample, or the
  number of edges (the overflow bucket).\<close>

fun bucket_index :: "float64 \<Rightarrow> float64 list \<Rightarrow> nat" where
  "bucket_index us [] = 0"
| "bucket_index us (edge # edges) = (if us \<le> edge then 0 else Suc (bucket_index us edges))"

definition ObserveUs :: "LatencyHistogram \<Rightarrow> float64 \<Rightarrow> LatencyHistogram" where [go_eval]:
  "ObserveUs h0 us0 =
    (let h = ensureCounts h0;
         us = (if us0 < 0 then 0 else us0);
         i = bucket_index us (LatencyEdgesFor (Scale h))
     in h\<lparr>Total := Total h + 1, SumUs := SumUs h + us,
          Counts := (Counts h)[i := Counts h ! i + 1]\<rparr>)"

definition ObserveFailure :: "LatencyHistogram \<Rightarrow> LatencyHistogram" where [go_eval]:
  "ObserveFailure h = h\<lparr>Failures := Failures h + 1\<rparr>"

text \<open>The loop of \<open>Merge\<close> over the first \<open>min (len h.Counts) (len other.Counts)\<close> slots.\<close>

fun add_counts :: "uint64 list \<Rightarrow> uint64 list \<Rightarrow> uint64 list" where
  "add_counts (x # xs) (y # ys) = (x + y) # add_counts xs ys"
| "add_counts xs ys = xs"

definition merge_scale :: "LatencyHistogram \<Rightarrow> LatencyHistogram \<Rightarrow> LatencyHistogram" where
  [go_eval]:
  "merge_scale h other =
    (if Scale other \<noteq> 0 \<or> Scale h \<noteq> 0
     then (if Scale h = LatencyScaleIO \<and> Scale other \<noteq> LatencyScaleIO
           then h\<lparr>Scale := Scale other\<rparr> else h)
     else h)"

definition Merge :: "LatencyHistogram \<Rightarrow> LatencyHistogram \<Rightarrow> LatencyHistogram" where [go_eval]:
  "Merge h0 other =
    (let h1 = ensureCounts (merge_scale h0 other);
         h = h1\<lparr>Failures := Failures h1 + Failures other\<rparr>
     in if length (Counts other) = 0
        then h\<lparr>Total := Total h + Total other, SumUs := SumUs h + SumUs other\<rparr>
        else h\<lparr>Counts := add_counts (Counts h) (Counts other),
               Total := Total h + Total other, SumUs := SumUs h + SumUs other\<rparr>)"

text \<open>\<open>Clone\<close> copies into a slice of the length the scale asks for.\<close>

definition Clone :: "LatencyHistogram \<Rightarrow> LatencyHistogram" where [go_eval]:
  "Clone h =
    (let n = LatencyBucketCountFor (Scale h)
     in \<lparr>Counts = take n (Counts h) @ replicate (n - length (Counts h)) 0,
         Total = Total h, SumUs = SumUs h, Failures = Failures h, Scale = Scale h\<rparr>)"

section \<open>Bucket index\<close>

lemma bucket_index_le: "bucket_index us edges \<le> length edges"
  by (induction edges) auto

lemma bucket_index_bound: "bucket_index us (LatencyEdgesFor sc) < LatencyBucketCountFor sc"
  by (simp add: LatencyBucketCountFor_def less_Suc_eq_le bucket_index_le)

lemma bucket_index_upper: "bucket_index us edges < length edges \<Longrightarrow> us \<le> edges ! bucket_index us edges"
  by (induction edges) auto

lemma bucket_index_lower: "i < bucket_index us edges \<Longrightarrow> edges ! i < us"
  by (induction edges arbitrary: i) (auto simp: nth_Cons split: if_splits nat.splits)

lemma bucket_index_unique:
  assumes "sorted edges" "i < length edges" "us \<le> edges ! i" "i = 0 \<or> edges ! (i - 1) < us"
  shows "bucket_index us edges = i"
proof (rule ccontr)
  assume ne: "bucket_index us edges \<noteq> i"
  show False
  proof (cases "i < bucket_index us edges")
    case True
    then show False using bucket_index_lower assms(3) by (metis not_le)
  next
    case False
    with ne have lt: "bucket_index us edges < i" by simp
    with assms(2) have "us \<le> edges ! bucket_index us edges"
      by (intro bucket_index_upper) simp
    also have "\<dots> \<le> edges ! (i - 1)"
      using assms(1,2) lt by (intro sorted_nth_mono) auto
    finally show False using assms(4) lt by auto
  qed
qed

section \<open>Well-formed histograms\<close>

text \<open>
  A histogram is well formed at a scale if it has the slots of that scale and the slots add up
  (in 64-bit arithmetic) to the number of samples.
\<close>

definition hist_ok :: "LatencyScale \<Rightarrow> LatencyHistogram \<Rightarrow> bool" where
  "hist_ok sc h \<longleftrightarrow>
    Scale h = sc \<and> length (Counts h) = LatencyBucketCountFor sc \<and> sum_list (Counts h) = Total h"

lemma ensureCounts_ok [simp]: "hist_ok sc h \<Longrightarrow> ensureCounts h = h"
  by (simp add: hist_ok_def ensureCounts_def Let_def)

lemma length_add_counts [simp]: "length (add_counts xs ys) = length xs"
  by (induction xs ys rule: add_counts.induct) auto

lemma sum_add_counts: "length ys \<le> length xs \<Longrightarrow> sum_list (add_counts xs ys) = sum_list xs + sum_list ys"
  by (induction xs ys rule: add_counts.induct) auto

lemma nth_add_counts:
  "i < length xs \<Longrightarrow> add_counts xs ys ! i = xs ! i + (if i < length ys then ys ! i else 0)"
  by (induction xs ys arbitrary: i rule: add_counts.induct) (auto simp: nth_Cons split: nat.splits)

lemma add_counts_zeros [simp]: "add_counts xs (replicate n 0) = xs"
  by (rule nth_equalityI) (auto simp: nth_add_counts)

lemma add_counts_update:
  "length ys = length xs \<Longrightarrow> i < length xs \<Longrightarrow>
   add_counts xs (ys[i := ys ! i + d]) = (add_counts xs ys)[i := add_counts xs ys ! i + d]"
  by (rule nth_equalityI) (auto simp: nth_add_counts nth_list_update)

lemma add_counts_commute: "length ys = length xs \<Longrightarrow> add_counts xs ys = add_counts ys xs"
  by (rule nth_equalityI) (auto simp: nth_add_counts)

lemma hist_ok_New [ok_intros]: "hist_ok sc (NewLatencyHistogramScale sc)"
  by (simp add: hist_ok_def NewLatencyHistogramScale_def sum_list_replicate)

lemma hist_ok_ObserveUs [ok_intros]: "hist_ok sc h \<Longrightarrow> hist_ok sc (ObserveUs h us)"
  by (simp add: ObserveUs_def Let_def)
     (simp add: hist_ok_def sum_list_update bucket_index_bound)

lemma hist_ok_ObserveFailure [ok_intros]: "hist_ok sc h \<Longrightarrow> hist_ok sc (ObserveFailure h)"
  by (simp add: hist_ok_def ObserveFailure_def)

lemma Merge_ok:
  assumes "hist_ok sc h" "hist_ok sc g"
  shows "Merge h g =
    \<lparr>Counts = add_counts (Counts h) (Counts g), Total = Total h + Total g,
     SumUs = SumUs h + SumUs g, Failures = Failures h + Failures g, Scale = sc\<rparr>"
proof -
  have "merge_scale h g = h" using assms by (simp add: hist_ok_def merge_scale_def)
  moreover have "Counts g \<noteq> []" using assms(2) bucket_count_pos [of sc] by (auto simp: hist_ok_def)
  ultimately show ?thesis using assms bucket_count_pos [of sc]
    by (cases h) (simp add: Merge_def Let_def hist_ok_def)
qed

lemma hist_ok_Merge [ok_intros]: "hist_ok sc h \<Longrightarrow> hist_ok sc g \<Longrightarrow> hist_ok sc (Merge h g)"
  by (simp add: Merge_ok) (simp add: hist_ok_def sum_add_counts)

lemma Clone_ok: "hist_ok sc h \<Longrightarrow> Clone h = h"
  by (cases h) (simp add: hist_ok_def Clone_def Let_def)

section \<open>Accumulators that can be merged\<close>

text \<open>
  The contract the metrics path relies on: an accumulator observed event by event on a client,
  shipped and reset, and merged on the controller. \<open>merge_observe\<close> says that observing before or
  after the merge makes no difference; the lemmas say that splitting a run of events over any
  number of shipments loses and reorders nothing.
\<close>

locale mergeable =
  fixes empty :: 's
    and observe :: "'s \<Rightarrow> 'x \<Rightarrow> 's"
    and merge :: "'s \<Rightarrow> 's \<Rightarrow> 's"
    and ok :: "'s \<Rightarrow> bool"
  assumes ok_empty: "ok empty"
    and ok_observe: "ok s \<Longrightarrow> ok (observe s x)"
    and merge_empty: "ok s \<Longrightarrow> merge s empty = s"
    and merge_observe: "ok s \<Longrightarrow> ok t \<Longrightarrow> merge s (observe t x) = observe (merge s t) x"
begin

lemma ok_collect: "ok s \<Longrightarrow> ok (foldl observe s xs)"
  by (induction xs arbitrary: s) (auto intro: ok_observe)

lemma merge_collect: "ok s \<Longrightarrow> merge s (foldl observe empty xs) = foldl observe s xs"
proof (induction xs rule: rev_induct)
  case (snoc x xs)
  then show ?case by (simp add: merge_observe ok_collect ok_empty)
qed (simp add: merge_empty)

lemma merge_collect_from:
  "ok s \<Longrightarrow> ok t \<Longrightarrow> merge s (foldl observe t xs) = foldl observe (merge s t) xs"
proof (induction xs rule: rev_induct)
  case (snoc x xs)
  then show ?case by (simp add: merge_observe ok_collect)
qed simp

lemma merge_shards:
  "ok s \<Longrightarrow> foldl merge s (map (foldl observe empty) xss) = foldl observe s (concat xss)"
  by (induction xss arbitrary: s) (simp_all add: merge_collect ok_collect)

end

datatype hist_event = Observed float64 | Failed

fun hist_step :: "LatencyHistogram \<Rightarrow> hist_event \<Rightarrow> LatencyHistogram" where
  "hist_step h (Observed us) = ObserveUs h us"
| "hist_step h Failed = ObserveFailure h"

lemma Merge_New: "hist_ok sc h \<Longrightarrow> Merge h (NewLatencyHistogramScale sc) = h"
  by (cases h) (simp add: Merge_ok ok_intros, simp add: hist_ok_def NewLatencyHistogramScale_def)

lemma ObserveUs_ok:
  "hist_ok sc h \<Longrightarrow> ObserveUs h us =
    (let i = bucket_index (max 0 us) (LatencyEdgesFor sc)
     in h\<lparr>Total := Total h + 1, SumUs := SumUs h + max 0 us,
          Counts := (Counts h)[i := Counts h ! i + 1]\<rparr>)"
  by (simp add: ObserveUs_def Let_def max_def) (simp add: hist_ok_def)

lemma Merge_ObserveUs:
  assumes h: "hist_ok sc h" and g: "hist_ok sc g"
  shows "Merge h (ObserveUs g us) = ObserveUs (Merge h g) us"
proof -
  have og: "hist_ok sc (ObserveUs g us)" and mg: "hist_ok sc (Merge h g)"
    by (intro h g ok_intros)+
  have lens: "length (Counts h) = LatencyBucketCountFor sc" "length (Counts g) = LatencyBucketCountFor sc"
    using h g by (simp_all add: hist_ok_def)
  show ?thesis
    by (subst Merge_ok [OF h og], subst ObserveUs_ok [OF mg])
       (simp add: ObserveUs_ok [OF g] Merge_ok [OF h g] Let_def add_counts_update lens
         bucket_index_bound add.assoc)
qed

interpretation hist: mergeable "NewLatencyHistogramScale sc" hist_step Merge "hist_ok sc" for sc
proof unfold_locales
  fix s t x
  assume "hist_ok sc s" "hist_ok sc t"
  then show "Merge s (hist_step t x) = hist_step (Merge s t) x"
  proof (cases x)
    case Failed
    have "hist_ok sc (ObserveFailure t)" using \<open>hist_ok sc t\<close> by (rule ok_intros)
    with Failed \<open>hist_ok sc s\<close> \<open>hist_ok sc t\<close> show ?thesis
      by (simp add: Merge_ok) (simp add: ObserveFailure_def)
  qed (simp add: Merge_ObserveUs)
next
  fix s x
  assume "hist_ok sc s"
  then show "hist_ok sc (hist_step s x)" by (cases x) (auto intro: ok_intros)
qed (auto intro: ok_intros simp: Merge_New)

section \<open>What a histogram counts\<close>

fun observed :: "hist_event list \<Rightarrow> float64 list" where
  "observed [] = []"
| "observed (Observed us # es) = max 0 us # observed es"
| "observed (Failed # es) = observed es"

lemma observed_append [simp]: "observed (xs @ ys) = observed xs @ observed ys"
  by (induction xs rule: observed.induct) auto

definition collected :: "LatencyScale \<Rightarrow> hist_event list \<Rightarrow> LatencyHistogram" where
  "collected sc es = foldl hist_step (NewLatencyHistogramScale sc) es"

lemma collected_snoc [simp]: "collected sc (es @ [e]) = hist_step (collected sc es) e"
  by (simp add: collected_def)

lemma hist_ok_collected [ok_intros]: "hist_ok sc (collected sc es)"
  unfolding collected_def by (rule hist.ok_collect) (rule ok_intros)

lemma Counts_collected:
  "i < LatencyBucketCountFor sc \<Longrightarrow>
   Counts (collected sc es) ! i =
     of_nat (length (filter (\<lambda>u. bucket_index u (LatencyEdgesFor sc) = i) (observed es)))"
proof (induction es rule: rev_induct)
  case Nil
  then show ?case by (simp add: collected_def NewLatencyHistogramScale_def)
next
  case (snoc e es)
  have ok: "hist_ok sc (collected sc es)" by (rule ok_intros)
  then have len: "length (Counts (collected sc es)) = LatencyBucketCountFor sc"
    by (simp add: hist_ok_def)
  from snoc show ?case
    by (cases e) (simp_all add: ObserveUs_ok [OF ok] Let_def nth_list_update len ObserveFailure_def
        bucket_index_bound add.commute)
qed

lemma Total_collected: "Total (collected sc es) = of_nat (length (observed es))"
proof (induction es rule: rev_induct)
  case (snoc e es)
  have ok: "hist_ok sc (collected sc es)" by (rule ok_intros)
  from snoc show ?case
    by (cases e) (simp_all add: ObserveUs_ok [OF ok] Let_def ObserveFailure_def add.commute)
qed (simp add: collected_def NewLatencyHistogramScale_def)

lemma SumUs_collected: "SumUs (collected sc es) = sum_list (observed es)"
proof (induction es rule: rev_induct)
  case (snoc e es)
  have ok: "hist_ok sc (collected sc es)" by (rule ok_intros)
  from snoc show ?case
    by (cases e) (simp_all add: ObserveUs_ok [OF ok] Let_def ObserveFailure_def)
qed (simp add: collected_def NewLatencyHistogramScale_def)

section \<open>The set of histograms of a run\<close>

record LatencySet =
  Create :: LatencyHistogram
  Delete :: LatencyHistogram
  Write :: LatencyHistogram
  Read :: LatencyHistogram
  StartupCold :: LatencyHistogram
  StartupWarm :: LatencyHistogram
  GitClone :: LatencyHistogram
  Untar :: LatencyHistogram

definition NewLatencySet :: LatencySet where [go_eval]:
  "NewLatencySet =
    \<lparr>Create = NewLatencyHistogramScale LatencyScaleIO,
     Delete = NewLatencyHistogramScale LatencyScaleIO,
     Write = NewLatencyHistogramScale LatencyScaleLong,
     Read = NewLatencyHistogramScale LatencyScaleLong,
     StartupCold = NewLatencyHistogramScale LatencyScaleLong,
     StartupWarm = NewLatencyHistogramScale LatencyScaleLong,
     GitClone = NewLatencyHistogramScale LatencyScaleLong,
     Untar = NewLatencyHistogramScale LatencyScaleLong\<rparr>"

definition MergeSet :: "LatencySet \<Rightarrow> LatencySet \<Rightarrow> LatencySet" where [go_eval]:
  "MergeSet s other =
    \<lparr>Create = Merge (Create s) (Create other),
     Delete = Merge (Delete s) (Delete other),
     Write = Merge (Write s) (Write other),
     Read = Merge (Read s) (Read other),
     StartupCold = Merge (StartupCold s) (StartupCold other),
     StartupWarm = Merge (StartupWarm s) (StartupWarm other),
     GitClone = Merge (GitClone s) (GitClone other),
     Untar = Merge (Untar s) (Untar other)\<rparr>"

definition CloneSet :: "LatencySet \<Rightarrow> LatencySet" where [go_eval]:
  "CloneSet s =
    \<lparr>Create = Clone (Create s),
     Delete = Clone (Delete s),
     Write = Clone (Write s),
     Read = Clone (Read s),
     StartupCold = Clone (StartupCold s),
     StartupWarm = Clone (StartupWarm s),
     GitClone = Clone (GitClone s),
     Untar = Clone (Untar s)\<rparr>"

definition latency_set_ok :: "LatencySet \<Rightarrow> bool" where
  "latency_set_ok s \<longleftrightarrow>
    hist_ok LatencyScaleIO (Create s) \<and>
    hist_ok LatencyScaleIO (Delete s) \<and>
    hist_ok LatencyScaleLong (Write s) \<and>
    hist_ok LatencyScaleLong (Read s) \<and>
    hist_ok LatencyScaleLong (StartupCold s) \<and>
    hist_ok LatencyScaleLong (StartupWarm s) \<and>
    hist_ok LatencyScaleLong (GitClone s) \<and>
    hist_ok LatencyScaleLong (Untar s)"

text \<open>The event a client records: which operation, and what its histogram observes.\<close>

datatype lat_op = OpCreate | OpDelete | OpWrite | OpRead | OpStartupCold | OpStartupWarm | OpGitClone | OpUntar

fun observe_op :: "LatencySet \<Rightarrow> lat_op \<times> hist_event \<Rightarrow> LatencySet" where
"observe_op s (OpCreate, e) = s\<lparr>Create := hist_step (Create s) e\<rparr>"
| "observe_op s (OpDelete, e) = s\<lparr>Delete := hist_step (Delete s) e\<rparr>"
| "observe_op s (OpWrite, e) = s\<lparr>Write := hist_step (Write s) e\<rparr>"
| "observe_op s (OpRead, e) = s\<lparr>Read := hist_step (Read s) e\<rparr>"
| "observe_op s (OpStartupCold, e) = s\<lparr>StartupCold := hist_step (StartupCold s) e\<rparr>"
| "observe_op s (OpStartupWarm, e) = s\<lparr>StartupWarm := hist_step (StartupWarm s) e\<rparr>"
| "observe_op s (OpGitClone, e) = s\<lparr>GitClone := hist_step (GitClone s) e\<rparr>"
| "observe_op s (OpUntar, e) = s\<lparr>Untar := hist_step (Untar s) e\<rparr>"

lemma latency_set_ok_New [ok_intros]: "latency_set_ok NewLatencySet"
  by (simp add: latency_set_ok_def NewLatencySet_def ok_intros)

lemma latency_set_ok_Merge [ok_intros]:
  "latency_set_ok s \<Longrightarrow> latency_set_ok t \<Longrightarrow> latency_set_ok (MergeSet s t)"
  by (simp add: latency_set_ok_def MergeSet_def ok_intros)

lemma latency_set_ok_observe [ok_intros]: "latency_set_ok s \<Longrightarrow> latency_set_ok (observe_op s x)"
  by (cases x; cases "fst x") (auto simp: latency_set_ok_def hist.ok_observe)

lemma CloneSet_ok: "latency_set_ok s \<Longrightarrow> CloneSet s = s"
  by (cases s) (auto simp: latency_set_ok_def CloneSet_def Clone_ok)

interpretation latset: mergeable NewLatencySet observe_op MergeSet latency_set_ok
proof unfold_locales
  fix s t x
  assume "latency_set_ok s" "latency_set_ok t"
  then show "MergeSet s (observe_op t x) = observe_op (MergeSet s t) x"
    by (cases x; cases "fst x") (auto simp: latency_set_ok_def MergeSet_def hist.merge_observe)
next
  fix s
  assume "latency_set_ok s"
  then show "MergeSet s NewLatencySet = s"
    by (cases s) (simp add: latency_set_ok_def MergeSet_def NewLatencySet_def Merge_New)
qed (intro ok_intros; assumption)+

section \<open>Properties\<close>

text \<open>
  On a well-formed histogram \<open>ObserveUs\<close> increments exactly one slot, and it is the slot
  whose edges enclose the sample (negative samples count as 0): every edge before it is below the
  sample, and its own edge, unless it is the overflow slot, is not.
\<close>

theorem ObserveUs_enclosing_bucket:
  assumes "hist_ok sc h"
  shows "\<exists>i < LatencyBucketCountFor sc.
    Counts (ObserveUs h us) = (Counts h)[i := Counts h ! i + 1] \<and>
    (\<forall>j < i. LatencyEdgesFor sc ! j < max 0 us) \<and>
    (i < length (LatencyEdgesFor sc) \<longrightarrow> max 0 us \<le> LatencyEdgesFor sc ! i) \<and>
    Total (ObserveUs h us) = Total h + 1"
proof (intro exI conjI allI impI)
  let ?i = "bucket_index (max 0 us) (LatencyEdgesFor sc)"
  show "?i < LatencyBucketCountFor sc" by (rule bucket_index_bound)
  show "Counts (ObserveUs h us) = (Counts h)[?i := Counts h ! ?i + 1]"
    "Total (ObserveUs h us) = Total h + 1"
    by (simp_all add: ObserveUs_ok [OF assms] Let_def)
  show "max 0 us \<le> LatencyEdgesFor sc ! ?i" if "?i < length (LatencyEdgesFor sc)"
    using that by (rule bucket_index_upper)
qed (rule bucket_index_lower)

theorem ObserveUs_enclosing_bucket_witness:
  "\<exists>i < LatencyBucketCountFor LatencyScaleIO.
    Counts (ObserveUs NewLatencyHistogram 15) =
      (Counts NewLatencyHistogram)[i := Counts NewLatencyHistogram ! i + 1] \<and>
    (\<forall>j < i. LatencyEdgesFor LatencyScaleIO ! j < max 0 15) \<and>
    (i < length (LatencyEdgesFor LatencyScaleIO) \<longrightarrow> max 0 15 \<le> LatencyEdgesFor LatencyScaleIO ! i) \<and>
    Total (ObserveUs NewLatencyHistogram 15) = Total NewLatencyHistogram + 1"
  by (rule ObserveUs_enclosing_bucket) (unfold NewLatencyHistogram_def, rule ok_intros)

text \<open>
  C36. However the events of a run are split into shipments, merging the shipped histograms gives
  the histogram of all the events: slot by slot it holds the number of samples of that slot, its
  total is the number of samples and its sum their sum.
\<close>

theorem Merge_of_shipments:
  assumes "i < LatencyBucketCountFor sc"
  shows "Counts (foldl Merge (NewLatencyHistogramScale sc) (map (collected sc) ess)) ! i =
      of_nat (length (filter (\<lambda>u. bucket_index u (LatencyEdgesFor sc) = i) (observed (concat ess)))) \<and>
    Total (foldl Merge (NewLatencyHistogramScale sc) (map (collected sc) ess)) =
      of_nat (length (observed (concat ess))) \<and>
    SumUs (foldl Merge (NewLatencyHistogramScale sc) (map (collected sc) ess)) =
      sum_list (observed (concat ess))"
proof -
  have "foldl Merge (NewLatencyHistogramScale sc) (map (collected sc) ess) = collected sc (concat ess)"
    using hist.merge_shards [of sc "NewLatencyHistogramScale sc" ess]
    by (simp add: collected_def [abs_def] ok_intros)
  with assms show ?thesis by (simp add: Counts_collected Total_collected SumUs_collected)
qed

theorem Merge_of_shipments_witness:
  "Counts (foldl Merge (NewLatencyHistogramScale 0)
      (map (collected 0) [[Observed 15, Failed], [Observed 18, Observed 7]])) ! 1 = 2"
  using Merge_of_shipments [of 1 0 "[[Observed 15, Failed], [Observed 18, Observed 7]]"]
  by (simp add: go_eval)

text \<open>
  A histogram missing from the JSON message (the zero value: no slots, scale 0) merges as
  nothing on either side, at both scales, so the scale of the other side is kept.
\<close>

definition zero_histogram :: LatencyHistogram where
  "zero_histogram = \<lparr>Counts = [], Total = 0, SumUs = 0, Failures = 0, Scale = 0\<rparr>"

theorem Merge_zero_value:
  assumes "hist_ok sc h"
  shows "Merge h zero_histogram = h \<and> Merge zero_histogram h = h"
proof
  have len: "length (Counts h) = LatencyBucketCountFor sc" "Scale h = sc"
    using assms by (simp_all add: hist_ok_def)
  show "Merge h zero_histogram = h"
    using assms by (cases h) (simp add: Merge_def zero_histogram_def merge_scale_def
        ensureCounts_def hist_ok_def LatencyScaleIO_def Let_def)
  have "ensureCounts (merge_scale zero_histogram h) =
      \<lparr>Counts = replicate (LatencyBucketCountFor sc) 0, Total = 0, SumUs = 0, Failures = 0, Scale = sc\<rparr>"
    using bucket_count_pos [of sc] bucket_count_pos [of 0]
    by (auto simp: zero_histogram_def merge_scale_def ensureCounts_def len LatencyScaleIO_def Let_def)
  moreover have "add_counts (replicate (LatencyBucketCountFor sc) 0) (Counts h) = Counts h"
    by (rule nth_equalityI) (simp_all add: nth_add_counts len)
  ultimately show "Merge zero_histogram h = h"
    using len bucket_count_pos [of sc]
    by (cases h) (simp add: Merge_def Let_def zero_histogram_def)
qed

theorem Merge_zero_value_witness:
  "Merge (NewLatencyHistogramScale LatencyScaleLong) zero_histogram =
     NewLatencyHistogramScale LatencyScaleLong"
  using Merge_zero_value [OF hist_ok_New] by simp

end
