(* ===== verification/Protocol.thy ===== *)
theory Protocol
  imports Latency
begin

text \<open>
  The protocol package (\<^verbatim>\<open>internal/protocol/protocol.go\<close>): phases and their order, the configuration
  with its toggles, the constants, the reporting interval, and the records exchanged between
  controller, clients and Web UI. The lemmas say which phases a configuration runs.
\<close>

section \<open>Phases\<close>

text \<open>
  Go's \<open>type Phase string\<close>: the named constants, and \<open>PhaseOther\<close> for any other string (a phase
  name can arrive in a request). \<open>phase_of_string\<close> is how a string is read, \<open>phase_string\<close> the
  string itself.
\<close>

datatype phase =
    PhaseIdle | PhaseSoftwareUnpack | PhaseSoftwareCold | PhaseSoftwareWarm | PhaseGitClone
  | PhaseUntar | PhaseCreate | PhaseDelete | PhaseWriteBW | PhaseReadBW | PhaseReadWrite
  | PhaseRIOPS | PhaseFinalDelete | PhaseStopped | PhaseOther string

fun phase_string :: "phase \<Rightarrow> string" where
  "phase_string PhaseIdle = ''idle''"
| "phase_string PhaseSoftwareUnpack = ''software_unpack''"
| "phase_string PhaseSoftwareCold = ''software_cold''"
| "phase_string PhaseSoftwareWarm = ''software_warm''"
| "phase_string PhaseGitClone = ''git_clone''"
| "phase_string PhaseUntar = ''untar''"
| "phase_string PhaseCreate = ''create''"
| "phase_string PhaseDelete = ''delete''"
| "phase_string PhaseWriteBW = ''write_bw''"
| "phase_string PhaseReadBW = ''read_bw''"
| "phase_string PhaseReadWrite = ''read_write''"
| "phase_string PhaseRIOPS = ''riops''"
| "phase_string PhaseFinalDelete = ''final_delete''"
| "phase_string PhaseStopped = ''stopped''"
| "phase_string (PhaseOther s) = s"

definition named_phases :: "phase list" where [go_eval]:
  "named_phases =
    [PhaseIdle, PhaseSoftwareUnpack, PhaseSoftwareCold, PhaseSoftwareWarm, PhaseGitClone,
     PhaseUntar, PhaseCreate, PhaseDelete, PhaseWriteBW, PhaseReadBW, PhaseReadWrite,
     PhaseRIOPS, PhaseFinalDelete, PhaseStopped]"

definition phase_of_string :: "string \<Rightarrow> phase" where [go_eval]:
  "phase_of_string s =
    (case find (\<lambda>p. phase_string p = s) named_phases of Some p \<Rightarrow> p | None \<Rightarrow> PhaseOther s)"

lemma phase_string_of_string [simp]: "phase_string (phase_of_string s) = s"
proof (cases "find (\<lambda>p. phase_string p = s) named_phases")
  case (Some p)
  then have "phase_string p = s" by (blast dest: find_Some_iff [THEN iffD1])
  with Some show ?thesis by (simp add: phase_of_string_def)
qed (simp add: phase_of_string_def)

lemma phase_of_string_named: "p \<in> set named_phases \<Longrightarrow> phase_of_string (phase_string p) = p"
proof -
  have "list_all (\<lambda>p. phase_of_string (phase_string p) = p) named_phases" by code_simp
  then show "p \<in> set named_phases \<Longrightarrow> phase_of_string (phase_string p) = p"
    by (simp add: list_all_iff)
qed

fun PhaseLabel :: "phase \<Rightarrow> string" where
  "PhaseLabel PhaseIdle = ''Idle''"
| "PhaseLabel PhaseSoftwareUnpack = ''Software Unpack''"
| "PhaseLabel PhaseSoftwareCold = ''Software Cold''"
| "PhaseLabel PhaseSoftwareWarm = ''Software Warm''"
| "PhaseLabel PhaseGitClone = ''Git Clone''"
| "PhaseLabel PhaseUntar = ''Untar''"
| "PhaseLabel PhaseCreate = ''Create''"
| "PhaseLabel PhaseDelete = ''Delete''"
| "PhaseLabel PhaseWriteBW = ''Write BW''"
| "PhaseLabel PhaseReadBW = ''Read BW''"
| "PhaseLabel PhaseReadWrite = ''Read+Write''"
| "PhaseLabel PhaseRIOPS = ''RIOPS''"
| "PhaseLabel PhaseFinalDelete = ''Final Delete''"
| "PhaseLabel PhaseStopped = ''Stopped''"
| "PhaseLabel (PhaseOther s) = s"

section \<open>Constants\<close>

definition RampPercents :: "int list" where [go_eval]:
  "RampPercents = [10, 20, 30, 40, 50, 60, 70, 80, 90, 100]"

definition BandwidthFileSize :: int where [go_eval]: "BandwidthFileSize = 64 * 1024 * 1024"
definition CreateFileSize :: int where [go_eval]: "CreateFileSize = 4096"
definition RIOPSFileSize :: int where [go_eval]: "RIOPSFileSize = 2 ^ 30"
definition RIOPSIOSize :: int where [go_eval]: "RIOPSIOSize = 4096"
definition RIOPSDurationSteps :: int where [go_eval]: "RIOPSDurationSteps = 5"
definition MetricsInterval :: duration where [go_eval]: "MetricsInterval = Second"
definition MetricsTargetAggregateHz :: int where [go_eval]: "MetricsTargetAggregateHz = 100"
definition MetricsIntervalMax :: duration where [go_eval]: "MetricsIntervalMax = 60 * Second"
definition UIClientLimit :: int where [go_eval]: "UIClientLimit = 20"
definition HistoryRetention :: duration where [go_eval]: "HistoryRetention = 60 * Minute"
definition DefaultPhaseStepDuration :: duration where [go_eval]:
  "DefaultPhaseStepDuration = 30 * Second"
definition DefaultPackageURL :: string where [go_eval]:
  "DefaultPackageURL =
    ''https://root.cern/download/root_v6.40.02.Linux-almalinux9.8-x86_64-gcc11.5.tar.gz''"
definition DefaultStartupCommand :: string where [go_eval]:
  "DefaultStartupCommand = ''. root/bin/thisroot.sh; root -b -q''"
definition DefaultGitCloneURL :: string where [go_eval]:
  "DefaultGitCloneURL = ''https://github.com/cern-eos/eos.git''"
definition DefaultUntarURL :: string where [go_eval]:
  "DefaultUntarURL = ''https://xrootd.web.cern.ch/download/v6.1.1/xrootd-6.1.1.tar.gz''"
definition SoftwareUnpackTimeout :: duration where [go_eval]: "SoftwareUnpackTimeout = 30 * Minute"
definition SoftwareStartupColdTimeout :: duration where [go_eval]:
  "SoftwareStartupColdTimeout = 600 * Second"
definition SoftwareStartupWarmTimeout :: duration where [go_eval]:
  "SoftwareStartupWarmTimeout = 300 * Second"
definition SoftwareOpTimeout :: duration where [go_eval]: "SoftwareOpTimeout = 30 * Minute"
definition FinalCleanupTimeout :: duration where [go_eval]: "FinalCleanupTimeout = 30 * Minute"
definition WSPingInterval :: duration where [go_eval]: "WSPingInterval = 20 * Second"
definition WSReadTimeout :: duration where [go_eval]: "WSReadTimeout = 60 * Second"
definition ClientStaleAfter :: duration where [go_eval]: "ClientStaleAfter = 90 * Second"

section \<open>Configuration\<close>

record Config =
  TestName :: string
  Prefixes :: "string list"
  FileCreationRate :: float64
  FileDeletionRate :: float64
  FileWriteBandwidth :: float64
  FileReadBandwidth :: float64
  PhaseStepSeconds :: float64
  RandomWriteIOPS :: float64
  RandomReadIOPS :: float64
  PackageURL :: string
  StartupCommand :: string
  GitCloneURL :: string
  UntarURL :: string
  DisabledPhases :: "phase list"

definition DefaultConfig :: Config where [go_eval]:
  "DefaultConfig =
    \<lparr>TestName = ''bench1'', Prefixes = [''/tmp/homebench''],
     FileCreationRate = 1000, FileDeletionRate = 1000,
     FileWriteBandwidth = 500 * 1024 * 1024, FileReadBandwidth = 500 * 1024 * 1024,
     PhaseStepSeconds = Seconds DefaultPhaseStepDuration,
     RandomWriteIOPS = 0, RandomReadIOPS = 0,
     PackageURL = DefaultPackageURL, StartupCommand = DefaultStartupCommand,
     GitCloneURL = DefaultGitCloneURL, UntarURL = DefaultUntarURL, DisabledPhases = []\<rparr>"

definition SoftwareEnabled :: "Config \<Rightarrow> bool" where [go_eval]:
  "SoftwareEnabled c \<longleftrightarrow> TrimSpace (PackageURL c) \<noteq> [] \<and> TrimSpace (StartupCommand c) \<noteq> []"

definition GitCloneEnabled :: "Config \<Rightarrow> bool" where [go_eval]:
  "GitCloneEnabled c \<longleftrightarrow> TrimSpace (GitCloneURL c) \<noteq> []"

definition UntarEnabled :: "Config \<Rightarrow> bool" where [go_eval]:
  "UntarEnabled c \<longleftrightarrow> TrimSpace (UntarURL c) \<noteq> []"

definition PhaseToggleGroup :: "phase \<Rightarrow> phase list" where [go_eval]:
  "PhaseToggleGroup p =
    (if p \<in> {PhaseSoftwareUnpack, PhaseSoftwareCold, PhaseSoftwareWarm}
     then [PhaseSoftwareUnpack, PhaseSoftwareCold, PhaseSoftwareWarm]
     else if p \<in> {PhaseCreate, PhaseDelete} then [PhaseCreate, PhaseDelete]
     else [p])"

definition PhaseOrder :: "phase list" where [go_eval]:
  "PhaseOrder =
    [PhaseCreate, PhaseDelete, PhaseWriteBW, PhaseReadBW, PhaseReadWrite, PhaseRIOPS,
     PhaseFinalDelete]"

definition EffectivePhaseOrder :: "Config \<Rightarrow> phase list" where [go_eval]:
  "EffectivePhaseOrder cfg =
    (if SoftwareEnabled cfg then [PhaseSoftwareUnpack, PhaseSoftwareCold, PhaseSoftwareWarm] else []) @
    (if GitCloneEnabled cfg then [PhaseGitClone] else []) @
    (if UntarEnabled cfg then [PhaseUntar] else []) @
    PhaseOrder"

definition PhaseDisabled :: "Config \<Rightarrow> phase \<Rightarrow> bool" where [go_eval]:
  "PhaseDisabled c p \<longleftrightarrow> p \<in> set (DisabledPhases c)"

text \<open>The first plan entry equal to \<open>p\<close> decides.\<close>

definition PhaseSelected :: "Config \<Rightarrow> phase \<Rightarrow> bool" where [go_eval]:
  "PhaseSelected c p \<longleftrightarrow>
    (case find (\<lambda>x. x = p) (EffectivePhaseOrder c) of
       Some x \<Rightarrow> \<not> PhaseDisabled c p
     | None \<Rightarrow> False)"

text \<open>
  The body of the nested loops of \<open>NormalizeDisabledPhases\<close>. The Go map \<open>seen\<close> always holds
  exactly the entries of \<open>out\<close>.
\<close>

definition normalize_add :: "phase list \<Rightarrow> phase list \<Rightarrow> phase \<Rightarrow> phase list" where [go_eval]:
  "normalize_add allowed out g =
    (if g \<notin> set allowed then out else if g \<in> set out then out else out @ [g])"

definition NormalizeDisabledPhases :: "Config \<Rightarrow> Config" where [go_eval]:
  "NormalizeDisabledPhases c =
    c\<lparr>DisabledPhases :=
      foldl (\<lambda>out p. foldl (normalize_add (EffectivePhaseOrder c)) out (PhaseToggleGroup p))
        [] (DisabledPhases c)\<rparr>"

definition ActivePhaseOrder :: "Config \<Rightarrow> phase list" where [go_eval]:
  "ActivePhaseOrder cfg0 =
    (let cfg = NormalizeDisabledPhases cfg0
     in filter (\<lambda>p. \<not> PhaseDisabled cfg p) (EffectivePhaseOrder cfg))"

definition PhaseStepDuration :: "Config \<Rightarrow> duration" where [go_eval]:
  "PhaseStepDuration c =
    (if PhaseStepSeconds c \<le> 0 then DefaultPhaseStepDuration
     else secs_to_duration (PhaseStepSeconds c))"

definition MetricsIntervalForClients :: "int \<Rightarrow> duration" where [go_eval]:
  "MetricsIntervalForClients n0 =
    (let n = (if n0 < 1 then 1 else n0);
         sec = of_int n / of_int MetricsTargetAggregateHz :: float64;
         d = secs_to_duration sec;
         d = (if d < MetricsInterval then MetricsInterval else d);
         d = (if d > MetricsIntervalMax then MetricsIntervalMax else d)
     in if d < Second then Second else Duration_Round d Second)"

section \<open>Toggle groups and the plan\<close>

lemma toggle_group_self [simp]: "p \<in> set (PhaseToggleGroup p)"
  by (auto simp: PhaseToggleGroup_def)

lemma toggle_group_sym: "g \<in> set (PhaseToggleGroup p) \<longleftrightarrow> PhaseToggleGroup g = PhaseToggleGroup p"
  by (auto simp: PhaseToggleGroup_def)

lemma distinct_toggle_group: "distinct (PhaseToggleGroup p)"
  by (auto simp: PhaseToggleGroup_def)

lemma Effective_DisabledPhases [simp]:
  "EffectivePhaseOrder (c\<lparr>DisabledPhases := ds\<rparr>) = EffectivePhaseOrder c"
  by (simp add: EffectivePhaseOrder_def SoftwareEnabled_def GitCloneEnabled_def UntarEnabled_def)

lemma distinct_EffectivePhaseOrder: "distinct (EffectivePhaseOrder c)"
  by (auto simp: EffectivePhaseOrder_def PhaseOrder_def)

lemma Effective_not_Nil [simp]: "EffectivePhaseOrder c \<noteq> []"
  by (simp add: EffectivePhaseOrder_def PhaseOrder_def)

lemma Effective_group_closed:
  "g \<in> set (PhaseToggleGroup p) \<Longrightarrow>
   g \<in> set (EffectivePhaseOrder c) \<longleftrightarrow> p \<in> set (EffectivePhaseOrder c)"
  by (auto simp: EffectivePhaseOrder_def PhaseOrder_def PhaseToggleGroup_def split: if_splits)

lemma PhaseSelected_iff:
  "PhaseSelected c p \<longleftrightarrow> p \<in> set (EffectivePhaseOrder c) \<and> \<not> PhaseDisabled c p"
  by (auto simp: PhaseSelected_def find_None_iff split: option.splits
      dest!: find_Some_iff [THEN iffD1])

section \<open>Normalised toggles\<close>

lemma set_normalize_fold: "set (foldl (normalize_add al) out gs) = set out \<union> (set gs \<inter> set al)"
  by (induction gs arbitrary: out) (auto simp: normalize_add_def)

lemma distinct_normalize_fold: "distinct out \<Longrightarrow> distinct (foldl (normalize_add al) out gs)"
  by (induction gs arbitrary: out) (auto simp: normalize_add_def)

lemma set_normalize_groups:
  "set (foldl (\<lambda>out p. foldl (normalize_add al) out (G p)) out ds) =
     set out \<union> {g \<in> set al. \<exists>d \<in> set ds. g \<in> set (G d)}"
  by (induction ds arbitrary: out) (auto simp: set_normalize_fold)

lemma distinct_normalize_groups:
  "distinct out \<Longrightarrow> distinct (foldl (\<lambda>out p. foldl (normalize_add al) out (G p)) out ds)"
  by (induction ds arbitrary: out) (auto simp: distinct_normalize_fold)

lemma DisabledPhases_Normalize:
  "set (DisabledPhases (NormalizeDisabledPhases c)) =
     {g \<in> set (EffectivePhaseOrder c). \<exists>d \<in> set (DisabledPhases c). g \<in> set (PhaseToggleGroup d)}"
  by (simp add: NormalizeDisabledPhases_def set_normalize_groups)

lemma Effective_Normalize [simp]:
  "EffectivePhaseOrder (NormalizeDisabledPhases c) = EffectivePhaseOrder c"
  by (simp only: NormalizeDisabledPhases_def Effective_DisabledPhases)

text \<open>
  A configuration is normalised when its disabled phases are a duplicate-free part of its plan
  that contains whole toggle groups.
\<close>

definition config_normal :: "Config \<Rightarrow> bool" where
  "config_normal c \<longleftrightarrow>
    distinct (DisabledPhases c) \<and> set (DisabledPhases c) \<subseteq> set (EffectivePhaseOrder c) \<and>
    (\<forall>p \<in> set (DisabledPhases c). \<forall>g \<in> set (PhaseToggleGroup p). g \<in> set (DisabledPhases c))"

lemma config_normal_Normalize [ok_intros]: "config_normal (NormalizeDisabledPhases c)"
proof -
  have "distinct (DisabledPhases (NormalizeDisabledPhases c))"
    by (simp add: NormalizeDisabledPhases_def distinct_normalize_groups)
  moreover have "g \<in> set (DisabledPhases (NormalizeDisabledPhases c))"
    if p: "p \<in> set (DisabledPhases (NormalizeDisabledPhases c))" and g: "g \<in> set (PhaseToggleGroup p)"
    for p g
  proof -
    from p obtain d where "p \<in> set (EffectivePhaseOrder c)" "d \<in> set (DisabledPhases c)"
      and "p \<in> set (PhaseToggleGroup d)"
      by (auto simp: DisabledPhases_Normalize)
    moreover have "g \<in> set (PhaseToggleGroup d)"
      using g \<open>p \<in> set (PhaseToggleGroup d)\<close> by (simp only: toggle_group_sym)
    ultimately show ?thesis
      using Effective_group_closed [OF g] by (auto simp: DisabledPhases_Normalize)
  qed
  moreover have "set (DisabledPhases (NormalizeDisabledPhases c)) \<subseteq> set (EffectivePhaseOrder c)"
    by (auto simp: DisabledPhases_Normalize)
  ultimately show ?thesis unfolding config_normal_def Effective_Normalize by blast
qed

lemma set_Disabled_Normalize_normal:
  "config_normal c \<Longrightarrow> set (DisabledPhases (NormalizeDisabledPhases c)) = set (DisabledPhases c)"
  unfolding DisabledPhases_Normalize config_normal_def by (auto intro: toggle_group_self)

lemma set_ActivePhaseOrder:
  "config_normal c \<Longrightarrow> p \<in> set (ActivePhaseOrder c) \<longleftrightarrow> PhaseSelected c p"
  by (simp add: ActivePhaseOrder_def Let_def PhaseSelected_iff PhaseDisabled_def
      set_Disabled_Normalize_normal)

section \<open>The reporting interval\<close>

lemma secs_to_duration_hundredths: "secs_to_duration (of_int k / 100) = k * 10000000"
proof -
  have "of_int k / 100 * 1000000000 = (of_int (k * 10000000) :: rat)" by simp
  then show ?thesis unfolding secs_to_duration_def by (metis trunc_of_int)
qed

definition clamped_interval :: "int \<Rightarrow> duration" where
  "clamped_interval n = max Second (min (60 * Second) (max 1 n * 10000000))"

lemma clamped_interval_bounds: "0 \<le> clamped_interval n" "Second \<le> clamped_interval n"
  "clamped_interval n \<le> 60 * Second"
  by (simp_all add: clamped_interval_def Second_def)

lemma clamp_chain:
  assumes "d1 = (if x < MetricsInterval then MetricsInterval else x)"
    and "d2 = (if d1 > MetricsIntervalMax then MetricsIntervalMax else d1)"
  shows "(if d2 < Second then Second else Duration_Round d2 Second) =
     Duration_Round (max Second (min (60 * Second) x)) Second"
proof -
  have "d2 = max Second (min (60 * Second) x)"
    using assms by (auto simp: MetricsInterval_def MetricsIntervalMax_def Second_def)
  then show ?thesis by simp
qed

lemma MetricsIntervalForClients_eq:
  "MetricsIntervalForClients n = Duration_Round (clamped_interval n) Second"
proof -
  have "(if n < 1 then 1 else n) = max 1 n" by simp
  then show ?thesis
    unfolding MetricsIntervalForClients_def MetricsTargetAggregateHz_def of_int_numeral
      secs_to_duration_hundredths Let_def clamped_interval_def
    by (simp only: clamp_chain [OF refl refl])
qed

section \<open>Properties\<close>

text \<open>
  C37. The phases of a run are the plan of the configuration, in plan order, without every phase
  that shares a toggle group with a disabled one, whatever the list of disabled phases holds.
\<close>

theorem ActivePhaseOrder_is_filtered_plan:
  "ActivePhaseOrder c =
     filter (\<lambda>p. \<not> list_ex (\<lambda>d. p \<in> set (PhaseToggleGroup d)) (DisabledPhases c))
       (EffectivePhaseOrder c)"
  by (simp add: ActivePhaseOrder_def Let_def PhaseDisabled_def DisabledPhases_Normalize list_ex_iff
      cong: filter_cong)

text \<open>
  In a normalised configuration the phases of one toggle group are selected together, and a
  phase is selected exactly when it is one of the active phases. (The run tests one phase of the
  software group and means the three.)
\<close>

theorem toggle_group_selected_together:
  assumes "q \<in> set (PhaseToggleGroup p)"
  shows "PhaseSelected (NormalizeDisabledPhases c) q = PhaseSelected (NormalizeDisabledPhases c) p \<and>
    PhaseSelected (NormalizeDisabledPhases c) p = (p \<in> set (ActivePhaseOrder c))"
proof
  have "PhaseToggleGroup q = PhaseToggleGroup p" using assms by (simp only: toggle_group_sym)
  with Effective_group_closed [OF assms, of c]
  show "PhaseSelected (NormalizeDisabledPhases c) q = PhaseSelected (NormalizeDisabledPhases c) p"
    by (auto simp: PhaseSelected_iff PhaseDisabled_def DisabledPhases_Normalize toggle_group_sym
       )
  show "PhaseSelected (NormalizeDisabledPhases c) p = (p \<in> set (ActivePhaseOrder c))"
    by (simp add: PhaseSelected_iff ActivePhaseOrder_def Let_def)
qed

theorem toggle_group_selected_together_witness:
  "PhaseDelete \<in> set (PhaseToggleGroup PhaseCreate) \<and>
   PhaseSelected (NormalizeDisabledPhases (DefaultConfig\<lparr>DisabledPhases := [PhaseCreate]\<rparr>)) PhaseDelete =
   PhaseSelected (NormalizeDisabledPhases (DefaultConfig\<lparr>DisabledPhases := [PhaseCreate]\<rparr>)) PhaseCreate"
proof -
  have h: "PhaseDelete \<in> set (PhaseToggleGroup PhaseCreate)" by (simp add: PhaseToggleGroup_def)
  show ?thesis using h toggle_group_selected_together [OF h] by blast
qed


end
