(* ===== verification/Messages.thy ===== *)
theory Messages
  imports Protocol
begin

text \<open>
  The records exchanged between the parts (\<^verbatim>\<open>internal/protocol/protocol.go\<close>, second half): client
  records, metric samples, phase commands, the message envelope and the snapshot for the Web UI.
  A Go pointer field that may be nil is an \<open>option\<close>. Field names carry a short prefix because
  several structs share their field names.
\<close>

record ClientInfo =
  ciID :: string
  ciHostname :: string
  ciPrefix :: string
  ciConnectedAt :: time
  ciLastSeen :: time
  ciStatus :: string
  ciPhase :: phase
  ciSelected :: bool

definition zero_ClientInfo :: ClientInfo where [go_eval]:
  "zero_ClientInfo =
    \<lparr>ciID = [], ciHostname = [], ciPrefix = [], ciConnectedAt = zero_time, ciLastSeen = zero_time,
     ciStatus = [], ciPhase = PhaseOther [], ciSelected = False\<rparr>"

record MetricSample =
  msClientID :: string
  msTimestamp :: time
  msPhase :: phase
  msPercent :: int
  msReadOps :: int64
  msWriteOps :: int64
  msDeleteOps :: int64
  msCreateOps :: int64
  msReadBytes :: int64
  msWriteBytes :: int64
  msGitFiles :: int64
  msUntarFiles :: int64
  msIntervalSec :: float64
  msLatencies :: LatencySet

record RunTotals =
  rtCreated :: int64
  rtDeleted :: int64
  rtReadBytes :: int64
  rtWriteBytes :: int64
  rtGitFiles :: int64
  rtUntarFiles :: int64

definition zero_RunTotals :: RunTotals where [go_eval]:
  "zero_RunTotals =
    \<lparr>rtCreated = 0, rtDeleted = 0, rtReadBytes = 0, rtWriteBytes = 0, rtGitFiles = 0,
     rtUntarFiles = 0\<rparr>"

record AggregatedSample =
  asTimestamp :: time
  asReadIOPS :: float64
  asWriteIOPS :: float64
  asReadBps :: float64
  asWriteBps :: float64
  asCreateIOPS :: float64
  asDeleteIOPS :: float64

record PhaseCommand =
  pcPhase :: phase
  pcPercent :: int
  pcDuration :: float64
  pcRate :: float64
  pcReadRate :: float64
  pcTestName :: string
  pcPrefix :: string
  pcFileSize :: int
  pcStartIndex :: int
  pcCountHint :: int
  pcPackageURL :: string
  pcStartupCommand :: string
  pcGitCloneURL :: string
  pcUntarURL :: string
  pcForceCleanup :: bool

text \<open>The zero value of the struct: a composite literal sets some fields and leaves these.\<close>

definition zero_PhaseCommand :: PhaseCommand where [go_eval]:
  "zero_PhaseCommand =
    \<lparr>pcPhase = PhaseOther [], pcPercent = 0, pcDuration = 0, pcRate = 0, pcReadRate = 0,
     pcTestName = [], pcPrefix = [], pcFileSize = 0, pcStartIndex = 0, pcCountHint = 0,
     pcPackageURL = [], pcStartupCommand = [], pcGitCloneURL = [], pcUntarURL = [],
     pcForceCleanup = False\<rparr>"

record RegisterMsg =
  rmHostname :: string
  rmID :: string

record WelcomeMsg =
  wmClientID :: string
  wmPrefix :: string
  wmConfig :: Config
  wmMetricsIntervalSec :: float64

record StatusMsg =
  smClientID :: string
  smStatus :: string
  smPhase :: phase
  smPercent :: int
  smDetail :: string
  smFiles :: int64

record StopMsg =
  stCleanup :: bool

record Envelope =
  envType :: string
  envRegister :: "RegisterMsg option"
  envMetrics :: "MetricSample option"
  envStatus :: "StatusMsg option"
  envWelcome :: "WelcomeMsg option"
  envCommand :: "PhaseCommand option"
  envStop :: "StopMsg option"
  envConfig :: "Config option"
  envMetricsIntervalSec :: float64

definition zero_Envelope :: Envelope where [go_eval]:
  "zero_Envelope =
    \<lparr>envType = [], envRegister = None, envMetrics = None, envStatus = None, envWelcome = None,
     envCommand = None, envStop = None, envConfig = None, envMetricsIntervalSec = 0\<rparr>"

record PhaseSpan =
  psPhase :: phase
  psStart :: time
  psEnd :: "time option"

record UIState =
  uiConfig :: Config
  uiClients :: "ClientInfo list"
  uiRunning :: bool
  uiPhase :: phase
  uiPercent :: int
  uiStartedAt :: "time option"
  uiElapsedSec :: float64
  uiStartupSec :: float64
  uiHistory :: "AggregatedSample list"
  uiLatencies :: LatencySet
  uiLatencyEdgesUs :: "float64 list"
  uiLatencyLongEdgesUs :: "float64 list"
  uiPhaseSpans :: "PhaseSpan list"
  uiPhaseOrder :: "phase list"
  uiStatusText :: string
  uiClientCount :: int
  uiClientsShown :: int
  uiParticipantCount :: int
  uiSelectedAll :: bool
  uiControllerHostname :: string
  uiTotals :: RunTotals

end
