(* ===== verification/HostPrefix.thy ===== *)
theory HostPrefix
  imports Prelude
begin

unbundle bit_operations_syntax

text \<open>
  Prefix assignment (\<^verbatim>\<open>internal/protocol/prefix.go\<close>): the FNV-1a 32-bit hash of the hostname picks
  one of the configured directory prefixes. \<open>hash/fnv\<close> is part of the Go standard library; its
  \<open>New32a\<close> writes the bytes one by one, XOR first and then a multiplication that wraps at 32 bits.
\<close>

definition fnv_offset32 :: "32 word" where [go_eval]: "fnv_offset32 = 2166136261"
definition fnv_prime32 :: "32 word" where [go_eval]: "fnv_prime32 = 16777619"

fun fnv32a_write :: "32 word \<Rightarrow> string \<Rightarrow> 32 word" where
  "fnv32a_write h [] = h"
| "fnv32a_write h (c # cs) = fnv32a_write ((h XOR of_char c) * fnv_prime32) cs"

definition fnv32a :: "string \<Rightarrow> 32 word" where
  [go_eval]: "fnv32a s = fnv32a_write fnv_offset32 s"

text \<open>
  The conversion \<open>int(h.Sum32())\<close> depends on the width of \<open>int\<close> on the platform: with 64 bits it
  is the hash, with 32 bits the same bits read as a signed number. Go's \<open>%\<close> truncates, so its
  result has the sign of the dividend, and indexing a slice out of range panics (\<open>None\<close>).
\<close>

definition go_rem :: "int \<Rightarrow> int \<Rightarrow> int" where [go_eval]:
  "go_rem a b = sgn a * (\<bar>a\<bar> mod \<bar>b\<bar>)"

definition int_of_uint32 :: "nat \<Rightarrow> 32 word \<Rightarrow> int" where [go_eval]:
  "int_of_uint32 int_bits h = (if int_bits = 32 then sint h else uint h)"

definition SelectPrefix_on :: "nat \<Rightarrow> string \<Rightarrow> string list \<Rightarrow> string option" where [go_eval]:
  "SelectPrefix_on int_bits hostname ps =
    (if ps = [] then Some []
     else let i = go_rem (int_of_uint32 int_bits (fnv32a hostname)) (int (length ps))
          in if 0 \<le> i \<and> i < int (length ps) then Some (ps ! nat i) else None)"

text \<open>On the 64-bit platforms the program is built for:\<close>

definition SelectPrefix :: "string \<Rightarrow> string list \<Rightarrow> string" where [go_eval]:
  "SelectPrefix hostname ps =
    (if ps = [] then [] else ps ! (unat (fnv32a hostname) mod length ps))"

lemma SelectPrefix_in: "ps \<noteq> [] \<Longrightarrow> SelectPrefix hostname ps \<in> set ps"
  by (simp add: SelectPrefix_def)

lemma go_rem_nonneg: "0 \<le> a \<Longrightarrow> 0 \<le> b \<Longrightarrow> go_rem a b = a mod b"
  by (cases "a = 0") (simp_all add: go_rem_def)

lemma SelectPrefix_on_64: "SelectPrefix_on 64 hostname ps = Some (SelectPrefix hostname ps)"
proof (cases "ps = []")
  case False
  have "uint (fnv32a hostname) = int (unat (fnv32a hostname))" by simp
  then have "go_rem (uint (fnv32a hostname)) (int (length ps)) =
      int (unat (fnv32a hostname) mod length ps)"
    by (simp only: go_rem_nonneg zmod_int of_nat_0_le_iff)
  with False show ?thesis
    by (simp only: SelectPrefix_on_def SelectPrefix_def int_of_uint32_def Let_def) simp
qed (simp add: SelectPrefix_on_def SelectPrefix_def)

section \<open>Properties\<close>

text \<open>
  With 64-bit integers the choice never fails: it is one of the configured prefixes whenever
  there is one, the empty string otherwise, and it depends on the hostname and the list alone.
\<close>

theorem SelectPrefix_configured:
  "SelectPrefix_on 64 hostname ps = Some (SelectPrefix hostname ps) \<and>
   (if ps = [] then SelectPrefix hostname ps = []
    else SelectPrefix hostname ps \<in> set ps)"
  by (simp add: SelectPrefix_on_64 SelectPrefix_in) (simp add: SelectPrefix_def)

text \<open>
  With 32-bit integers the hash is read as a negative number for about half of the hostnames,
  and the index is then out of range: a client named \<^verbatim>\<open>batch0\<close> makes the selection among two
  prefixes panic.
\<close>

theorem SelectPrefix_panics_on_32_bits: "SelectPrefix_on 32 ''batch0'' [''/a'', ''/b''] = None"
  by (simp add: go_eval)

end
