(* ===== verification/Registry.thy ===== *)
theory Registry
  imports Messages HostPrefix
begin

text \<open>
  The client registry (\<^verbatim>\<open>internal/controller/registry.go\<close>): a map from client id to the client's
  record and the time it was last heard of. The map is an association list with distinct keys; the
  operations that sort do not depend on its order, and the others return a set-like result.
  The registry's lock makes every operation one step; the clock is the argument \<open>now\<close>.
\<close>

section \<open>State and operations\<close>

record regEntry =
  reInfo :: ClientInfo
  reLastSeen :: time

record Registry =
  regClients :: "(string \<times> regEntry) list"

definition NewRegistry :: Registry where [go_eval]:
  "NewRegistry = \<lparr>regClients = []\<rparr>"

definition Upsert :: "time \<Rightarrow> string \<Rightarrow> string \<Rightarrow> string \<Rightarrow> Registry \<Rightarrow> Registry \<times> ClientInfo" where
  [go_eval]:
  "Upsert now cid hostname pfx r =
    (let inf = \<lparr>ciID = cid, ciHostname = hostname, ciPrefix = pfx, ciConnectedAt = now,
                ciLastSeen = now, ciStatus = ''registered'', ciPhase = PhaseIdle,
                ciSelected = False\<rparr>;
         e = \<lparr>reInfo = inf, reLastSeen = now\<rparr>
     in (r\<lparr>regClients := AList.update cid e (regClients r)\<rparr>, inf))"

text \<open>The loop body of \<open>ConnectionSpan\<close> over the pair \<open>(first, last)\<close>.\<close>

definition span_step :: "time \<times> time \<Rightarrow> string \<times> regEntry \<Rightarrow> time \<times> time" where [go_eval]:
  "span_step fl ke =
    (let t = ciConnectedAt (reInfo (snd ke)); first = fst fl; lst = snd fl
     in if t = zero_time then fl
        else (if first = zero_time \<or> t < first then t else first,
              if lst = zero_time \<or> t > lst then t else lst))"

definition ConnectionSpan :: "Registry \<Rightarrow> duration" where [go_eval]:
  "ConnectionSpan r =
    (let fl = foldl span_step (zero_time, zero_time) (regClients r)
     in if fst fl = zero_time \<or> snd fl = zero_time \<or> \<not> snd fl > fst fl then 0
        else snd fl - fst fl)"

definition Touch :: "time \<Rightarrow> string \<Rightarrow> Registry \<Rightarrow> Registry" where [go_eval]:
  "Touch now cid r =
    (case map_of (regClients r) cid of
       None \<Rightarrow> r
     | Some e \<Rightarrow> r\<lparr>regClients := AList.update cid (e\<lparr>reLastSeen := now\<rparr>) (regClients r)\<rparr>)"

definition SetStatus :: "time \<Rightarrow> string \<Rightarrow> string \<Rightarrow> phase \<Rightarrow> Registry \<Rightarrow> Registry" where [go_eval]:
  "SetStatus now cid status ph r =
    (case map_of (regClients r) cid of
       None \<Rightarrow> r
     | Some e \<Rightarrow>
         r\<lparr>regClients := AList.update cid
             \<lparr>reInfo = (reInfo e)\<lparr>ciStatus := status, ciPhase := ph, ciLastSeen := now\<rparr>,
              reLastSeen = now\<rparr> (regClients r)\<rparr>)"

text \<open>A copy of the record with the time of the last contact filled in.\<close>

definition with_last_seen :: "regEntry \<Rightarrow> ClientInfo" where [go_eval]:
  "with_last_seen e = (reInfo e)\<lparr>ciLastSeen := reLastSeen e\<rparr>"

definition Lookup :: "string \<Rightarrow> Registry \<Rightarrow> ClientInfo \<times> bool" where [go_eval]:
  "Lookup cid r =
    (case map_of (regClients r) cid of
       None \<Rightarrow> (zero_ClientInfo, False)
     | Some e \<Rightarrow> (with_last_seen e, True))"

definition Remove :: "string \<Rightarrow> Registry \<Rightarrow> Registry" where [go_eval]:
  "Remove cid r = r\<lparr>regClients := AList.delete cid (regClients r)\<rparr>"

definition Count :: "Registry \<Rightarrow> int" where [go_eval]:
  "Count r = int (length (regClients r))"

definition List_clients :: "Registry \<Rightarrow> ClientInfo list" where [go_eval]:
  "List_clients r = map (\<lambda>ke. with_last_seen (snd ke)) (regClients r)"

text \<open>The order of \<open>sort.Slice\<close> in \<open>ListCapped\<close> and \<open>IDsSorted\<close>: hostname, then id, as byte strings.\<close>

definition client_key :: "ClientInfo \<Rightarrow> string \<times> string" where [go_eval]:
  "client_key c = (ciHostname c, ciID c)"

definition ListCapped :: "int \<Rightarrow> Registry \<Rightarrow> ClientInfo list" where [go_eval]:
  "ListCapped limit r =
    (let xs = sort_key client_key (List_clients r)
     in if limit > 0 \<and> int (length xs) > limit then take (nat limit) xs else xs)"

definition Statuses :: "string list \<Rightarrow> Registry \<Rightarrow> (string \<rightharpoonup> string)" where [go_eval]:
  "Statuses ids r =
    foldl (\<lambda>out cid. case map_of (regClients r) cid of
                      None \<Rightarrow> out
                    | Some e \<Rightarrow> out(cid \<mapsto> ciStatus (reInfo e))) Map.empty ids"

definition IDs :: "Registry \<Rightarrow> string list" where [go_eval]:
  "IDs r = map fst (regClients r)"

definition IDsSorted :: "Registry \<Rightarrow> string list" where [go_eval]:
  "IDsSorted r = map ciID (sort_key client_key (List_clients r))"

definition ReassignPrefixes :: "string list \<Rightarrow> Registry \<Rightarrow> Registry" where [go_eval]:
  "ReassignPrefixes ps r =
    r\<lparr>regClients := map (\<lambda>(cid, e).
        (cid, e\<lparr>reInfo := (reInfo e)\<lparr>ciPrefix := SelectPrefix (ciHostname (reInfo e)) ps\<rparr>\<rparr>))
      (regClients r)\<rparr>"

definition Prune :: "time \<Rightarrow> duration \<Rightarrow> Registry \<Rightarrow> Registry \<times> ClientInfo list" where [go_eval]:
  "Prune now ttl r =
    (let cutoff = now - ttl; stale = (\<lambda>ke. reLastSeen (snd ke) < cutoff)
     in (r\<lparr>regClients := filter (\<lambda>ke. \<not> stale ke) (regClients r)\<rparr>,
         map (\<lambda>ke. with_last_seen (snd ke)) (filter stale (regClients r))))"

section \<open>Invariant\<close>

text \<open>Keys are distinct, as in any Go map, and every record carries the id it is stored under.\<close>

definition registry_ok :: "Registry \<Rightarrow> bool" where
  "registry_ok r \<longleftrightarrow>
    distinct (map fst (regClients r)) \<and> (\<forall>(cid, e) \<in> set (regClients r). ciID (reInfo e) = cid)"

lemma registry_okD:
  "registry_ok r \<Longrightarrow> distinct (map fst (regClients r))"
  "registry_ok r \<Longrightarrow> (cid, e) \<in> set (regClients r) \<Longrightarrow> ciID (reInfo e) = cid"
  "registry_ok r \<Longrightarrow> map_of (regClients r) cid = Some e \<Longrightarrow> ciID (reInfo e) = cid"
  by (auto simp: registry_ok_def dest: map_of_SomeD)

lemma set_alist_update_subset: "set (AList.update k v xs) \<subseteq> insert (k, v) (set xs)"
  by (induction xs) auto

lemma registry_ok_update:
  assumes "registry_ok r" "ciID (reInfo e) = cid"
  shows "registry_ok (r\<lparr>regClients := AList.update cid e (regClients r)\<rparr>)"
  using assms set_alist_update_subset [of cid e "regClients r"]
  by (auto simp: registry_ok_def distinct_update)

lemma registry_ok_New [ok_intros]: "registry_ok NewRegistry"
  by (simp add: registry_ok_def NewRegistry_def)

lemma registry_ok_Upsert [ok_intros]: "registry_ok r \<Longrightarrow> registry_ok (fst (Upsert now cid h p r))"
  by (simp add: Upsert_def Let_def registry_ok_update)

lemma registry_ok_Touch [ok_intros]: "registry_ok r \<Longrightarrow> registry_ok (Touch now cid r)"
  by (auto simp: Touch_def registry_ok_update registry_okD split: option.split)

lemma registry_ok_SetStatus [ok_intros]: "registry_ok r \<Longrightarrow> registry_ok (SetStatus now cid st ph r)"
  by (auto simp: SetStatus_def registry_ok_update registry_okD split: option.split)

lemma registry_ok_Remove [ok_intros]: "registry_ok r \<Longrightarrow> registry_ok (Remove cid r)"
  by (auto simp: Remove_def registry_ok_def distinct_delete) (auto simp: AList.delete_eq)

lemma registry_ok_Reassign [ok_intros]: "registry_ok r \<Longrightarrow> registry_ok (ReassignPrefixes ps r)"
  by (auto simp: ReassignPrefixes_def registry_ok_def comp_def case_prod_beta)

lemma registry_ok_Prune [ok_intros]: "registry_ok r \<Longrightarrow> registry_ok (fst (Prune now ttl r))"
  by (auto simp: Prune_def registry_ok_def Let_def distinct_map_filter)

section \<open>The map behind the list\<close>

lemma map_of_Upsert:
  "map_of (regClients (fst (Upsert now cid h p r))) =
    (map_of (regClients r))(cid \<mapsto> \<lparr>reInfo = snd (Upsert now cid h p r), reLastSeen = now\<rparr>)"
  by (simp add: Upsert_def Let_def update_conv')

lemma map_of_Touch:
  "map_of (regClients (Touch now cid r)) =
    (map_of (regClients r))(cid := map_option (\<lambda>e. e\<lparr>reLastSeen := now\<rparr>) (map_of (regClients r) cid))"
  by (auto simp: Touch_def update_conv' fun_eq_iff split: option.split)

lemma map_of_SetStatus:
  "map_of (regClients (SetStatus now cid st ph r)) =
    (map_of (regClients r))(cid := map_option (\<lambda>e.
        \<lparr>reInfo = (reInfo e)\<lparr>ciStatus := st, ciPhase := ph, ciLastSeen := now\<rparr>, reLastSeen = now\<rparr>)
      (map_of (regClients r) cid))"
  by (auto simp: SetStatus_def update_conv' fun_eq_iff split: option.split)

lemma map_of_Remove: "map_of (regClients (Remove cid r)) = (map_of (regClients r))(cid := None)"
  by (simp add: Remove_def delete_conv')

lemmas registry_maps = map_of_Upsert map_of_Touch map_of_SetStatus map_of_Remove

lemma set_IDs: "set (IDs r) = dom (map_of (regClients r))"
  by (simp add: IDs_def dom_map_of_conv_image_fst)

lemma distinct_IDs: "registry_ok r \<Longrightarrow> distinct (IDs r)"
  by (simp add: IDs_def registry_okD)

lemma Count_IDs: "Count r = int (length (IDs r))"
  by (simp add: Count_def IDs_def)

lemma Statuses_fold:
  "foldl (\<lambda>out cid. case map_of (regClients r) cid of None \<Rightarrow> out
      | Some e \<Rightarrow> out(cid \<mapsto> ciStatus (reInfo e))) m ids =
   (\<lambda>k. if k \<in> set ids \<and> map_of (regClients r) k \<noteq> None
        then map_option (\<lambda>e. ciStatus (reInfo e)) (map_of (regClients r) k) else m k)"
  by (induction ids arbitrary: m) (auto simp: fun_eq_iff split: option.splits)

lemma Statuses_eq:
  "Statuses ids r k =
    (if k \<in> set ids then map_option (\<lambda>e. ciStatus (reInfo e)) (map_of (regClients r) k) else None)"
  by (auto simp: Statuses_def Statuses_fold)

lemma ids_List_clients: "registry_ok r \<Longrightarrow> map ciID (List_clients r) = IDs r"
  by (auto simp: List_clients_def IDs_def with_last_seen_def comp_def dest: registry_okD(2))

lemma distinct_IDsSorted:
  assumes "registry_ok r"
  shows "distinct (IDsSorted r)"
proof -
  have "mset (IDsSorted r) = mset (IDs r)"
    by (metis IDsSorted_def assms ids_List_clients mset_map mset_sort)
  then show ?thesis using distinct_IDs [OF assms] by (metis mset_eq_imp_distinct_iff)
qed

lemma inj_client_key: "registry_ok r \<Longrightarrow> inj_on client_key (set (List_clients r))"
proof -
  assume "registry_ok r"
  then have "distinct (map ciID (List_clients r))" by (simp add: ids_List_clients distinct_IDs)
  then have "inj_on ciID (set (List_clients r))" by (simp add: distinct_map)
  then show ?thesis by (auto simp: inj_on_def client_key_def)
qed

lemma sort_client_key_cong:
  assumes "registry_ok r" "mset (regClients r) = mset (regClients r')"
  shows "sort_key client_key (List_clients r) = sort_key client_key (List_clients r')"
proof (rule sort_key_inj_key_eq)
  have "mset (List_clients r) = mset (List_clients r')"
    using assms(2) by (simp add: List_clients_def flip: image_mset_union)
  then show "mset (List_clients r) = mset (sort_key client_key (List_clients r'))" by simp
  show "inj_on client_key (set (List_clients r))" using assms(1) by (rule inj_client_key)
qed simp

section \<open>What the orchestrator relies on\<close>

text \<open>
  The orchestrator reads the registry only through the ids it lists, their number and their
  statuses. The contract of these three, and what it gives for a set of selected ids.
\<close>

locale client_directory =
  fixes ids :: "'r \<Rightarrow> string list"
    and count :: "'r \<Rightarrow> int"
    and statuses :: "string list \<Rightarrow> 'r \<Rightarrow> (string \<rightharpoonup> string)"
    and ok :: "'r \<Rightarrow> bool"
  assumes ids_distinct: "ok r \<Longrightarrow> distinct (ids r)"
    and count_ids: "count r = int (length (ids r))"
    and dom_statuses: "dom (statuses xs r) = set xs \<inter> set (ids r)"
begin

lemma count_card: "ok r \<Longrightarrow> count r = int (card (set (ids r)))"
  by (simp add: count_ids distinct_card ids_distinct)

lemma all_selected_iff:
  assumes "ok r" "sel \<subseteq> set (ids r)"
  shows "int (card sel) = count r \<longleftrightarrow> sel = set (ids r)"
proof
  assume "int (card sel) = count r"
  then have "card sel = card (set (ids r))" using assms(1) by (simp add: count_card)
  then show "sel = set (ids r)" using assms(2) by (simp add: card_subset_eq)
qed (simp add: count_card assms(1))

lemma status_missing: "x \<in> set xs \<Longrightarrow> statuses xs r x = None \<longleftrightarrow> x \<notin> set (ids r)"
  using dom_statuses [of xs r] by blast

end

interpretation registry: client_directory IDs Count Statuses registry_ok
proof unfold_locales
  fix r xs
  show "dom (Statuses xs r) = set xs \<inter> set (IDs r)"
    by (auto simp: Statuses_eq set_IDs split: if_splits)
qed (simp_all add: distinct_IDs Count_IDs)

section \<open>Listing, pruning and the connection span\<close>

lemma length_List_clients: "int (length (List_clients r)) = Count r"
  by (simp add: List_clients_def Count_def)

lemma sorted_client_keys:
  "registry_ok r \<Longrightarrow> sorted_wrt (<) (map client_key (sort_key client_key (List_clients r)))"
  by (simp add: strict_sorted_iff distinct_map inj_client_key distinct_map [of ciID, THEN iffD1]
      ids_List_clients distinct_IDs)

definition conn_times :: "(string \<times> regEntry) list \<Rightarrow> time set" where
  "conn_times xs = (\<lambda>ke. ciConnectedAt (reInfo (snd ke))) ` set xs - {zero_time}"

lemma conn_times_snoc:
  "conn_times (xs @ [x]) =
    (if ciConnectedAt (reInfo (snd x)) = zero_time then conn_times xs
     else insert (ciConnectedAt (reInfo (snd x))) (conn_times xs))"
  by (auto simp: conn_times_def)

lemma finite_conn_times [simp]: "finite (conn_times xs)"
  by (simp add: conn_times_def)

lemma zero_notin_conn_times [simp]: "zero_time \<notin> conn_times xs"
  by (simp add: conn_times_def)

lemma span_step_zero: "ciConnectedAt (reInfo (snd x)) = zero_time \<Longrightarrow> span_step fl x = fl"
  by (simp add: span_step_def Let_def)

lemma span_step_first:
  "ciConnectedAt (reInfo (snd x)) = t \<Longrightarrow> span_step (zero_time, zero_time) x = (t, t)"
  by (simp add: span_step_def Let_def)

lemma span_step_more:
  "ciConnectedAt (reInfo (snd x)) = t \<Longrightarrow> t \<noteq> zero_time \<Longrightarrow> a \<noteq> zero_time \<Longrightarrow> b \<noteq> zero_time \<Longrightarrow>
   span_step (a, b) x = (min t a, max t b)"
  by (auto simp: span_step_def Let_def)

lemma span_fold:
  "foldl span_step (zero_time, zero_time) xs =
    (if conn_times xs = {} then (zero_time, zero_time)
     else (Min (conn_times xs), Max (conn_times xs)))"
proof (induction xs rule: rev_induct)
  case Nil
  show ?case by (simp add: conn_times_def)
next
  case (snoc x xs)
  let ?t = "ciConnectedAt (reInfo (snd x))" and ?T = "conn_times xs"
  show ?case
  proof (cases "?t = zero_time")
    case True
    then show ?thesis by (simp add: snoc.IH conn_times_snoc span_step_zero)
  next
    case set: False
    show ?thesis
    proof (cases "?T = {}")
      case True
      with set show ?thesis by (simp add: snoc.IH conn_times_snoc span_step_first)
    next
      case False
      have "Min ?T \<noteq> zero_time" "Max ?T \<noteq> zero_time"
        using Min_in [OF finite_conn_times False] Max_in [OF finite_conn_times False]
        by (metis zero_notin_conn_times)+
      with set have "span_step (Min ?T, Max ?T) x = (min ?t (Min ?T), max ?t (Max ?T))"
        by (intro span_step_more) simp_all
      with set False show ?thesis by (simp add: snoc.IH conn_times_snoc)
    qed
  qed
qed

lemma map_of_Prune:
  "registry_ok r \<Longrightarrow> map_of (regClients (fst (Prune now ttl r))) k =
    (case map_of (regClients r) k of
       Some e \<Rightarrow> if reLastSeen e < now - ttl then None else Some e | None \<Rightarrow> None)"
  by (simp add: Prune_def Let_def lookup_filtered registry_okD(1) split: option.split)

section \<open>Properties\<close>

text \<open>
  The capped list is the sorted list cut at the limit: its keys increase strictly, it holds
  \<open>limit\<close> clients (all of them when there are no more, or when the limit is not positive), every
  client it leaves out comes after every client it shows, and two iteration orders of the same
  map give the same list.
\<close>

theorem ListCapped_sorted_prefix:
  assumes "registry_ok r" "mset (regClients r) = mset (regClients r')"
  shows "sorted_wrt (<) (map client_key (ListCapped limit r)) \<and>
    int (length (ListCapped limit r)) = (if 0 < limit then min limit (Count r) else Count r) \<and>
    set (ListCapped limit r) \<subseteq> set (List_clients r) \<and>
    \<not> (\<exists>x y. x \<in> set (ListCapped limit r) \<and> y \<in> set (List_clients r) - set (ListCapped limit r) \<and>
        \<not> client_key x < client_key y) \<and>
    ListCapped limit r' = ListCapped limit r"
proof -
  let ?xs = "sort_key client_key (List_clients r)"
  define n where "n = (if limit > 0 \<and> int (length ?xs) > limit then nat limit else length ?xs)"
  have capped: "ListCapped limit r = take n ?xs" by (simp add: ListCapped_def Let_def n_def)
  have sorted: "sorted_wrt (<) (map client_key ?xs)" using assms(1) by (rule sorted_client_keys)
  then have split: "sorted_wrt (<) (map client_key (take n ?xs) @ map client_key (drop n ?xs))"
    by (metis append_take_drop_id map_append)
  have "client_key x < client_key y" if "x \<in> set (take n ?xs)" "y \<in> set ?xs - set (take n ?xs)" for x y
  proof -
    have "y \<in> set (drop n ?xs)" using that(2) by (metis Diff_iff UnE append_take_drop_id set_append)
    with split that(1) show ?thesis by (auto simp: sorted_wrt_append)
  qed
  moreover have "ListCapped limit r' = ListCapped limit r"
    by (simp add: ListCapped_def sort_client_key_cong [OF assms])
  moreover have "int (length (take n ?xs)) = (if 0 < limit then min limit (Count r) else Count r)"
    using length_List_clients [of r] by (simp add: n_def)
  ultimately show ?thesis
    using sorted split unfolding capped by (auto simp: sorted_wrt_append dest: in_set_takeD)
qed

theorem ListCapped_sorted_prefix_witness:
  "map ciID (ListCapped 1 (fst (Upsert 7 ''b'' ''n1'' ''/p'' (fst (Upsert 5 ''a'' ''n2'' ''/p'' NewRegistry)))))
    = [''b''] \<and>
   sorted_wrt (<) (map client_key (ListCapped 1
     (fst (Upsert 7 ''b'' ''n1'' ''/p'' (fst (Upsert 5 ''a'' ''n2'' ''/p'' NewRegistry))))))"
proof -
  let ?r = "fst (Upsert 7 ''b'' ''n1'' ''/p'' (fst (Upsert 5 ''a'' ''n2'' ''/p'' NewRegistry)))"
  have "registry_ok ?r" by (intro ok_intros)
  from ListCapped_sorted_prefix [OF this refl, of 1]
  have "sorted_wrt (<) (map client_key (ListCapped 1 ?r))" by blast
  moreover have "map ciID (ListCapped 1 ?r) = [''b'']" by code_simp
  ultimately show ?thesis by blast
qed

text \<open>
  C35. Pruning removes exactly the clients not heard of for longer than the limit, reports
  exactly those, and changes nothing about the others.
\<close>

theorem Prune_removes_exactly_stale:
  assumes "registry_ok r"
  shows "map_of (regClients (fst (Prune now ttl r))) =
      (\<lambda>k. case map_of (regClients r) k of
             Some e \<Rightarrow> if reLastSeen e < now - ttl then None else Some e | None \<Rightarrow> None) \<and>
    set (snd (Prune now ttl r)) =
      {c. \<exists>k e. map_of (regClients r) k = Some e \<and> reLastSeen e < now - ttl \<and> c = with_last_seen e}"
proof
  show "map_of (regClients (fst (Prune now ttl r))) = (\<lambda>k. case map_of (regClients r) k of
      Some e \<Rightarrow> if reLastSeen e < now - ttl then None else Some e | None \<Rightarrow> None)"
    by (simp add: fun_eq_iff map_of_Prune [OF assms])
  have "(k, e) \<in> set (regClients r) \<longleftrightarrow> map_of (regClients r) k = Some e" for k e
    using assms by (simp add: registry_okD)
  then show "set (snd (Prune now ttl r)) = {c. \<exists>k e. map_of (regClients r) k = Some e \<and>
      reLastSeen e < now - ttl \<and> c = with_last_seen e}"
    by (force simp: Prune_def Let_def)
qed

theorem Prune_removes_exactly_stale_witness:
  "IDs (fst (Prune 200 90 (fst (Upsert 150 ''b'' ''n1'' ''/p'' (fst (Upsert 5 ''a'' ''n2'' ''/p'' NewRegistry))))))
     = [''b''] \<and>
   map_of (regClients (fst (Prune 200 90
     (fst (Upsert 150 ''b'' ''n1'' ''/p'' (fst (Upsert 5 ''a'' ''n2'' ''/p'' NewRegistry))))))) ''a'' = None"
proof -
  let ?r = "fst (Upsert 150 ''b'' ''n1'' ''/p'' (fst (Upsert 5 ''a'' ''n2'' ''/p'' NewRegistry)))"
  have "registry_ok ?r" by (intro ok_intros)
  from Prune_removes_exactly_stale [OF this, of 200 90]
  have "map_of (regClients (fst (Prune 200 90 ?r))) ''a'' = None"
    by (simp add: Upsert_def Let_def NewRegistry_def)
  moreover have "IDs (fst (Prune 200 90 ?r)) = [''b'']" by code_simp
  ultimately show ?thesis by blast
qed

text \<open>
  A registered client that was heard of (a pong, a heartbeat or a status) at most \<open>ttl\<close> ago
  survives the pruning, with its status as last reported.
\<close>

theorem heard_client_survives_Prune:
  assumes "registry_ok r" "cid \<in> set (IDs r)" "now - t \<le> ttl"
  shows "cid \<in> set (IDs (fst (Prune now ttl (Touch t cid r)))) \<and>
    cid \<in> set (IDs (fst (Prune now ttl (SetStatus t cid st ph r)))) \<and>
    Statuses [cid] (fst (Prune now ttl (SetStatus t cid st ph r))) cid = Some st"
proof -
  obtain e where e: "map_of (regClients r) cid = Some e" using assms(2) by (auto simp: set_IDs)
  have t: "\<not> t < now - ttl" using assms(3) by simp
  have "registry_ok (Touch t cid r)" "registry_ok (SetStatus t cid st ph r)"
    by (intro ok_intros assms(1))+
  note prune = this [THEN map_of_Prune]
  show ?thesis
    by (simp add: set_IDs domIff prune map_of_Touch map_of_SetStatus e t Statuses_eq)
qed

theorem heard_client_survives_Prune_witness:
  "''a'' \<in> set (IDs (fst (Prune 100 90 (Touch 50 ''a'' (fst (Upsert 5 ''a'' ''n2'' ''/p'' NewRegistry))))))"
proof -
  let ?r = "fst (Upsert 5 ''a'' ''n2'' ''/p'' NewRegistry)"
  have ok: "registry_ok ?r" by (intro ok_intros)
  have m: "''a'' \<in> set (IDs ?r)" by (simp add: set_IDs map_of_Upsert)
  show ?thesis using heard_client_survives_Prune [OF ok m, of 100 50 90] by simp
qed

text \<open>
  The connection span is the distance between the first and the last connection time that is
  set, 0 when none is, whatever order the map is traversed in.
\<close>

theorem ConnectionSpan_is_range:
  "ConnectionSpan r =
    (if conn_times (regClients r) = {} then 0
     else Max (conn_times (regClients r)) - Min (conn_times (regClients r)))"
proof (cases "conn_times (regClients r) = {}")
  case False
  let ?T = "conn_times (regClients r)"
  have "Min ?T \<noteq> zero_time" "Max ?T \<noteq> zero_time"
    using Min_in [OF finite_conn_times False] Max_in [OF finite_conn_times False]
    by (metis zero_notin_conn_times)+
  moreover have "Min ?T \<le> Max ?T"
    by (rule Max_ge [OF finite_conn_times Min_in [OF finite_conn_times False]])
  then have "Max ?T = Min ?T" if "\<not> Min ?T < Max ?T" using that by (simp only: not_less order_antisym)
  ultimately show ?thesis using False by (simp add: ConnectionSpan_def span_fold Let_def)
qed (simp add: ConnectionSpan_def span_fold)

end
