(* ===== verification/Metrics.thy ===== *)
theory Metrics
  imports Messages
begin

text \<open>
  The metrics store (\<^verbatim>\<open>internal/controller/metrics.go\<close>): samples of the clients are spread over the
  seconds of their report window, collected in open per-second buckets, and moved into a history
  that the Web UI draws. Each method runs under the store's lock, so it is one function on the
  state; the clock is the argument \<open>now\<close> (one reading per critical section). The buffered channel
  is the list \<open>mIn\<close>. The lemmas say that no operation is lost or counted twice, and when the
  history stays in time order.
\<close>

section \<open>State\<close>

record bucket =
  bTs :: time
  bReadOps :: float64
  bWriteOps :: float64
  bCreateOps :: float64
  bDeleteOps :: float64
  bReadBytes :: float64
  bWriteBytes :: float64

record MetricsStore =
  mRecording :: bool
  mHistory :: "AggregatedSample list"
  mBuckets :: "(int \<times> bucket) list"
  mLatencies :: LatencySet
  mTotals :: RunTotals
  mIn :: "MetricSample list"

definition sampleQueue :: nat where [go_eval]: "sampleQueue = 16384"

definition NewMetricsStore :: MetricsStore where [go_eval]:
  "NewMetricsStore =
    \<lparr>mRecording = False, mHistory = [], mBuckets = [], mLatencies = NewLatencySet,
     mTotals = zero_RunTotals, mIn = []\<rparr>"

section \<open>Crediting one second\<close>

text \<open>The increments that \<open>creditSecond\<close> receives for one second.\<close>

record credit =
  crReadOps :: float64
  crWriteOps :: float64
  crCreateOps :: float64
  crDeleteOps :: float64
  crReadBytes :: float64
  crWriteBytes :: float64

definition bucket_add :: "bucket \<Rightarrow> credit \<Rightarrow> bucket" where [go_eval]:
  "bucket_add b c =
    b\<lparr>bReadOps := bReadOps b + crReadOps c, bWriteOps := bWriteOps b + crWriteOps c,
      bCreateOps := bCreateOps b + crCreateOps c, bDeleteOps := bDeleteOps b + crDeleteOps c,
      bReadBytes := bReadBytes b + crReadBytes c, bWriteBytes := bWriteBytes b + crWriteBytes c\<rparr>"

definition patch_sample :: "AggregatedSample \<Rightarrow> credit \<Rightarrow> AggregatedSample" where [go_eval]:
  "patch_sample h c =
    h\<lparr>asReadIOPS := asReadIOPS h + crReadOps c,
      asWriteIOPS := asWriteIOPS h + (crWriteOps c + crCreateOps c),
      asCreateIOPS := asCreateIOPS h + crCreateOps c,
      asDeleteIOPS := asDeleteIOPS h + crDeleteOps c,
      asReadBps := asReadBps h + crReadBytes c,
      asWriteBps := asWriteBps h + crWriteBytes c\<rparr>"

definition empty_bucket :: "int \<Rightarrow> bucket" where [go_eval]:
  "empty_bucket sec =
    \<lparr>bTs = unix_time sec, bReadOps = 0, bWriteOps = 0, bCreateOps = 0, bDeleteOps = 0,
     bReadBytes = 0, bWriteBytes = 0\<rparr>"

definition new_bucket :: "int \<Rightarrow> credit \<Rightarrow> bucket" where [go_eval]:
  "new_bucket sec c =
    \<lparr>bTs = unix_time sec, bReadOps = crReadOps c, bWriteOps = crWriteOps c,
     bCreateOps = crCreateOps c, bDeleteOps = crDeleteOps c, bReadBytes = crReadBytes c,
     bWriteBytes = crWriteBytes c\<rparr>"

text \<open>The second a history point belongs to.\<close>

definition sample_sec :: "AggregatedSample \<Rightarrow> int" where [go_eval]:
  "sample_sec h = unix_sec (asTimestamp h)"

text \<open>
  The backward search through the history, on the reversed list: skip later points, patch the
  point of this second, give up (\<open>None\<close>) at the first earlier one or at the end.
\<close>

fun patch_rev :: "int \<Rightarrow> credit \<Rightarrow> AggregatedSample list \<Rightarrow> AggregatedSample list option" where
  "patch_rev sec c [] = None"
| "patch_rev sec c (h # hs) =
    (if sample_sec h > sec then map_option ((#) h) (patch_rev sec c hs)
     else if sample_sec h = sec then Some (patch_sample h c # hs)
     else None)"

definition patch_history :: "int \<Rightarrow> credit \<Rightarrow> AggregatedSample list \<Rightarrow> AggregatedSample list option"
  where [go_eval]:
  "patch_history sec c hs = map_option rev (patch_rev sec c (rev hs))"

definition creditSecond :: "int \<Rightarrow> credit \<Rightarrow> MetricsStore \<Rightarrow> MetricsStore" where [go_eval]:
  "creditSecond sec c m =
    (case map_of (mBuckets m) sec of
       Some b \<Rightarrow> m\<lparr>mBuckets := AList.update sec (bucket_add b c) (mBuckets m)\<rparr>
     | None \<Rightarrow>
         (case patch_history sec c (mHistory m) of
            Some h \<Rightarrow> m\<lparr>mHistory := h\<rparr>
          | None \<Rightarrow> m\<lparr>mBuckets := AList.update sec (new_bucket sec c) (mBuckets m)\<rparr>))"

section \<open>Flushing, filling and trimming\<close>

definition bucket_sample :: "bucket \<Rightarrow> AggregatedSample" where [go_eval]:
  "bucket_sample b =
    \<lparr>asTimestamp = bTs b, asReadIOPS = bReadOps b, asWriteIOPS = bWriteOps b + bCreateOps b,
     asReadBps = bReadBytes b, asWriteBps = bWriteBytes b, asCreateIOPS = bCreateOps b,
     asDeleteIOPS = bDeleteOps b\<rparr>"

definition flushClosed :: "int \<Rightarrow> MetricsStore \<Rightarrow> MetricsStore" where [go_eval]:
  "flushClosed currentSec m =
    (let due = filter (\<lambda>kb. fst kb < currentSec) (mBuckets m)
     in if due = [] then m
        else m\<lparr>mHistory := mHistory m @ map (\<lambda>kb. bucket_sample (snd kb)) (sort_key fst due),
               mBuckets := filter (\<lambda>kb. \<not> fst kb < currentSec) (mBuckets m)\<rparr>)"

definition ensure_step :: "(int \<times> bucket) list \<Rightarrow> int \<Rightarrow> (int \<times> bucket) list" where [go_eval]:
  "ensure_step bs sec =
    (case map_of bs sec of Some b \<Rightarrow> bs | None \<Rightarrow> AList.update sec (empty_bucket sec) bs)"

definition ensureSecondsThrough :: "int \<Rightarrow> MetricsStore \<Rightarrow> MetricsStore" where [go_eval]:
  "ensureSecondsThrough now m =
    (let start = (if mHistory m \<noteq> [] then sample_sec (last (mHistory m)) + 1 else now)
     in if start > now then m
        else let start = (if now - start > 120 then now - 120 else start)
             in m\<lparr>mBuckets := foldl ensure_step (mBuckets m) [start..now]\<rparr>)"

definition trim :: "time \<Rightarrow> MetricsStore \<Rightarrow> MetricsStore" where [go_eval]:
  "trim now m =
    (let cutoff = now - HistoryRetention
     in m\<lparr>mHistory := dropWhile (\<lambda>h. asTimestamp h < cutoff) (mHistory m)\<rparr>)"

section \<open>The methods\<close>

definition report_windows :: "float64 \<Rightarrow> int" where [go_eval]:
  "report_windows interval =
    (let scale = (if interval < 1 then 1 else interval);
         windows = math_Round scale;
         windows = (if windows < 1 then 1 else windows)
     in if windows > 120 then 120 else windows)"

definition sample_second :: "time \<Rightarrow> MetricSample \<Rightarrow> int" where [go_eval]:
  "sample_second now s = (let sec = unix_sec (msTimestamp s) in if sec \<le> 0 then unix_sec now else sec)"

definition sample_credit :: "MetricSample \<Rightarrow> int \<Rightarrow> credit" where [go_eval]:
  "sample_credit s windows =
    (let d = of_int windows
     in \<lparr>crReadOps = of_int (sint (msReadOps s)) / d,
         crWriteOps = of_int (sint (msWriteOps s)) / d,
         crCreateOps = of_int (sint (msCreateOps s)) / d,
         crDeleteOps = of_int (sint (msDeleteOps s)) / d,
         crReadBytes = of_int (sint (msReadBytes s)) / d,
         crWriteBytes = of_int (sint (msWriteBytes s)) / d\<rparr>)"

definition add_totals :: "RunTotals \<Rightarrow> MetricSample \<Rightarrow> RunTotals" where [go_eval]:
  "add_totals t s =
    \<lparr>rtCreated = rtCreated t + msCreateOps s, rtDeleted = rtDeleted t + msDeleteOps s,
     rtReadBytes = rtReadBytes t + msReadBytes s, rtWriteBytes = rtWriteBytes t + msWriteBytes s,
     rtGitFiles = rtGitFiles t + msGitFiles s, rtUntarFiles = rtUntarFiles t + msUntarFiles s\<rparr>"

text \<open>The loop over the window, from the sample's second backwards.\<close>

definition credit_window :: "int \<Rightarrow> int \<Rightarrow> credit \<Rightarrow> MetricsStore \<Rightarrow> MetricsStore" where [go_eval]:
  "credit_window sec windows c m = foldl (\<lambda>m i. creditSecond (sec - i) c m) m [0..windows - 1]"

definition apply_sample :: "time \<Rightarrow> MetricSample \<Rightarrow> MetricsStore \<Rightarrow> MetricsStore" where [go_eval]:
  "apply_sample now s m =
    (if \<not> mRecording m then m
     else let windows = report_windows (msIntervalSec s);
              sec = sample_second now s;
              m1 = credit_window sec windows (sample_credit s windows) m;
              m2 = m1\<lparr>mTotals := add_totals (mTotals m1) s,
                      mLatencies := MergeSet (mLatencies m1) (msLatencies s)\<rparr>
          in trim now (flushClosed sec m2))"

definition Begin :: "MetricsStore \<Rightarrow> MetricsStore" where [go_eval]:
  "Begin m =
    m\<lparr>mHistory := [], mBuckets := [], mLatencies := NewLatencySet, mTotals := zero_RunTotals,
      mRecording := True\<rparr>"

definition Freeze :: "time \<Rightarrow> MetricsStore \<Rightarrow> MetricsStore" where [go_eval]:
  "Freeze now m = flushClosed (unix_sec now + 1) (m\<lparr>mRecording := False\<rparr>)"

definition Recording :: "MetricsStore \<Rightarrow> bool" where [go_eval]:
  "Recording m = mRecording m"

definition Add_sample :: "MetricSample \<Rightarrow> MetricsStore \<Rightarrow> MetricsStore" where [go_eval]:
  "Add_sample s m = (if length (mIn m) < sampleQueue then m\<lparr>mIn := mIn m @ [s]\<rparr> else m)"

definition History :: "time \<Rightarrow> MetricsStore \<Rightarrow> AggregatedSample list" where [go_eval]:
  "History now m =
    mHistory m @
    (if mRecording m
     then (case map_of (mBuckets m) (unix_sec now) of None \<Rightarrow> [] | Some b \<Rightarrow> [bucket_sample b])
     else [])"

definition Latencies :: "MetricsStore \<Rightarrow> LatencySet" where [go_eval]:
  "Latencies m = CloneSet (mLatencies m)"

definition Totals :: "MetricsStore \<Rightarrow> RunTotals" where [go_eval]:
  "Totals m = mTotals m"

text \<open>The two turns of the loop goroutine: a sample from the channel, a tick of the flush ticker.\<close>

definition loop_receive :: "time \<Rightarrow> MetricsStore \<Rightarrow> MetricsStore" where [go_eval]:
  "loop_receive now m =
    (case mIn m of [] \<Rightarrow> m | s # rest \<Rightarrow> apply_sample now s (m\<lparr>mIn := rest\<rparr>))"

definition loop_tick :: "time \<Rightarrow> MetricsStore \<Rightarrow> MetricsStore" where [go_eval]:
  "loop_tick now m =
    (if mRecording m
     then trim now (flushClosed (unix_sec now) (ensureSecondsThrough (unix_sec now) m))
     else m)"

section \<open>The buckets' invariant\<close>

text \<open>Keys are distinct and a bucket carries the time of the second it is stored under.\<close>

definition stamped :: "(int \<times> bucket) list \<Rightarrow> bool" where
  "stamped bs \<longleftrightarrow> distinct (map fst bs) \<and> (\<forall>(k, b) \<in> set bs. bTs b = unix_time k)"

definition buckets_ok :: "MetricsStore \<Rightarrow> bool" where
  "buckets_ok m \<longleftrightarrow> stamped (mBuckets m)"

lemma bTs_simps [simp]:
  "bTs (bucket_add b c) = bTs b" "bTs (new_bucket sec c) = unix_time sec"
  "bTs (empty_bucket sec) = unix_time sec" "asTimestamp (bucket_sample b) = bTs b"
  "asTimestamp (patch_sample h c) = asTimestamp h"
  by (simp_all add: bucket_add_def new_bucket_def empty_bucket_def bucket_sample_def patch_sample_def)

lemma sample_sec_simps [simp]:
  "sample_sec (patch_sample h c) = sample_sec h"
  "sample_sec (bucket_sample b) = unix_sec (bTs b)"
  by (simp_all add: sample_sec_def)

lemma stamped_distinct: "stamped bs \<Longrightarrow> distinct (map fst bs)"
  by (simp add: stamped_def)

lemma stampedD: "stamped bs \<Longrightarrow> kb \<in> set bs \<Longrightarrow> bTs (snd kb) = unix_time (fst kb)"
  by (auto simp: stamped_def)

lemma stamped_update: "stamped bs \<Longrightarrow> bTs b = unix_time k \<Longrightarrow> stamped (AList.update k b bs)"
  using AList.distinct_update [of bs k b] by (induction bs) (auto simp: stamped_def)

lemma stamped_lookup: "stamped bs \<Longrightarrow> map_of bs k = Some b \<Longrightarrow> bTs b = unix_time k"
  by (auto simp: stamped_def dest!: map_of_SomeD)

lemma stamped_filter: "stamped bs \<Longrightarrow> stamped (filter Q bs)"
  by (auto simp: stamped_def distinct_map_filter)

lemma stamped_ensure_step: "stamped bs \<Longrightarrow> stamped (ensure_step bs sec)"
  by (auto simp: ensure_step_def intro: stamped_update split: option.split)

lemma stamped_ensure: "stamped bs \<Longrightarrow> stamped (foldl ensure_step bs secs)"
  by (induction secs arbitrary: bs) (auto intro: stamped_ensure_step)

lemma buckets_ok_credit [ok_intros]: "buckets_ok m \<Longrightarrow> buckets_ok (creditSecond sec c m)"
  by (auto simp: buckets_ok_def creditSecond_def intro!: stamped_update dest: stamped_lookup
      split: option.split)

lemma buckets_ok_credits: "buckets_ok m \<Longrightarrow> buckets_ok (foldl (\<lambda>m i. creditSecond (sec - i) c m) m is)"
  by (induction "is" arbitrary: m) (auto intro: ok_intros)

lemma buckets_ok_window [ok_intros]: "buckets_ok m \<Longrightarrow> buckets_ok (credit_window sec n c m)"
  by (simp add: credit_window_def buckets_ok_credits)

lemma buckets_ok_flush [ok_intros]: "buckets_ok m \<Longrightarrow> buckets_ok (flushClosed sec m)"
  by (simp add: buckets_ok_def flushClosed_def Let_def stamped_filter)

lemma buckets_ok_ensure [ok_intros]: "buckets_ok m \<Longrightarrow> buckets_ok (ensureSecondsThrough now m)"
  by (simp add: buckets_ok_def ensureSecondsThrough_def Let_def stamped_ensure)

lemma buckets_ok_trim [ok_intros]: "buckets_ok m \<Longrightarrow> buckets_ok (trim now m)"
  by (simp add: buckets_ok_def trim_def Let_def)

lemma buckets_ok_frame [simp]:
  "buckets_ok (m\<lparr>mRecording := r\<rparr>) = buckets_ok m" "buckets_ok (m\<lparr>mIn := q\<rparr>) = buckets_ok m"
  "buckets_ok (m\<lparr>mTotals := t, mLatencies := l\<rparr>) = buckets_ok m"
  by (simp_all add: buckets_ok_def)

lemma buckets_ok_methods [ok_intros]:
  "buckets_ok NewMetricsStore" "buckets_ok (Begin m)"
  "buckets_ok m \<Longrightarrow> buckets_ok (apply_sample now s m)" "buckets_ok m \<Longrightarrow> buckets_ok (Freeze now m)"
  "buckets_ok m \<Longrightarrow> buckets_ok (Add_sample s m)" "buckets_ok m \<Longrightarrow> buckets_ok (loop_tick now m)"
  by (simp_all add: apply_sample_def Let_def Freeze_def Add_sample_def loop_tick_def ok_intros)
     (simp_all add: buckets_ok_def NewMetricsStore_def Begin_def stamped_def)

section \<open>What the store holds for a set of seconds\<close>

text \<open>
  The six quantities of the charts are all measured alike: \<open>fb\<close> reads an open bucket, \<open>fh\<close> a
  history point, \<open>fc\<close> the increments of a credit. \<open>mass\<close> adds up what the store holds for the
  seconds that satisfy \<open>P\<close>.
\<close>

definition mass :: "(bucket \<Rightarrow> rat) \<Rightarrow> (AggregatedSample \<Rightarrow> rat) \<Rightarrow> (int \<Rightarrow> bool) \<Rightarrow> MetricsStore \<Rightarrow> rat"
  where
  "mass fb fh P m =
    (\<Sum>kb\<leftarrow>mBuckets m. if P (fst kb) then fb (snd kb) else 0) +
    (\<Sum>h\<leftarrow>mHistory m. if P (sample_sec h) then fh h else 0)"

locale credit_measure =
  fixes fb :: "bucket \<Rightarrow> rat" and fh :: "AggregatedSample \<Rightarrow> rat" and fc :: "credit \<Rightarrow> rat"
  assumes fb_add: "fb (bucket_add b c) = fb b + fc c"
    and fb_new: "fb (new_bucket k c) = fc c"
    and fb_empty: "fb (empty_bucket k) = 0"
    and fh_patch: "fh (patch_sample h c) = fh h + fc c"
    and fh_sample: "fh (bucket_sample b) = fb b"
begin

lemma mass_patch_rev:
  "patch_rev sec c hs = Some hs' \<Longrightarrow>
   (\<Sum>h\<leftarrow>hs'. if P (sample_sec h) then fh h else 0) =
   (\<Sum>h\<leftarrow>hs. if P (sample_sec h) then fh h else 0) + (if P sec then fc c else 0)"
  by (induction hs arbitrary: hs') (auto simp: fh_patch split: if_splits)

lemma mass_patch_history:
  "patch_history sec c hs = Some hs' \<Longrightarrow>
   (\<Sum>h\<leftarrow>hs'. if P (sample_sec h) then fh h else 0) =
   (\<Sum>h\<leftarrow>hs. if P (sample_sec h) then fh h else 0) + (if P sec then fc c else 0)"
  using mass_patch_rev [of sec c "rev hs" _ P] by (auto simp: patch_history_def rev_map [symmetric])

lemma mass_credit: "mass fb fh P (creditSecond sec c m) = mass fb fh P m + (if P sec then fc c else 0)"
proof (cases "map_of (mBuckets m) sec")
  case (Some b)
  then show ?thesis
    by (simp add: mass_def creditSecond_def sum_list_alist_update fb_add)
next
  case b: None
  show ?thesis
  proof (cases "patch_history sec c (mHistory m)")
    case None
    with b show ?thesis by (simp add: mass_def creditSecond_def sum_list_alist_update fb_new)
  next
    case (Some hs)
    with b show ?thesis
      by (simp add: mass_def creditSecond_def mass_patch_history [OF Some, of P])
  qed
qed

lemma mass_credits:
  "mass fb fh P (foldl (\<lambda>m i. creditSecond (sec - i) c m) m is) =
   mass fb fh P m + of_nat (length (filter (\<lambda>i. P (sec - i)) is)) * fc c"
  by (induction "is" arbitrary: m) (auto simp: mass_credit algebra_simps)

lemma mass_flush:
  assumes "buckets_ok m"
  shows "mass fb fh P (flushClosed sec m) = mass fb fh P m"
proof -
  let ?due = "filter (\<lambda>kb. fst kb < sec) (mBuckets m)"
  let ?g = "\<lambda>kb. if P (fst kb) then fb (snd kb) else 0"
  have "(\<Sum>h\<leftarrow>map (\<lambda>kb. bucket_sample (snd kb)) (sort_key fst ?due). if P (sample_sec h) then fh h else 0) =
      (\<Sum>kb\<leftarrow>sort_key fst ?due. ?g kb)"
    using stampedD [of "mBuckets m"] assms
    by (auto simp: buckets_ok_def fh_sample comp_def intro!: arg_cong [where f = sum_list] map_cong)
  then have moved:
    "(\<Sum>h\<leftarrow>map (\<lambda>kb. bucket_sample (snd kb)) (sort_key fst ?due). if P (sample_sec h) then fh h else 0) =
      (\<Sum>kb\<leftarrow>?due. ?g kb)"
    by (simp only: sum_list_sort_key)
  show ?thesis
    using sum_list_partition [of ?g "\<lambda>kb. fst kb < sec" "mBuckets m"] moved
    by (cases "?due = []") (simp_all add: mass_def flushClosed_def Let_def del: map_map)
qed

lemma mass_trim:
  "mass fb fh P m = mass fb fh P (trim now m) +
     (\<Sum>h\<leftarrow>takeWhile (\<lambda>h. asTimestamp h < now - HistoryRetention) (mHistory m).
        if P (sample_sec h) then fh h else 0)"
proof -
  let ?Q = "\<lambda>h. asTimestamp h < now - HistoryRetention"
  have "(\<Sum>h\<leftarrow>takeWhile ?Q (mHistory m). if P (sample_sec h) then fh h else 0) +
      (\<Sum>h\<leftarrow>dropWhile ?Q (mHistory m). if P (sample_sec h) then fh h else 0) =
      (\<Sum>h\<leftarrow>mHistory m. if P (sample_sec h) then fh h else 0)"
    by (simp only: sum_list_append [symmetric] map_append [symmetric] takeWhile_dropWhile_id)
  then show ?thesis by (simp add: mass_def trim_def Let_def)
qed

lemma mass_ensure_step:
  "(\<Sum>kb\<leftarrow>ensure_step bs sec. if P (fst kb) then fb (snd kb) else 0) =
   (\<Sum>kb\<leftarrow>bs. if P (fst kb) then fb (snd kb) else 0)"
  by (simp add: ensure_step_def sum_list_alist_update fb_empty split: option.split)

lemma mass_frame:
  "mass fb fh P (m\<lparr>mTotals := t, mLatencies := l\<rparr>) = mass fb fh P m"
  "mass fb fh P (m\<lparr>mIn := q\<rparr>) = mass fb fh P m"
  by (simp_all add: mass_def)

lemma mass_ensure: "mass fb fh P (ensureSecondsThrough now m) = mass fb fh P m"
proof -
  have "(\<Sum>kb\<leftarrow>foldl ensure_step bs secs. if P (fst kb) then fb (snd kb) else 0) =
      (\<Sum>kb\<leftarrow>bs. if P (fst kb) then fb (snd kb) else 0)" for bs secs
    by (induction secs arbitrary: bs) (simp_all add: mass_ensure_step)
  then show ?thesis by (simp add: mass_def ensureSecondsThrough_def Let_def)
qed

lemma mass_apply:
  assumes "buckets_ok m" "mRecording m"
  shows "\<exists>d. (\<forall>h \<in> set d. asTimestamp h < now - HistoryRetention) \<and>
    mass fb fh P (apply_sample now s m) + (\<Sum>h\<leftarrow>d. if P (sample_sec h) then fh h else 0) =
    mass fb fh P m +
      of_nat (length (filter (\<lambda>i. P (sample_second now s - i)) [0..report_windows (msIntervalSec s) - 1])) *
      fc (sample_credit s (report_windows (msIntervalSec s)))"
proof -
  let ?w = "report_windows (msIntervalSec s)" and ?sec = "sample_second now s"
  define m1 where "m1 = credit_window ?sec ?w (sample_credit s ?w) m"
  define m2 where "m2 = m1\<lparr>mTotals := add_totals (mTotals m1) s,
                       mLatencies := MergeSet (mLatencies m1) (msLatencies s)\<rparr>"
  let ?old = "takeWhile (\<lambda>h. asTimestamp h < now - HistoryRetention) (mHistory (flushClosed ?sec m2))"
  have trimmed: "apply_sample now s m = trim now (flushClosed ?sec m2)"
    using assms(2) by (simp add: apply_sample_def Let_def m1_def m2_def)
  have "buckets_ok m2" using assms(1) by (simp add: m2_def m1_def ok_intros)
  then have "mass fb fh P (flushClosed ?sec m2) = mass fb fh P m1"
    by (simp add: mass_flush m2_def mass_frame)
  with mass_trim [of P "flushClosed ?sec m2" now]
  have "mass fb fh P (apply_sample now s m) + (\<Sum>h\<leftarrow>?old. if P (sample_sec h) then fh h else 0) =
      mass fb fh P m1" by (simp add: trimmed)
  moreover have "\<forall>h \<in> set ?old. asTimestamp h < now - HistoryRetention"
    by (auto dest: set_takeWhileD)
  ultimately show ?thesis
    unfolding m1_def credit_window_def mass_credits by blast
qed

lemma mass_tick:
  assumes "buckets_ok m"
  shows "\<exists>d. (\<forall>h \<in> set d. asTimestamp h < now - HistoryRetention) \<and>
    mass fb fh P (loop_tick now m) + (\<Sum>h\<leftarrow>d. if P (sample_sec h) then fh h else 0) = mass fb fh P m"
proof (cases "mRecording m")
  case True
  let ?m = "flushClosed (unix_sec now) (ensureSecondsThrough (unix_sec now) m)"
  let ?old = "takeWhile (\<lambda>h. asTimestamp h < now - HistoryRetention) (mHistory ?m)"
  have "mass fb fh P ?m = mass fb fh P m"
    by (simp add: mass_flush mass_ensure ok_intros assms)
  with mass_trim [of P ?m now] True
  have "mass fb fh P (loop_tick now m) + (\<Sum>h\<leftarrow>?old. if P (sample_sec h) then fh h else 0) =
      mass fb fh P m" by (simp add: loop_tick_def)
  moreover have "\<forall>h \<in> set ?old. asTimestamp h < now - HistoryRetention"
    by (auto dest: set_takeWhileD)
  ultimately show ?thesis by blast
next
  case False
  then show ?thesis by (intro exI [of _ "[]"]) (simp add: loop_tick_def)
qed

end

text \<open>The six quantities of the charts.\<close>

datatype quantity = QCreate | QDelete | QRead | QWrite | QReadBytes | QWriteBytes

fun q_bucket :: "quantity \<Rightarrow> bucket \<Rightarrow> rat" where
  "q_bucket QCreate b = bCreateOps b"
| "q_bucket QDelete b = bDeleteOps b"
| "q_bucket QRead b = bReadOps b"
| "q_bucket QWrite b = bWriteOps b + bCreateOps b"
| "q_bucket QReadBytes b = bReadBytes b"
| "q_bucket QWriteBytes b = bWriteBytes b"

fun q_sample :: "quantity \<Rightarrow> AggregatedSample \<Rightarrow> rat" where
  "q_sample QCreate h = asCreateIOPS h"
| "q_sample QDelete h = asDeleteIOPS h"
| "q_sample QRead h = asReadIOPS h"
| "q_sample QWrite h = asWriteIOPS h"
| "q_sample QReadBytes h = asReadBps h"
| "q_sample QWriteBytes h = asWriteBps h"

text \<open>What a client reported.\<close>

fun reported :: "quantity \<Rightarrow> MetricSample \<Rightarrow> rat" where
  "reported QCreate s = of_int (sint (msCreateOps s))"
| "reported QDelete s = of_int (sint (msDeleteOps s))"
| "reported QRead s = of_int (sint (msReadOps s))"
| "reported QWrite s = of_int (sint (msWriteOps s)) + of_int (sint (msCreateOps s))"
| "reported QReadBytes s = of_int (sint (msReadBytes s))"
| "reported QWriteBytes s = of_int (sint (msWriteBytes s))"

fun q_credit :: "quantity \<Rightarrow> credit \<Rightarrow> rat" where
  "q_credit QCreate c = crCreateOps c"
| "q_credit QDelete c = crDeleteOps c"
| "q_credit QRead c = crReadOps c"
| "q_credit QWrite c = crWriteOps c + crCreateOps c"
| "q_credit QReadBytes c = crReadBytes c"
| "q_credit QWriteBytes c = crWriteBytes c"

lemma q_credit_sample: "q_credit q (sample_credit s w) = reported q s / of_int w"
  by (cases q) (simp_all add: sample_credit_def Let_def add_divide_distrib)

interpretation quantity: credit_measure "q_bucket q" "q_sample q" "q_credit q" for q
  by (unfold_locales; cases q) (simp_all add: go_eval)

definition held :: "quantity \<Rightarrow> (int \<Rightarrow> bool) \<Rightarrow> MetricsStore \<Rightarrow> rat" where
  "held q = mass (q_bucket q) (q_sample q)"

lemma report_windows_bounds: "1 \<le> report_windows x" "report_windows x \<le> 120"
  by (simp_all add: report_windows_def Let_def)

section \<open>A run of reports and ticks\<close>

datatype metrics_event = Report time MetricSample | Tick time

fun event_time :: "metrics_event \<Rightarrow> time" where
  "event_time (Report now s) = now"
| "event_time (Tick now) = now"

fun metrics_step :: "MetricsStore \<Rightarrow> metrics_event \<Rightarrow> MetricsStore" where
  "metrics_step m (Report now s) = apply_sample now s m"
| "metrics_step m (Tick now) = loop_tick now m"

fun reports :: "metrics_event list \<Rightarrow> MetricSample list" where
  "reports [] = []"
| "reports (Report now s # es) = s # reports es"
| "reports (Tick now # es) = reports es"

lemma reports_append [simp]: "reports (xs @ ys) = reports xs @ reports ys"
  by (induction xs rule: reports.induct) auto

lemma mRecording_credit [simp]: "mRecording (creditSecond sec c m) = mRecording m"
  and mTotals_credit [simp]: "mTotals (creditSecond sec c m) = mTotals m"
  and mLatencies_credit [simp]: "mLatencies (creditSecond sec c m) = mLatencies m"
  by (simp_all add: creditSecond_def split: option.split)

lemma credit_window_frame [simp]:
  "mRecording (credit_window sec n c m) = mRecording m"
  "mTotals (credit_window sec n c m) = mTotals m"
  "mLatencies (credit_window sec n c m) = mLatencies m"
proof -
  have "mRecording (foldl (\<lambda>m i. creditSecond (sec - i) c m) m is) = mRecording m \<and>
      mTotals (foldl (\<lambda>m i. creditSecond (sec - i) c m) m is) = mTotals m \<and>
      mLatencies (foldl (\<lambda>m i. creditSecond (sec - i) c m) m is) = mLatencies m" for "is"
    by (induction "is" arbitrary: m) auto
  then show "mRecording (credit_window sec n c m) = mRecording m"
    "mTotals (credit_window sec n c m) = mTotals m"
    "mLatencies (credit_window sec n c m) = mLatencies m"
    by (simp_all add: credit_window_def)
qed

lemma flush_trim_frame [simp]:
  "mRecording (flushClosed sec m) = mRecording m" "mTotals (flushClosed sec m) = mTotals m"
  "mLatencies (flushClosed sec m) = mLatencies m" "mRecording (trim now m) = mRecording m"
  "mTotals (trim now m) = mTotals m" "mLatencies (trim now m) = mLatencies m"
  "mRecording (ensureSecondsThrough k m) = mRecording m"
  "mTotals (ensureSecondsThrough k m) = mTotals m"
  "mLatencies (ensureSecondsThrough k m) = mLatencies m"
  by (simp_all add: flushClosed_def trim_def ensureSecondsThrough_def Let_def)

lemma metrics_step_frame [simp]:
  "mRecording (metrics_step m e) = mRecording m"
  "mRecording m \<Longrightarrow> mTotals (metrics_step m e) = foldl add_totals (mTotals m) (reports [e])"
  "mRecording m \<Longrightarrow> mLatencies (metrics_step m e) =
     foldl MergeSet (mLatencies m) (map msLatencies (reports [e]))"
  by (cases e; simp add: apply_sample_def loop_tick_def Let_def)+

lemma buckets_ok_step [ok_intros]: "buckets_ok m \<Longrightarrow> buckets_ok (metrics_step m e)"
  by (cases e) (auto intro: ok_intros)

lemma credit_share:
  "of_nat (length [0..report_windows x - 1]) * (v / of_int (report_windows x)) = (v::rat)"
  using report_windows_bounds(1) [of x] by simp

lemma filter_all: "filter (\<lambda>_. True) xs = xs"
  by simp

lemma held_apply:
  assumes "buckets_ok m" "mRecording m"
  shows "\<exists>d. (\<forall>h \<in> set d. asTimestamp h < now - HistoryRetention) \<and>
    held q P (apply_sample now s m) + (\<Sum>h\<leftarrow>d. if P (sample_sec h) then q_sample q h else 0) =
    held q P m +
      of_nat (length (filter (\<lambda>i. P (sample_second now s - i)) [0..report_windows (msIntervalSec s) - 1])) *
      (reported q s / of_int (report_windows (msIntervalSec s)))"
  unfolding held_def using quantity.mass_apply [OF assms, of now q P s]
  by (simp only: q_credit_sample)

lemma held_step:
  assumes "buckets_ok m" "mRecording m"
  shows "\<exists>d. (\<forall>h \<in> set d. asTimestamp h < event_time e - HistoryRetention) \<and>
    held q (\<lambda>_. True) (metrics_step m e) + (\<Sum>h\<leftarrow>d. q_sample q h) =
    held q (\<lambda>_. True) m + (\<Sum>s\<leftarrow>reports [e]. reported q s)"
proof (cases e)
  case (Report now s)
  obtain d where d: "\<forall>h \<in> set d. asTimestamp h < now - HistoryRetention"
    "held q (\<lambda>_. True) (apply_sample now s m) + (\<Sum>h\<leftarrow>d. q_sample q h) =
     held q (\<lambda>_. True) m + reported q s"
    using held_apply [OF assms, of now q "\<lambda>_. True" s]
    by (simp only: filter_all credit_share if_True) (elim exE conjE)
  from d(1) d(2) show ?thesis unfolding Report by (intro exI [of _ d]) simp
next
  case (Tick now)
  from quantity.mass_tick [OF assms(1), of now q "\<lambda>_. True"] show ?thesis
    by (simp add: Tick held_def)
qed

lemma held_run:
  assumes "buckets_ok m" "mRecording m"
  shows "\<exists>d. (\<forall>h \<in> set d. \<exists>e \<in> set es. asTimestamp h < event_time e - HistoryRetention) \<and>
    held q (\<lambda>_. True) (foldl metrics_step m es) + (\<Sum>h\<leftarrow>d. q_sample q h) =
    held q (\<lambda>_. True) m + (\<Sum>s\<leftarrow>reports es. reported q s)"
  using assms
proof (induction es arbitrary: m)
  case Nil
  show ?case by (intro exI [of _ "[]"]) simp
next
  case (Cons e es)
  obtain d1 where d1: "\<forall>h \<in> set d1. asTimestamp h < event_time e - HistoryRetention"
    "held q (\<lambda>_. True) (metrics_step m e) + (\<Sum>h\<leftarrow>d1. q_sample q h) =
     held q (\<lambda>_. True) m + (\<Sum>s\<leftarrow>reports [e]. reported q s)"
    using held_step [OF Cons.prems] by blast
  obtain d2 where d2: "\<forall>h \<in> set d2. \<exists>e \<in> set es. asTimestamp h < event_time e - HistoryRetention"
    "held q (\<lambda>_. True) (foldl metrics_step (metrics_step m e) es) + (\<Sum>h\<leftarrow>d2. q_sample q h) =
     held q (\<lambda>_. True) (metrics_step m e) + (\<Sum>s\<leftarrow>reports es. reported q s)"
    using Cons.IH [of "metrics_step m e"] Cons.prems by (auto simp: ok_intros)
  have "reports (e # es) = reports [e] @ reports es" by (cases e) simp_all
  with d1 d2 show ?case by (intro exI [of _ "d1 @ d2"]) auto
qed

lemma totals_run:
  "mRecording m \<Longrightarrow> mTotals (foldl metrics_step m es) = foldl add_totals (mTotals m) (reports es) \<and>
   mLatencies (foldl metrics_step m es) = foldl MergeSet (mLatencies m) (map msLatencies (reports es))"
proof (induction es arbitrary: m)
  case (Cons e es)
  have "reports (e # es) = reports [e] @ reports es" by (cases e) simp_all
  with Cons show ?case by simp
qed simp

section \<open>The time axis of the history\<close>

abbreviation history_secs :: "MetricsStore \<Rightarrow> int list" where
  "history_secs m \<equiv> map sample_sec (mHistory m)"

abbreviation bucket_secs :: "MetricsStore \<Rightarrow> int list" where
  "bucket_secs m \<equiv> map fst (mBuckets m)"

text \<open>Every point of the history stands at a whole second.\<close>

definition on_seconds :: "MetricsStore \<Rightarrow> bool" where
  "on_seconds m \<longleftrightarrow> (\<forall>h \<in> set (mHistory m). asTimestamp h = unix_time (sample_sec h))"

text \<open>One point per second, in order of time, and the open buckets come after them.\<close>

definition timeline :: "MetricsStore \<Rightarrow> bool" where
  "timeline m \<longleftrightarrow> buckets_ok m \<and> on_seconds m \<and> sorted_wrt (<) (history_secs m) \<and>
    (\<forall>k \<in> set (bucket_secs m). \<forall>h \<in> set (history_secs m). h < k)"

lemma timelineD:
  "timeline m \<Longrightarrow> buckets_ok m" "timeline m \<Longrightarrow> on_seconds m"
  "timeline m \<Longrightarrow> sorted_wrt (<) (history_secs m)"
  "timeline m \<Longrightarrow> k \<in> set (bucket_secs m) \<Longrightarrow> h \<in> set (history_secs m) \<Longrightarrow> h < k"
  by (auto simp: timeline_def)

lemma timeline_start [ok_intros]: "timeline (Begin m)" "timeline NewMetricsStore"
  using buckets_ok_methods(1,2) by (auto simp: timeline_def on_seconds_def Begin_def NewMetricsStore_def)

lemma timeline_frame [simp]:
  "timeline (m\<lparr>mRecording := r\<rparr>) = timeline m" "timeline (m\<lparr>mIn := q\<rparr>) = timeline m"
  "timeline (m\<lparr>mTotals := t, mLatencies := l\<rparr>) = timeline m"
  by (simp_all add: timeline_def on_seconds_def)

text \<open>Trimming a history in time order keeps exactly the points within the retention.\<close>

lemma dropWhile_sorted:
  fixes f :: "'x \<Rightarrow> 'n::linorder"
  shows "sorted_wrt (\<lambda>x y. f x < f y) xs \<Longrightarrow> dropWhile (\<lambda>x. f x < c) xs = filter (\<lambda>x. c \<le> f x) xs"
proof (induction xs)
  case (Cons x xs)
  show ?case
  proof (cases "f x < c")
    case False
    with Cons.prems have "\<forall>y \<in> set xs. c \<le> f y" by fastforce
    with False show ?thesis by (simp add: not_less)
  qed (use Cons in auto)
qed simp

lemma timeline_stamps: "timeline m \<Longrightarrow> sorted_wrt (\<lambda>g h. asTimestamp g < asTimestamp h) (mHistory m)"
  by (rule sorted_wrt_mono_rel [of "mHistory m" "\<lambda>g h. sample_sec g < sample_sec h"])
     (auto simp: timeline_def on_seconds_def sorted_wrt_map)

lemma trim_timeline:
  "timeline m \<Longrightarrow> mHistory (trim now m) = filter (\<lambda>h. now - HistoryRetention \<le> asTimestamp h) (mHistory m)"
  using dropWhile_sorted [OF timeline_stamps, of m "now - HistoryRetention"]
  by (simp add: trim_def Let_def)

lemma timeline_trim [ok_intros]: "timeline m \<Longrightarrow> timeline (trim now m)"
proof -
  assume "timeline m"
  then have "sorted_wrt (<) (history_secs (trim now m))"
    by (auto simp: trim_timeline timeline_def sorted_wrt_map intro: sorted_wrt_filter)
  with \<open>timeline m\<close> show ?thesis
    by (auto simp: timeline_def on_seconds_def trim_timeline ok_intros) (auto simp: trim_def Let_def)
qed

text \<open>Flushing appends the due seconds in order.\<close>

definition due_secs :: "int \<Rightarrow> MetricsStore \<Rightarrow> int list" where
  "due_secs sec m = sort (filter (\<lambda>k. k < sec) (bucket_secs m))"

lemma map_fst_sort_key: "map fst (sort_key fst xs) = sort (map fst xs)"
  by (rule sym, rule properties_for_sort) (simp_all add: mset_map)

lemma flush_secs:
  assumes "buckets_ok m"
  shows "history_secs (flushClosed sec m) = history_secs m @ due_secs sec m"
    and "bucket_secs (flushClosed sec m) = filter (\<lambda>k. \<not> k < sec) (bucket_secs m)"
proof -
  let ?due = "filter (\<lambda>kb. fst kb < sec) (mBuckets m)"
  have "map (\<lambda>kb. sample_sec (bucket_sample (snd kb))) (sort_key fst ?due) = map fst (sort_key fst ?due)"
    using stampedD [of "mBuckets m"] assms by (auto simp: buckets_ok_def)
  moreover have "due_secs sec m = map fst (sort_key fst ?due)"
    by (simp only: map_fst_sort_key due_secs_def filter_map comp_def)
  ultimately show "history_secs (flushClosed sec m) = history_secs m @ due_secs sec m"
    by (cases "?due = []") (simp_all add: flushClosed_def Let_def comp_def)
  show "bucket_secs (flushClosed sec m) = filter (\<lambda>k. \<not> k < sec) (bucket_secs m)"
    by (cases "?due = []")
      (auto simp: flushClosed_def Let_def filter_map comp_def filter_empty_conv intro!: filter_True [symmetric])
qed

lemma due_secs_sorted: "buckets_ok m \<Longrightarrow> sorted_wrt (<) (due_secs sec m)"
  by (simp add: due_secs_def sorted_distinct_strict buckets_ok_def stamped_def)

lemma set_due_secs [simp]: "set (due_secs sec m) = {k \<in> set (bucket_secs m). k < sec}"
  by (auto simp: due_secs_def)

lemma on_seconds_flush [ok_intros]: "buckets_ok m \<Longrightarrow> on_seconds m \<Longrightarrow> on_seconds (flushClosed sec m)"
  using stampedD [of "mBuckets m"] by (auto simp: on_seconds_def flushClosed_def Let_def buckets_ok_def)

lemma timeline_flush [ok_intros]:
  assumes "timeline m"
  shows "timeline (flushClosed sec m)"
proof -
  note ok = timelineD [OF assms]
  have "sorted_wrt (<) (history_secs (flushClosed sec m))"
    using ok(3,4) due_secs_sorted [OF ok(1)] by (auto simp: flush_secs ok(1) sorted_wrt_append)
  moreover have "h < k" if "k \<in> set (bucket_secs (flushClosed sec m))"
    "h \<in> set (history_secs (flushClosed sec m))" for h k
    using that ok(4) unfolding flush_secs [OF ok(1)] by auto
  ultimately show ?thesis using ok(1,2) unfolding timeline_def by (simp add: ok_intros)
qed

text \<open>Filling adds the missing seconds only.\<close>

lemma bucket_secs_ensure_step:
  "set (map fst (ensure_step bs sec)) = insert sec (set (map fst bs))"
  using dom_map_of_conv_image_fst [of bs]
  by (force simp: ensure_step_def dom_update split: option.split)

lemma bucket_secs_ensures:
  "set (map fst (foldl ensure_step bs secs)) = set secs \<union> set (map fst bs)"
proof (induction secs arbitrary: bs)
  case (Cons sec secs)
  show ?case unfolding foldl_Cons Cons.IH bucket_secs_ensure_step by auto
qed simp

definition fill_start :: "int \<Rightarrow> MetricsStore \<Rightarrow> int" where
  "fill_start now m = (if mHistory m = [] then now
    else if now - (last (history_secs m) + 1) > 120 then now - 120 else last (history_secs m) + 1)"

lemma ensure_buckets:
  "mBuckets (ensureSecondsThrough now m) = foldl ensure_step (mBuckets m) [fill_start now m..now]"
  "mHistory (ensureSecondsThrough now m) = mHistory m"
  by (auto simp: ensureSecondsThrough_def fill_start_def Let_def last_map)

lemma ensure_secs:
  "set (bucket_secs (ensureSecondsThrough now m)) = {fill_start now m..now} \<union> set (bucket_secs m)"
  "mHistory (ensureSecondsThrough now m) = mHistory m"
  unfolding ensure_buckets bucket_secs_ensures by simp_all

lemma last_ge_timeline: "timeline m \<Longrightarrow> h \<in> set (history_secs m) \<Longrightarrow> h \<le> last (history_secs m)"
proof -
  assume ok: "timeline m" and h: "h \<in> set (history_secs m)"
  let ?xs = "history_secs m"
  from h have "?xs = butlast ?xs @ [last ?xs]" by (metis append_butlast_last_id empty_iff empty_set)
  with timelineD(3) [OF ok] h show ?thesis
    by (metis (no_types) last_le_all_sorted_wrt less_imp_le set_ConsD in_set_butlast_appendI
        append_butlast_last_id empty_iff empty_set order_refl rotate1.simps(2) set_rotate1)
qed

lemma timeline_ensure [ok_intros]:
  assumes "timeline m"
  shows "timeline (ensureSecondsThrough now m)"
proof -
  note ok = timelineD [OF assms]
  have "h < fill_start now m" if "h \<in> set (history_secs m)" for h
    using last_ge_timeline [OF assms that] that by (cases "mHistory m") (auto simp: fill_start_def)
  then have "h < k" if "k \<in> set (bucket_secs (ensureSecondsThrough now m))"
    "h \<in> set (history_secs m)" for h k
    using that(1) unfolding ensure_secs using ok(4) [OF _ that(2)] \<open>\<And>h. h \<in> _ \<Longrightarrow> h < fill_start now m\<close> [OF that(2)]
    by auto
  with ok show ?thesis unfolding timeline_def
    by (simp add: ensure_secs ok_intros) (simp add: on_seconds_def ensure_secs)
qed

text \<open>
  A credit keeps the time axis unless its second lies before the last history point and has neither
  a point nor a bucket of its own.
\<close>

definition covered :: "MetricsStore \<Rightarrow> int \<Rightarrow> bool" where [go_eval]:
  "covered m sec \<longleftrightarrow> sec \<in> set (bucket_secs m) \<or> sec \<in> set (history_secs m) \<or>
    (\<forall>h \<in> set (history_secs m). h < sec)"

lemma patch_rev_secs: "patch_rev sec c hs = Some hs' \<Longrightarrow> map sample_sec hs' = map sample_sec hs"
  by (induction hs arbitrary: hs') (auto split: if_splits)

lemma patch_rev_stamps:
  "patch_rev sec c hs = Some hs' \<Longrightarrow> \<forall>h \<in> set hs. asTimestamp h = unix_time (sample_sec h) \<Longrightarrow>
   \<forall>h \<in> set hs'. asTimestamp h = unix_time (sample_sec h)"
  by (induction hs arbitrary: hs') (auto split: if_splits)

lemma patch_rev_found:
  "sorted_wrt (\<lambda>g h. sample_sec h < sample_sec g) hs \<Longrightarrow> sec \<in> set (map sample_sec hs) \<Longrightarrow>
   patch_rev sec c hs \<noteq> None"
  by (induction hs) auto

lemma creditSecond_history_secs [simp]: "history_secs (creditSecond sec c m) = history_secs m"
  using patch_rev_secs [of sec c "rev (mHistory m)"]
  by (auto simp: creditSecond_def patch_history_def rev_map [symmetric] split: option.split)

lemma on_seconds_credit [ok_intros]: "on_seconds m \<Longrightarrow> on_seconds (creditSecond sec c m)"
  using patch_rev_stamps [of sec c "rev (mHistory m)"]
  by (auto simp: on_seconds_def creditSecond_def patch_history_def split: option.split)

lemma creditSecond_bucket_secs:
  assumes "timeline m" "k \<in> set (bucket_secs (creditSecond sec c m))"
  shows "k \<in> set (bucket_secs m) \<or> k = sec \<and> sec \<notin> set (history_secs m)"
proof (cases "sec \<in> set (bucket_secs m) \<or> sec \<notin> set (history_secs m)")
  case True
  from assms(2) have "k \<in> insert sec (set (bucket_secs m))"
    by (auto simp: creditSecond_def dom_update update_keys split: option.splits)
  with True show ?thesis by auto
next
  case False
  have "patch_rev sec c (rev (mHistory m)) \<noteq> None"
    using timelineD(3) [OF assms(1)] False
    by (intro patch_rev_found) (simp_all add: sorted_wrt_rev sorted_wrt_map rev_map [symmetric])
  moreover have "map_of (mBuckets m) sec = None" using False by (simp add: map_of_eq_None_iff)
  ultimately show ?thesis using assms(2)
    by (auto simp: creditSecond_def patch_history_def)
qed

lemma timeline_credit:
  assumes "timeline m" "covered m sec"
  shows "timeline (creditSecond sec c m)"
proof -
  note ok = timelineD [OF assms(1)]
  have "h < k" if "k \<in> set (bucket_secs (creditSecond sec c m))" "h \<in> set (history_secs m)" for h k
    using creditSecond_bucket_secs [OF assms(1) that(1)] that(2) assms(2) ok(4)
    unfolding covered_def by blast
  with ok show ?thesis unfolding timeline_def creditSecond_history_secs by (simp add: ok_intros)
qed

lemma covered_credit: "covered m k \<Longrightarrow> covered (creditSecond sec c m) k"
proof -
  have "set (bucket_secs m) \<subseteq> set (bucket_secs (creditSecond sec c m))"
    by (simp add: creditSecond_def AList.dom_update subset_insertI split: option.split)
  then show "covered m k \<Longrightarrow> covered (creditSecond sec c m) k"
    unfolding covered_def creditSecond_history_secs by blast
qed

lemma timeline_credits:
  "timeline m \<Longrightarrow> \<forall>i \<in> set is. covered m (sec - i) \<Longrightarrow>
   timeline (foldl (\<lambda>m i. creditSecond (sec - i) c m) m is)"
  by (induction "is" arbitrary: m) (auto intro: timeline_credit covered_credit)

lemma timeline_apply:
  "timeline m \<Longrightarrow>
   \<forall>i \<in> {0..report_windows (msIntervalSec s) - 1}. covered m (sample_second now s - i) \<Longrightarrow>
   timeline (apply_sample now s m)"
  by (simp add: apply_sample_def Let_def credit_window_def timeline_credits ok_intros)

lemma timeline_tick [ok_intros]: "timeline m \<Longrightarrow> timeline (loop_tick now m)"
  by (simp add: loop_tick_def ok_intros)

lemma timeline_Freeze [ok_intros]: "timeline m \<Longrightarrow> timeline (Freeze now m)"
  by (simp add: Freeze_def ok_intros)

section \<open>Properties\<close>

text \<open>What the store holds for one second.\<close>

definition held_at :: "quantity \<Rightarrow> int \<Rightarrow> MetricsStore \<Rightarrow> rat" where
  "held_at q k m = held q (\<lambda>sec. sec = k) m"

lemma on_seconds_credits:
  "on_seconds m \<Longrightarrow> on_seconds (foldl (\<lambda>m i. creditSecond (sec - i) c m) m is)"
  by (induction "is" arbitrary: m) (auto intro: ok_intros)

lemma held_trim:
  assumes "on_seconds m" "\<And>k. P k \<Longrightarrow> now - HistoryRetention \<le> unix_time k"
  shows "held q P (trim now m) = held q P m"
proof -
  let ?old = "takeWhile (\<lambda>h. asTimestamp h < now - HistoryRetention) (mHistory m)"
  have "\<not> P (sample_sec h)" if "h \<in> set ?old" for h
  proof -
    from that have "asTimestamp h < now - HistoryRetention" "asTimestamp h = unix_time (sample_sec h)"
      using assms(1) set_takeWhileD [OF that] by (auto simp: on_seconds_def)
    with assms(2) show ?thesis by fastforce
  qed
  then have "map (\<lambda>h. if P (sample_sec h) then q_sample q h else 0) ?old = map (\<lambda>_. 0) ?old"
    by (intro map_cong) simp_all
  then have "(\<Sum>h\<leftarrow>?old. if P (sample_sec h) then q_sample q h else 0) = 0"
    by (simp only: sum_list_0)
  with quantity.mass_trim [of q P m now] show ?thesis by (simp add: held_def)
qed

lemma window_hits:
  "length (filter (\<lambda>i. sec - i = k) [0..w - 1]) = (if sec - w < k \<and> k \<le> sec then 1 else 0)"
proof -
  have "distinct (filter (\<lambda>i. sec - i = k) [0..w - 1])" by simp
  then have "length (filter (\<lambda>i. sec - i = k) [0..w - 1]) = card {i. 0 \<le> i \<and> i \<le> w - 1 \<and> sec - i = k}"
    using distinct_card [of "filter (\<lambda>i. sec - i = k) [0..w - 1]"] by (simp add: conj_assoc)
  also have "{i. 0 \<le> i \<and> i \<le> w - 1 \<and> sec - i = k} = (if sec - w < k \<and> k \<le> sec then {sec - k} else {})"
    by auto
  finally show ?thesis by simp
qed

text \<open>
  A report of a client is spread evenly over its window of 1 to 120 seconds, the last of which
  is the second of its timestamp: for every second within the retention and each of the six
  quantities, what the store holds grows by the reported count divided by the window's length
  when the second lies in the window, and not at all when it lies outside.
\<close>

theorem report_spread_over_window:
  assumes "buckets_ok m" "on_seconds m" "mRecording m" "now - HistoryRetention \<le> unix_time k"
  shows "held_at q k (apply_sample now s m) =
    held_at q k m +
    (if sample_second now s - report_windows (msIntervalSec s) < k \<and> k \<le> sample_second now s
     then reported q s / of_int (report_windows (msIntervalSec s)) else 0)"
proof -
  let ?w = "report_windows (msIntervalSec s)" and ?sec = "sample_second now s"
  define m1 where "m1 = credit_window ?sec ?w (sample_credit s ?w) m"
  define m2 where "m2 = m1\<lparr>mTotals := add_totals (mTotals m1) s,
                       mLatencies := MergeSet (mLatencies m1) (msLatencies s)\<rparr>"
  have ok: "buckets_ok m2" "on_seconds m2"
    using assms(1) on_seconds_credits [OF assms(2)]
    by (simp_all add: m2_def m1_def ok_intros) (simp add: on_seconds_def credit_window_def)
  have "held_at q k (apply_sample now s m) = held_at q k (trim now (flushClosed ?sec m2))"
    using assms(3) by (simp add: apply_sample_def Let_def m1_def m2_def)
  also have "\<dots> = held_at q k (flushClosed ?sec m2)"
    unfolding held_at_def using assms(4) ok by (intro held_trim) (auto simp: ok_intros)
  also have "\<dots> = held_at q k m1"
    by (simp add: held_at_def held_def quantity.mass_flush [OF ok(1)]) (simp add: m2_def quantity.mass_frame)
  also have "\<dots> = held_at q k m + of_nat (length (filter (\<lambda>i. ?sec - i = k) [0..?w - 1])) *
      q_credit q (sample_credit s ?w)"
    unfolding m1_def held_at_def held_def credit_window_def by (rule quantity.mass_credits)
  finally show ?thesis by (simp add: window_hits q_credit_sample)
qed

definition sample_at :: "int \<Rightarrow> float64 \<Rightarrow> int64 \<Rightarrow> MetricSample" where [go_eval]:
  "sample_at sec interval creates =
    \<lparr>msClientID = ''c1'', msTimestamp = unix_time sec, msPhase = PhaseCreate, msPercent = 100,
     msReadOps = 0, msWriteOps = 0, msDeleteOps = 0, msCreateOps = creates, msReadBytes = 0,
     msWriteBytes = 0, msGitFiles = 0, msUntarFiles = 0, msIntervalSec = interval,
     msLatencies = NewLatencySet\<rparr>"

lemma report_spread_over_window_witness:
  "held_at QCreate 1005 (apply_sample (unix_time 1009) (sample_at 1009 10 25) (Begin NewMetricsStore)) =
   held_at QCreate 1005 (Begin NewMetricsStore) + 5 / 2"
proof -
  have "report_windows 10 = 10" by (simp add: report_windows_def math_Round_def floor_eq_iff)
  moreover have "sample_second now (sample_at 1009 10 25) = 1009" for now
    by (simp add: sample_second_def sample_at_def)
  moreover have "reported QCreate (sample_at 1009 10 25) = 25" "msIntervalSec (sample_at 1009 10 25) = 10"
    by (simp_all add: sample_at_def)
  moreover have "mRecording (Begin NewMetricsStore)" by (simp add: Begin_def)
  moreover have "unix_time 1009 - HistoryRetention \<le> unix_time 1005" by (simp add: go_eval)
  ultimately show ?thesis
    using report_spread_over_window
      [of "Begin NewMetricsStore" "unix_time 1009" 1005 QCreate "sample_at 1009 10 25"]
    by (simp add: ok_intros timelineD(2))
qed




text \<open>In a run, a report is in range when every second of its window is covered as it comes.\<close>

fun reports_in_range :: "MetricsStore \<Rightarrow> metrics_event list \<Rightarrow> bool" where
  "reports_in_range m [] = True"
| "reports_in_range m (Report now s # es) =
    (list_all (\<lambda>i. covered m (sample_second now s - i)) [0..report_windows (msIntervalSec s) - 1] \<and>
     reports_in_range (apply_sample now s m) es)"
| "reports_in_range m (Tick now # es) = reports_in_range (loop_tick now m) es"

lemma timeline_run: "timeline m \<Longrightarrow> reports_in_range m es \<Longrightarrow> timeline (foldl metrics_step m es)"
  by (induction m es rule: reports_in_range.induct)
     (simp_all add: list_all_iff timeline_apply timeline_tick)

lemma open_bucket_after_history:
  assumes "timeline m" "map_of (mBuckets m) k = Some b" "h \<in> set (mHistory m)"
  shows "asTimestamp h < bTs b"
proof -
  note ok = timelineD [OF assms(1)]
  from assms(2) have "k \<in> set (bucket_secs m)" by (force dest: map_of_SomeD)
  with ok(4) assms(3) have "sample_sec h < k" by auto
  moreover have "bTs b = unix_time k"
    using ok(1) assms(2) by (simp add: stamped_lookup buckets_ok_def)
  ultimately show ?thesis using ok(2) assms(3) by (simp add: on_seconds_def)
qed

lemma History_timeline:
  assumes "timeline m"
  shows "sorted_wrt (\<lambda>g h. asTimestamp g < asTimestamp h) (History now m)"
proof (cases "map_of (mBuckets m) (unix_sec now)")
  case None
  with timeline_stamps [OF assms] show ?thesis by (simp add: History_def)
next
  case (Some b)
  have "\<forall>h \<in> set (mHistory m). asTimestamp h < bTs b"
    using open_bucket_after_history [OF assms Some] by blast
  then have "\<forall>g \<in> set (mHistory m). \<forall>h \<in> set [bucket_sample b]. asTimestamp g < asTimestamp h" by simp
  then have "sorted_wrt (\<lambda>g h. asTimestamp g < asTimestamp h) (mHistory m @ [bucket_sample b])"
    unfolding sorted_wrt_append using timeline_stamps [OF assms] 
    by (simp only: sorted_wrt.simps list.set ball_empty simp_thms)
  moreover have "History now m = (if mRecording m then mHistory m @ [bucket_sample b] else mHistory m)"
    by (simp add: History_def Some)
  ultimately show ?thesis using timeline_stamps [OF assms]
    by (cases "mRecording m") (simp_all only: if_True if_False)
qed

text \<open>
  C25. As long as every report is in range (each second of its window has a point or an open
  bucket, or lies after the last point), what the Web UI draws at any moment of the run and after
  it is frozen is strictly in time order: one point per second, no second twice.
\<close>

theorem history_in_time_order:
  assumes "reports_in_range (Begin m) es"
  shows "sorted_wrt (\<lambda>g h. asTimestamp g < asTimestamp h) (History now (foldl metrics_step (Begin m) es)) \<and>
    sorted_wrt (\<lambda>g h. asTimestamp g < asTimestamp h)
      (History later (Freeze now (foldl metrics_step (Begin m) es)))"
proof -
  let ?m = "foldl metrics_step (Begin m) es"
  have "timeline ?m" using assms by (intro timeline_run timeline_start)
  then show ?thesis by (intro conjI History_timeline timeline_Freeze)
qed

lemma history_in_time_order_witness:
  "sorted_wrt (\<lambda>g h. asTimestamp g < asTimestamp h)
    (History (unix_time 12) (foldl metrics_step (Begin NewMetricsStore)
      [Tick (unix_time 9), Tick (unix_time 10), Report (unix_time 11) (sample_at 11 2 7), Tick (unix_time 12)]))"
proof -
  have "reports_in_range (Begin NewMetricsStore)
    [Tick (unix_time 9), Tick (unix_time 10), Report (unix_time 11) (sample_at 11 2 7), Tick (unix_time 12)]"
    by code_simp
  from history_in_time_order [OF this] show ?thesis by blast
qed


text \<open>
  A report whose window reaches back before the first point of the history breaks the order:
  with 10-second reports, the first report of a run that arrives after two ticks puts its earlier
  seconds behind the point they precede. (A report interval in progress when the run starts has
  such a window, because clients report on their own period.)
\<close>

theorem early_report_breaks_time_order:
  "map asTimestamp
     (History (unix_time 21) (foldl metrics_step (Begin NewMetricsStore)
       [Tick (unix_time 20), Tick (unix_time 21), Report (unix_time 21) (sample_at 21 10 40)])) =
   map unix_time [20, 12, 13, 14, 15, 16, 17, 18, 19, 21]"
  by code_simp

lemma on_seconds_filter:
  "on_seconds m \<Longrightarrow>
   map sample_sec (filter (\<lambda>h. c \<le> asTimestamp h) (mHistory m)) = filter (\<lambda>k. c \<le> unix_time k) (history_secs m)"
  by (simp add: on_seconds_def filter_map comp_def cong: filter_cong)

lemma fill_start_axis:
  assumes "history_secs m = [a..l]" "a \<le> l" "n \<le> l + 121"
  shows "fill_start n m = l + 1"
proof -
  have "last (history_secs m) = l" unfolding assms(1) upto_rec2 [OF assms(2)] by simp
  moreover have "mHistory m \<noteq> []" using assms(1,2) by auto
  ultimately show ?thesis using assms(3) by (simp add: fill_start_def)
qed

lemma due_after_fill:
  assumes "timeline m" "history_secs m = [a..l]" "a \<le> l" "l < n" "n \<le> l + 121"
  shows "due_secs n (ensureSecondsThrough n m) = [l + 1..n - 1]"
proof -
  note start = fill_start_axis [OF assms(2,3,5)]
  have "l < k" if "k \<in> set (bucket_secs m)" for k
    using timelineD(4) [OF assms(1) that, of l] unfolding assms(2) using assms(3) by simp
  then have "set (due_secs n (ensureSecondsThrough n m)) = set [l + 1..n - 1]"
    unfolding set_due_secs ensure_secs(1) start set_upto by fastforce
  moreover have "sorted_wrt (<) (due_secs n (ensureSecondsThrough n m))"
    using timelineD(1) [OF timeline_ensure [OF assms(1)]] by (rule due_secs_sorted)
  ultimately show ?thesis
    by (intro sorted_distinct_set_unique) (simp_all add: sorted_distinct_strict)
qed

text \<open>
  While a run is recorded, a tick at most 121 seconds after the last point extends a gapless
  time axis up to the second before the current one, trims the seconds beyond the retention and
  nothing else, and leaves a bucket open for the current second: sparse reports leave no hole in
  the charts.
\<close>

theorem tick_extends_time_axis:
  assumes "timeline m" "mRecording m" "history_secs m = [a..l]" "a \<le> l"
    "l < unix_sec now" "unix_sec now \<le> l + 121"
  shows "map sample_sec (mHistory (loop_tick now m)) =
      filter (\<lambda>k. now - HistoryRetention \<le> unix_time k) [a..unix_sec now - 1] \<and>
    map_of (mBuckets (loop_tick now m)) (unix_sec now) \<noteq> None"
proof
  let ?n = "unix_sec now"
  let ?e = "ensureSecondsThrough ?n m"
  have ok: "timeline ?e" "timeline (flushClosed ?n ?e)" using assms(1) by (simp_all add: ok_intros)
  have "history_secs (flushClosed ?n ?e) = [a..l] @ [l + 1..?n - 1]"
    using due_after_fill [OF assms(1,3-6)]
    by (simp only: flush_secs [OF timelineD(1) [OF ok(1)]] ensure_secs(2) assms(3))
  also have "\<dots> = [a..?n - 1]" using assms(4,5) upto_split1 [of a "l + 1" "?n - 1"]
    by (cases "l + 1 \<le> ?n - 1") (auto intro!: arg_cong [where f = "upto a"])
  finally have secs: "history_secs (flushClosed ?n ?e) = [a..?n - 1]" .
  show "history_secs (loop_tick now m) = filter (\<lambda>k. now - HistoryRetention \<le> unix_time k) [a..?n - 1]"
    using assms(2) on_seconds_filter [OF timelineD(2) [OF ok(2)]]
    by (simp add: loop_tick_def trim_timeline [OF ok(2)] secs)
  have "?n \<in> set (bucket_secs ?e)" using assms(5) unfolding ensure_secs(1)
    by (simp add: fill_start_axis [OF assms(3,4,6)])
  then have "?n \<in> set (bucket_secs (loop_tick now m))"
    using assms(2) flush_secs(2) [OF timelineD(1) [OF ok(1)], of ?n]
    by (simp add: loop_tick_def trim_def Let_def)
  then show "map_of (mBuckets (loop_tick now m)) ?n \<noteq> None" by (simp add: map_of_eq_None_iff)
qed

lemma tick_extends_time_axis_witness:
  "map sample_sec (mHistory (loop_tick (unix_time 15)
      (foldl metrics_step (Begin NewMetricsStore) [Tick (unix_time 9), Tick (unix_time 10)]))) =
   [9, 10, 11, 12, 13, 14]"
proof -
  let ?m = "foldl metrics_step (Begin NewMetricsStore) [Tick (unix_time 9), Tick (unix_time 10)]"
  have "timeline ?m" by (intro timeline_run timeline_start) simp
  moreover have "mRecording ?m" "history_secs ?m = [9..9]" by code_simp+
  ultimately have "history_secs (loop_tick (unix_time 15) ?m) =
      filter (\<lambda>k. unix_time 15 - HistoryRetention \<le> unix_time k) [9..unix_sec (unix_time 15) - 1]"
    using tick_extends_time_axis [of ?m 9 9 "unix_time 15"] by simp
  also have "\<dots> = [9, 10, 11, 12, 13, 14]" by code_simp
  finally show ?thesis .
qed

lemma steps_frozen: "\<not> mRecording m \<Longrightarrow> foldl metrics_step m es = m"
proof (induction es)
  case (Cons e es)
  then show ?case by (cases e) (simp_all add: apply_sample_def loop_tick_def)
qed simp

text \<open>
  C24. Freezing a run seals it: every bucket up to the current second moves into the history with
  nothing lost, no later report or tick changes the store, and what is drawn from then on is
  exactly the sealed history. Only buckets of clients whose clock is ahead stay behind.
\<close>

theorem Freeze_seals_run:
  assumes "buckets_ok m"
  shows "foldl metrics_step (Freeze now m) es = Freeze now m \<and>
    History later (Freeze now m) = mHistory (Freeze now m) \<and>
    held q P (Freeze now m) = held q P m \<and>
    map fst (mBuckets (Freeze now m)) = filter (\<lambda>k. unix_sec now < k) (map fst (mBuckets m)) \<and>
    Totals (Freeze now m) = Totals m"
proof -
  have ok: "buckets_ok (m\<lparr>mRecording := False\<rparr>)" using assms by simp
  have off: "\<not> mRecording (Freeze now m)" by (simp add: Freeze_def)
  have "mass (q_bucket q) (q_sample q) P (m\<lparr>mRecording := False\<rparr>) = mass (q_bucket q) (q_sample q) P m"
    by (simp add: mass_def)
  then have "held q P (Freeze now m) = held q P m"
    by (simp add: held_def Freeze_def quantity.mass_flush [OF ok])
  moreover have "filter (\<lambda>k. \<not> k < unix_sec now + 1) ks = filter (\<lambda>k. unix_sec now < k) ks" for ks
    by (rule filter_cong) auto
  ultimately show ?thesis
    using steps_frozen [OF off] off flush_secs(2) [OF ok, of "unix_sec now + 1"]
    by (simp add: History_def Totals_def Freeze_def)
qed

lemma Freeze_seals_run_witness:
  "held QCreate (\<lambda>_. True) (Freeze (unix_time 12) (Begin NewMetricsStore)) =
   held QCreate (\<lambda>_. True) (Begin NewMetricsStore)"
  using Freeze_seals_run [of "Begin NewMetricsStore" "unix_time 12" "[]" 0 QCreate "\<lambda>_. True"]
  by (simp add: ok_intros)

end
