(* ===== verification/Orchestrator.thy ===== *)
theory Orchestrator
  imports Registry Metrics
begin

text \<open>
  The orchestrator's state and methods (\<^verbatim>\<open>internal/controller/orchestrator.go\<close>,
  \<^verbatim>\<open>internal/controller/participants.go\<close>). A method that holds the lock throughout is one
  function on the state. A method that unlocks and goes on (\<open>Start\<close>, \<open>Stop\<close>, \<open>OnClientRemoved\<close>)
  returns the state at the unlock and the list of the actions that follow; theory RunSystem
  interleaves those with everything else. \<open>oSent\<close> records what left through the broadcaster, to the
  configuration file and to the log, in order. A context is a number; \<open>oCancel\<close> holds the one its
  cancel function cancels.
\<close>

section \<open>State\<close>

datatype effect =
    Broadcast Envelope
  | BroadcastTo "string list" Envelope
  | SaveConfig string Config
  | RemoveTree string string
  | LogFailure string

record Orchestrator =
  oCfg :: Config
  oRegistry :: Registry
  oMetrics :: MetricsStore
  oConfigPath :: string
  oHostname :: string
  oSelectedIDs :: "string list"
  oAutoSelectNew :: bool
  oRunClientIDs :: "string list"
  oRunClientSet :: "string list option"
  oMetricsInterval :: duration
  oRunning :: bool
  oPhase :: phase
  oPercent :: int
  oStartedAt :: "time option"
  oElapsedSec :: float64
  oStatusText :: string
  oFailMessage :: string
  oCancel :: "nat option"
  oPhaseSpans :: "PhaseSpan list"
  oFilesCreated :: int64
  oSent :: "effect list"

definition send :: "effect \<Rightarrow> Orchestrator \<Rightarrow> Orchestrator" where [go_eval]:
  "send x o1 = o1\<lparr>oSent := oSent o1 @ [x]\<rparr>"

text \<open>What the methods return as errors.\<close>

datatype orch_error =
    ErrTestName | ErrPrefixes | ErrCreateDeleteRates | ErrBandwidth | ErrRandomIOPS | ErrPhaseStep
  | ErrConfigWhileRunning | ErrPhasesWhileRunning | ErrNotInPlan phase | ErrNoPhaseLeft
  | ErrParticipantsWhileRunning | ErrAlreadyRunning | ErrNoClients | ErrNoSelection | ErrNoPhases

text \<open>
  What remains to be done after a method has unlocked, and the steps of the run goroutine. A
  \<open>run_call\<close> is one call in the body of \<open>run\<close>.
\<close>

datatype prep_kind = PrepUnpack | PrepGitBundle | PrepUntarArchive

datatype run_call =
    CallPrepare prep_kind
  | CallSoftware phase duration
  | CallSend phase int float64 float64 int duration
  | CallFinalCleanup
  | CallCleanup "string list" string
  | CallCleanupAsync "string list" string

datatype act =
    ABegin
  | AFreeze
  | ACancel nat
  | ABroadcastTo "string list" Envelope
  | ABroadcastRun Envelope
  | ARemoveTrees "string list" string
  | ACall run_call
  | ASetPhase phase int string
  | APrepare prep_kind
  | AWait duration
  | ATimer time
  | AWaitIdle duration
  | APoll time time bool "string list" "string list"
  | ADefer
  | AFinish string

section \<open>Configuration\<close>

text \<open>
  \<open>NewOrchestrator\<close>: \<open>loaded\<close> is what the configuration file gave: its contents, no file, or an
  error. Without a file the defaults are written.
\<close>

datatype load_result = Loaded Config | NoSuchFile | LoadError

definition NewOrchestrator :: "load_result \<Rightarrow> string \<Rightarrow> string \<Rightarrow> Registry \<Rightarrow> MetricsStore \<Rightarrow> Orchestrator"
  where [go_eval]:
  "NewOrchestrator loaded configPath hostname reg metrics =
    (let cfg = (if configPath = [] then DefaultConfig
                else case loaded of Loaded c \<Rightarrow> c | NoSuchFile \<Rightarrow> DefaultConfig | LoadError \<Rightarrow> DefaultConfig);
         saved = (if configPath \<noteq> [] \<and> loaded = NoSuchFile then [SaveConfig configPath cfg] else [])
     in \<lparr>oCfg = NormalizeDisabledPhases cfg, oRegistry = reg, oMetrics = metrics,
         oConfigPath = configPath, oHostname = hostname, oSelectedIDs = [], oAutoSelectNew = True,
         oRunClientIDs = [], oRunClientSet = None, oMetricsInterval = 0, oRunning = False,
         oPhase = PhaseIdle, oPercent = 0, oStartedAt = None, oElapsedSec = 0,
         oStatusText = ''Ready'', oFailMessage = [], oCancel = None, oPhaseSpans = [],
         oFilesCreated = 0, oSent = saved\<rparr>)"

definition GetConfig :: "Orchestrator \<Rightarrow> Config" where [go_eval]:
  "GetConfig o1 = oCfg o1"

definition config_envelope :: "Config \<Rightarrow> Envelope" where [go_eval]:
  "config_envelope cfg = zero_Envelope\<lparr>envType := ''config'', envConfig := Some cfg\<rparr>"

text \<open>The end of \<open>SetConfig\<close> and \<open>SetPhaseEnabled\<close>: broadcast and save.\<close>

definition publish_config :: "Config \<Rightarrow> Orchestrator \<Rightarrow> Orchestrator" where [go_eval]:
  "publish_config cfg o1 =
    (let o2 = send (Broadcast (config_envelope cfg)) o1
     in if oConfigPath o2 \<noteq> [] then send (SaveConfig (oConfigPath o2) cfg) o2 else o2)"

definition SetConfig :: "Config \<Rightarrow> Orchestrator \<Rightarrow> orch_error + Orchestrator" where [go_eval]:
  "SetConfig cfg o1 =
    (if TestName cfg = [] then Inl ErrTestName
     else if Prefixes cfg = [] then Inl ErrPrefixes
     else if FileCreationRate cfg \<le> 0 \<or> FileDeletionRate cfg \<le> 0 then Inl ErrCreateDeleteRates
     else if FileWriteBandwidth cfg \<le> 0 \<or> FileReadBandwidth cfg \<le> 0 then Inl ErrBandwidth
     else if RandomWriteIOPS cfg < 0 \<or> RandomReadIOPS cfg < 0 then Inl ErrRandomIOPS
     else
       let cfg = (if PhaseStepSeconds cfg \<le> 0
                  then cfg\<lparr>PhaseStepSeconds := Seconds DefaultPhaseStepDuration\<rparr> else cfg)
       in if PhaseStepSeconds cfg < 1 then Inl ErrPhaseStep
          else
            let cfg = (if TrimSpace (PackageURL cfg) = [] then cfg\<lparr>PackageURL := DefaultPackageURL\<rparr> else cfg);
                cfg = NormalizeDisabledPhases cfg
            in if oRunning o1 then Inl ErrConfigWhileRunning
               else Inr (publish_config cfg
                      (o1\<lparr>oCfg := cfg, oRegistry := ReassignPrefixes (Prefixes cfg) (oRegistry o1)\<rparr>)))"

text \<open>
  \<open>SetPhaseEnabled\<close>. The local copy of the configuration shares the backing array of its
  \<open>DisabledPhases\<close> with the stored one, and \<open>append\<close> to the slice cut to length 0 writes into it.
  On success the stored configuration gets a fresh slice; on the last error it keeps its length
  and the overwritten elements (\<open>overwritten\<close>), so the error branch returns a state of its own.
\<close>

definition overwritten :: "'a list \<Rightarrow> 'a list \<Rightarrow> 'a list" where [go_eval]:
  "overwritten new old = take (length old) new @ drop (length new) old"

definition SetPhaseEnabled :: "phase \<Rightarrow> bool \<Rightarrow> Orchestrator \<Rightarrow> orch_error option \<times> Orchestrator" where
  [go_eval]:
  "SetPhaseEnabled ph enabled o1 =
    (if oRunning o1 then (Some ErrPhasesWhileRunning, o1)
     else
       let cfg = oCfg o1;
           group = PhaseToggleGroup ph;
           inPlan = list_ex (\<lambda>p. p \<in> set group) (EffectivePhaseOrder cfg)
       in if \<not> inPlan then (Some (ErrNotInPlan ph), o1)
          else
            let disabled = (if enabled then filter (\<lambda>d. d \<notin> set group) (DisabledPhases cfg)
                            else DisabledPhases cfg @ group);
                new = filter (\<lambda>p. p \<in> set disabled) (EffectivePhaseOrder cfg);
                cfg2 = NormalizeDisabledPhases (cfg\<lparr>DisabledPhases := new\<rparr>)
            in if ActivePhaseOrder cfg2 = []
               then (Some ErrNoPhaseLeft,
                     o1\<lparr>oCfg := cfg\<lparr>DisabledPhases := overwritten new (DisabledPhases cfg)\<rparr>\<rparr>)
               else (None, publish_config cfg2 (o1\<lparr>oCfg := cfg2\<rparr>)))"

section \<open>Participants\<close>

text \<open>A Go set is a list without duplicates; its order stands for the map's iteration order.\<close>

definition set_add :: "string \<Rightarrow> string list \<Rightarrow> string list" where [go_eval]:
  "set_add x xs = (if x \<in> set xs then xs else xs @ [x])"

definition set_delete :: "string \<Rightarrow> string list \<Rightarrow> string list" where [go_eval]:
  "set_delete x xs = filter (\<lambda>y. y \<noteq> x) xs"

definition OnClientRegistered :: "string \<Rightarrow> Orchestrator \<Rightarrow> Orchestrator" where [go_eval]:
  "OnClientRegistered cid o1 =
    (if oRunning o1 \<or> \<not> oAutoSelectNew o1 then o1
     else o1\<lparr>oSelectedIDs := set_add cid (oSelectedIDs o1)\<rparr>)"

text \<open>The loop that keeps the trimmed, known ids.\<close>

definition known_ids :: "string list \<Rightarrow> string list \<Rightarrow> string list" where [go_eval]:
  "known_ids known ids =
    foldl (\<lambda>next cid. let cid = TrimSpace cid
                     in if cid = [] then next else if cid \<notin> set known then next else set_add cid next)
      [] ids"

definition SetSelectedClients :: "string list \<Rightarrow> Orchestrator \<Rightarrow> orch_error + Orchestrator" where
  [go_eval]:
  "SetSelectedClients ids o1 =
    (if oRunning o1 then Inl ErrParticipantsWhileRunning
     else let known = IDs (oRegistry o1); next = known_ids known ids
          in Inr (o1\<lparr>oSelectedIDs := next,
                    oAutoSelectNew := (length next > 0 \<and> length next = length known)\<rparr>))"

record ParticipantUpdate =
  puMode :: string
  puN :: int
  puClientIDs :: "string list"
  puAdd :: "string list"
  puRemove :: "string list"

definition add_known :: "string list \<Rightarrow> string list \<Rightarrow> string list \<Rightarrow> string list" where [go_eval]:
  "add_known known ids sel =
    foldl (\<lambda>sel cid. let cid = TrimSpace cid in if cid \<in> set known then set_add cid sel else sel) sel ids"

definition remove_ids :: "string list \<Rightarrow> string list \<Rightarrow> string list" where [go_eval]:
  "remove_ids ids sel = foldl (\<lambda>sel cid. set_delete (TrimSpace cid) sel) sel ids"

definition UpdateParticipants :: "ParticipantUpdate \<Rightarrow> Orchestrator \<Rightarrow> orch_error + Orchestrator" where
  [go_eval]:
  "UpdateParticipants u o1 =
    (if oRunning o1 then Inl ErrParticipantsWhileRunning
     else
       let known = IDs (oRegistry o1); mode = ToLower (TrimSpace (puMode u))
       in if mode = ''all'' then
            Inr (o1\<lparr>oSelectedIDs := known, oAutoSelectNew := length known > 0\<rparr>)
          else if mode = ''none'' then Inr (o1\<lparr>oSelectedIDs := [], oAutoSelectNew := False\<rparr>)
          else if mode = ''first_n'' then
            let ids = IDsSorted (oRegistry o1);
                n = (if puN u < 0 then 0 else puN u);
                n = (if n > int (length ids) then int (length ids) else n)
            in Inr (o1\<lparr>oSelectedIDs := take (nat n) ids, oAutoSelectNew := False\<rparr>)
          else if length (puAdd u) > 0 \<or> length (puRemove u) > 0 then
            let sel = remove_ids (puRemove u) (add_known known (puAdd u) (oSelectedIDs o1))
            in Inr (o1\<lparr>oSelectedIDs := sel,
                      oAutoSelectNew := (length sel > 0 \<and> length sel = length known)\<rparr>)
          else
            let next = known_ids known (puClientIDs u)
            in Inr (o1\<lparr>oSelectedIDs := next,
                      oAutoSelectNew := (length next > 0 \<and> length next = length known)\<rparr>))"

definition in_run_set :: "string \<Rightarrow> Orchestrator \<Rightarrow> bool" where [go_eval]:
  "in_run_set cid o1 = (case oRunClientSet o1 of Some s \<Rightarrow> cid \<in> set s | None \<Rightarrow> False)"

definition IsParticipant :: "string \<Rightarrow> Orchestrator \<Rightarrow> bool" where [go_eval]:
  "IsParticipant cid o1 = (if \<not> oRunning o1 then False else in_run_set cid o1)"

definition connectedSelectedLocked :: "Orchestrator \<Rightarrow> string list" where [go_eval]:
  "connectedSelectedLocked o1 = filter (\<lambda>cid. cid \<in> set (IDs (oRegistry o1))) (oSelectedIDs o1)"

definition UpdateClientFiles :: "int64 \<Rightarrow> Orchestrator \<Rightarrow> Orchestrator" where [go_eval]:
  "UpdateClientFiles n o1 = (if sint n > sint (oFilesCreated o1) then o1\<lparr>oFilesCreated := n\<rparr> else o1)"

section \<open>Start, stop and the end of a run\<close>

definition broadcastRun :: "Envelope \<Rightarrow> Orchestrator \<Rightarrow> Orchestrator" where [go_eval]:
  "broadcastRun env o1 = send (BroadcastTo (oRunClientIDs o1) env) o1"

definition stop_envelope :: Envelope where [go_eval]:
  "stop_envelope = zero_Envelope\<lparr>envType := ''stop'', envStop := Some \<lparr>stCleanup = True\<rparr>\<rparr>"

definition interval_envelope :: "duration \<Rightarrow> Envelope" where [go_eval]:
  "interval_envelope d =
    zero_Envelope\<lparr>envType := ''metrics_interval'', envMetricsIntervalSec := Seconds d\<rparr>"

definition IsRunning :: "Orchestrator \<Rightarrow> bool" where [go_eval]:
  "IsRunning o1 = oRunning o1"

definition closePhaseSpanLocked :: "time \<Rightarrow> Orchestrator \<Rightarrow> Orchestrator" where [go_eval]:
  "closePhaseSpanLocked t o1 =
    (if oPhaseSpans o1 \<noteq> [] \<and> psEnd (last (oPhaseSpans o1)) = None
     then o1\<lparr>oPhaseSpans := butlast (oPhaseSpans o1) @ [(last (oPhaseSpans o1))\<lparr>psEnd := Some t\<rparr>]\<rparr>
     else o1)"

definition setPhase :: "time \<Rightarrow> phase \<Rightarrow> int \<Rightarrow> string \<Rightarrow> Orchestrator \<Rightarrow> Orchestrator" where [go_eval]:
  "setPhase now ph pct txt o1 =
    (let o2 = (if ph \<noteq> oPhase o1 \<or> oPhaseSpans o1 = []
               then let o2 = closePhaseSpanLocked now o1
                    in o2\<lparr>oPhaseSpans := oPhaseSpans o2 @ [\<lparr>psPhase = ph, psStart = now, psEnd = None\<rparr>]\<rparr>
               else o1)
     in o2\<lparr>oPhase := ph, oPercent := pct, oStatusText := txt\<rparr>)"

text \<open>\<open>elapsedSec\<close> is frozen when a run ends.\<close>

definition freeze_elapsed :: "time \<Rightarrow> Orchestrator \<Rightarrow> Orchestrator" where [go_eval]:
  "freeze_elapsed now o1 =
    (case oStartedAt o1 of Some t \<Rightarrow> o1\<lparr>oElapsedSec := Seconds (now - t)\<rparr> | None \<Rightarrow> o1)"

text \<open>The locked part of \<open>finish\<close>, after the metrics are frozen.\<close>

definition finish :: "time \<Rightarrow> string \<Rightarrow> Orchestrator \<Rightarrow> Orchestrator" where [go_eval]:
  "finish now txt o1 =
    (let o2 = freeze_elapsed now (closePhaseSpanLocked now o1);
         txt = (if oFailMessage o2 \<noteq> [] then oFailMessage o2 else txt)
     in o2\<lparr>oRunning := False, oRunClientIDs := [], oRunClientSet := None, oMetricsInterval := 0,
           oFailMessage := [], oPhase := PhaseIdle, oPercent := 0, oStatusText := txt,
           oCancel := None\<rparr>)"

definition cancel_acts :: "nat option \<Rightarrow> act list" where [go_eval]:
  "cancel_acts c = (case c of Some ctx \<Rightarrow> [ACancel ctx] | None \<Rightarrow> [])"

text \<open>The dash of the failure message is a UTF-8 sequence.\<close>

definition lost_message :: "string \<Rightarrow> string" where [go_eval]:
  "lost_message label =
    ''FAILED RUN '' @ [CHR 0xE2, CHR 0x80, CHR 0x94] @ '' participant lost ('' @ label @ '')''"

definition client_label :: "string \<Rightarrow> string \<Rightarrow> string" where [go_eval]:
  "client_label cid hostname =
    (let label = TrimSpace hostname
     in if label = [] then (if length cid > 8 then take 8 cid else cid) else label)"

definition OnClientRemoved ::
  "time \<Rightarrow> string \<Rightarrow> string \<Rightarrow> Orchestrator \<Rightarrow> Orchestrator \<times> act list" where [go_eval]:
  "OnClientRemoved now cid hostname o1 =
    (let o2 = o1\<lparr>oSelectedIDs := set_delete cid (oSelectedIDs o1)\<rparr>
     in if \<not> oRunning o2 \<or> oFailMessage o2 \<noteq> [] then (o2, [])
        else
          let participant = (case oRunClientSet o2 of Some s \<Rightarrow> cid \<in> set s
                             | None \<Rightarrow> cid \<in> set (oRunClientIDs o2))
          in if \<not> participant then (o2, [])
             else
               let msg = lost_message (client_label cid hostname);
                   o3 = o2\<lparr>oCancel := None, oFailMessage := msg, oStatusText := msg,
                          oPhase := PhaseStopped, oPercent := 0\<rparr>
               in (freeze_elapsed now (closePhaseSpanLocked now o3),
                   cancel_acts (oCancel o2) @ [ABroadcastRun stop_envelope, AFreeze]))"

definition stopped_text :: string where [go_eval]:
  "stopped_text = ''Stopped '' @ [CHR 0xE2, CHR 0x80, CHR 0x94] @ '' clients cleaning up''"

definition Stop :: "time \<Rightarrow> Orchestrator \<Rightarrow> Orchestrator \<times> act list" where [go_eval]:
  "Stop now o1 =
    (if \<not> oRunning o1 then (o1, [])
     else if oFailMessage o1 \<noteq> [] then (o1, [])
     else
       let o2 = o1\<lparr>oCancel := None, oPhase := PhaseStopped, oPercent := 0, oStatusText := stopped_text\<rparr>
       in (freeze_elapsed now (closePhaseSpanLocked now o2),
           cancel_acts (oCancel o1) @ [ABroadcastRun stop_envelope, AFreeze]))"

end
