(* ===== verification/RunPlan.thy ===== *)
theory RunPlan
  imports Orchestrator
begin

text \<open>
  The run itself (\<^verbatim>\<open>run\<close>, \<^verbatim>\<open>runRamp\<close>, \<^verbatim>\<open>sendAndWait\<close> and the rest of
  \<^verbatim>\<open>internal/controller/orchestrator.go\<close>): the calls that the body of \<open>run\<close> makes for a
  configuration, the actions each call consists of, and the poll that waits for idle clients. The
  lemmas say which phases are commanded, in which order and at which rates. An early return of
  \<open>run\<close> drops the actions that are left up to the deferred function (\<open>ADefer\<close>).
\<close>

section \<open>Rates\<close>

definition perClient :: "float64 \<Rightarrow> int \<Rightarrow> float64" where [go_eval]:
  "perClient global n = global / of_int (if n < 1 then 1 else n)"

section \<open>The calls of a run\<close>

definition runRamp :: "phase \<Rightarrow> float64 \<Rightarrow> int \<Rightarrow> duration \<Rightarrow> run_call list" where [go_eval]:
  "runRamp ph baseRate fileSize step =
    map (\<lambda>pct. CallSend ph pct (baseRate * of_int pct / 100) 0 fileSize step) RampPercents"

definition runRamp2 :: "phase \<Rightarrow> float64 \<Rightarrow> float64 \<Rightarrow> int \<Rightarrow> duration \<Rightarrow> run_call list" where [go_eval]:
  "runRamp2 ph writeBase readBase fileSize step =
    map (\<lambda>pct. CallSend ph pct (writeBase * of_int pct / 100) (readBase * of_int pct / 100) fileSize step)
      RampPercents"

definition run_software :: "Config \<Rightarrow> bool" where [go_eval]:
  "run_software cfg = (SoftwareEnabled cfg \<and> PhaseSelected cfg PhaseSoftwareCold)"

definition run_git :: "Config \<Rightarrow> bool" where [go_eval]:
  "run_git cfg = (GitCloneEnabled cfg \<and> PhaseSelected cfg PhaseGitClone)"

definition run_untar :: "Config \<Rightarrow> bool" where [go_eval]:
  "run_untar cfg = (UntarEnabled cfg \<and> PhaseSelected cfg PhaseUntar)"

definition software_calls :: "Config \<Rightarrow> run_call list" where [go_eval]:
  "software_calls cfg =
    (if run_software cfg then
       [CallPrepare PrepUnpack, CallSoftware PhaseSoftwareCold SoftwareStartupColdTimeout,
        CallSoftware PhaseSoftwareWarm SoftwareStartupWarmTimeout,
        if run_git cfg \<or> run_untar cfg then CallCleanup (Prefixes cfg) (TestName cfg)
        else CallCleanupAsync (Prefixes cfg) (TestName cfg)]
     else []) @
    (if run_git cfg then [CallPrepare PrepGitBundle, CallSoftware PhaseGitClone SoftwareOpTimeout] else []) @
    (if run_untar cfg then [CallPrepare PrepUntarArchive, CallSoftware PhaseUntar SoftwareOpTimeout] else []) @
    (if run_git cfg \<or> run_untar cfg then [CallCleanupAsync (Prefixes cfg) (TestName cfg)] else [])"

definition run_calls :: "Config \<Rightarrow> int \<Rightarrow> run_call list" where [go_eval]:
  "run_calls cfg nClients =
    (let createRate = perClient (FileCreationRate cfg) nClients;
         deleteRate = perClient (FileDeletionRate cfg) nClients;
         writeBW = perClient (FileWriteBandwidth cfg) nClients;
         readBW = perClient (FileReadBandwidth cfg) nClients;
         step = PhaseStepDuration cfg
     in software_calls cfg @
        (if PhaseSelected cfg PhaseCreate then runRamp PhaseCreate createRate CreateFileSize step else []) @
        (if PhaseSelected cfg PhaseDelete
         then runRamp PhaseDelete deleteRate 0 step @ [CallSend PhaseDelete 100 deleteRate 0 0 step] else []) @
        (if PhaseSelected cfg PhaseWriteBW then runRamp PhaseWriteBW writeBW BandwidthFileSize step else []) @
        (if PhaseSelected cfg PhaseReadBW then runRamp PhaseReadBW readBW BandwidthFileSize step else []) @
        (if PhaseSelected cfg PhaseReadWrite
         then runRamp2 PhaseReadWrite writeBW readBW BandwidthFileSize step else []) @
        (if PhaseSelected cfg PhaseRIOPS
         then [CallSend PhaseRIOPS 100
                 (if RandomWriteIOPS cfg > 0 then perClient (RandomWriteIOPS cfg) nClients else 0)
                 (if RandomReadIOPS cfg > 0 then perClient (RandomReadIOPS cfg) nClients else 0)
                 RIOPSFileSize (step * RIOPSDurationSteps)]
         else []) @
        (if PhaseSelected cfg PhaseFinalDelete
         then runRamp PhaseFinalDelete deleteRate 0 step @ [CallFinalCleanup] else []))"

section \<open>The actions of a call\<close>

definition command_envelope :: "PhaseCommand \<Rightarrow> Envelope" where [go_eval]:
  "command_envelope cmd = zero_Envelope\<lparr>envType := ''command'', envCommand := Some cmd\<rparr>"

definition send_command :: "Config \<Rightarrow> phase \<Rightarrow> int \<Rightarrow> float64 \<Rightarrow> float64 \<Rightarrow> int \<Rightarrow> duration \<Rightarrow> PhaseCommand"
  where [go_eval]:
  "send_command cfg ph pct rate readRate fileSize step =
    zero_PhaseCommand\<lparr>pcPhase := ph, pcPercent := pct, pcDuration := Seconds step, pcRate := rate,
      pcReadRate := readRate, pcTestName := TestName cfg, pcFileSize := fileSize\<rparr>"

definition sendAndWait :: "Config \<Rightarrow> phase \<Rightarrow> int \<Rightarrow> float64 \<Rightarrow> float64 \<Rightarrow> int \<Rightarrow> duration \<Rightarrow> act list"
  where [go_eval]:
  "sendAndWait cfg ph pct rate readRate fileSize step =
    [ASetPhase ph pct (PhaseLabel ph @ '' @ '' @ decimal pct @ ''%''),
     ABroadcastRun (command_envelope (send_command cfg ph pct rate readRate fileSize step)),
     AWait step]"

definition software_command :: "Config \<Rightarrow> phase \<Rightarrow> duration \<Rightarrow> PhaseCommand" where [go_eval]:
  "software_command cfg ph timeout =
    zero_PhaseCommand\<lparr>pcPhase := ph, pcPercent := 100, pcDuration := Seconds timeout,
      pcTestName := TestName cfg, pcPackageURL := PackageURL cfg,
      pcStartupCommand := StartupCommand cfg, pcGitCloneURL := GitCloneURL cfg,
      pcUntarURL := UntarURL cfg\<rparr>"

definition runSoftwarePhase :: "Config \<Rightarrow> phase \<Rightarrow> duration \<Rightarrow> act list" where [go_eval]:
  "runSoftwarePhase cfg ph timeout =
    [ASetPhase ph 100 (PhaseLabel ph),
     ABroadcastRun (command_envelope (software_command cfg ph timeout)),
     AWaitIdle timeout]"

definition cleanup_command :: "Config \<Rightarrow> PhaseCommand" where [go_eval]:
  "cleanup_command cfg =
    zero_PhaseCommand\<lparr>pcPhase := PhaseFinalDelete, pcPercent := 100,
      pcDuration := Seconds FinalCleanupTimeout, pcTestName := TestName cfg, pcForceCleanup := True\<rparr>"

definition dash :: string where [go_eval]: "dash = '' '' @ [CHR 0xE2, CHR 0x80, CHR 0x94] @ '' ''"

definition sendFinalCleanup :: "Config \<Rightarrow> act list" where [go_eval]:
  "sendFinalCleanup cfg =
    [ASetPhase PhaseFinalDelete 100 (''Final Delete'' @ dash @ ''cleaning remaining''),
     ABroadcastRun (command_envelope (cleanup_command cfg)),
     AWaitIdle FinalCleanupTimeout]"

text \<open>The three preparations on the controller differ in the phase they show and the text.\<close>

fun prepare_acts :: "prep_kind \<Rightarrow> act list" where
  "prepare_acts PrepUnpack =
    [ASetPhase PhaseSoftwareUnpack 100 (PhaseLabel PhaseSoftwareUnpack), APrepare PrepUnpack]"
| "prepare_acts PrepGitBundle =
    [ASetPhase PhaseGitClone 100 (''Git Clone'' @ dash @ ''preparing shared bundle''),
     APrepare PrepGitBundle]"
| "prepare_acts PrepUntarArchive =
    [ASetPhase PhaseUntar 100 (''Untar'' @ dash @ ''downloading shared archive''),
     APrepare PrepUntarArchive]"

fun prepare_failed :: "prep_kind \<Rightarrow> string" where
  "prepare_failed PrepUnpack = ''orchestrator: software unpack failed''"
| "prepare_failed PrepGitBundle = ''orchestrator: git bundle prep failed''"
| "prepare_failed PrepUntarArchive = ''orchestrator: untar archive prep failed''"

fun call_acts :: "Config \<Rightarrow> run_call \<Rightarrow> act list" where
  "call_acts cfg (CallPrepare k) = prepare_acts k"
| "call_acts cfg (CallSoftware ph timeout) = runSoftwarePhase cfg ph timeout"
| "call_acts cfg (CallSend ph pct rate readRate fileSize step) =
     sendAndWait cfg ph pct rate readRate fileSize step"
| "call_acts cfg CallFinalCleanup = sendFinalCleanup cfg"
| "call_acts cfg (CallCleanup ps tn) = [ARemoveTrees ps tn]"
| "call_acts cfg (CallCleanupAsync ps tn) = []"

text \<open>The trees \<open>cleanupSoftware\<close> removes.\<close>

definition cleanupSoftware :: "string list \<Rightarrow> string \<Rightarrow> Orchestrator \<Rightarrow> Orchestrator" where [go_eval]:
  "cleanupSoftware ps tn o1 =
    foldl (\<lambda>o1 p. let p = TrimSpace p in if p = [] then o1 else send (RemoveTree p tn) o1) o1 ps"

section \<open>Waiting for idle clients\<close>

text \<open>
  One turn of the loop of \<open>waitClientsIdle\<close> at the time \<open>now\<close>: \<open>None\<close> returns, \<open>Some\<close> goes on
  with the new \<open>sawRunning\<close>. The range over the set of wanted ids computes the three flags.
\<close>

definition poll_scan :: "string list \<Rightarrow> (string \<rightharpoonup> string) \<Rightarrow> bool \<Rightarrow> bool \<times> bool \<times> int \<times> bool" where
  [go_eval]:
  "poll_scan want statuses saw =
    foldl (\<lambda>(allIdle, anyRunning, seen, saw) cid.
        case statuses cid of
          None \<Rightarrow> (allIdle, anyRunning, seen, saw)
        | Some st \<Rightarrow>
            if st = ''running'' then (False, True, seen + 1, True)
            else if st = ''idle'' then (allIdle, anyRunning, seen + 1, saw)
            else (False, anyRunning, seen + 1, saw))
      (True, False, 0, saw) want"

definition wait_poll ::
  "time \<Rightarrow> time \<Rightarrow> time \<Rightarrow> string list \<Rightarrow> (string \<rightharpoonup> string) \<Rightarrow> bool \<Rightarrow> bool option" where [go_eval]:
  "wait_poll now deadline grace want statuses saw =
    (if now > deadline then None
     else
       case poll_scan want statuses saw of
         (allIdle, anyRunning, seen, saw) \<Rightarrow>
           if seen < int (length want) then Some saw
           else if saw \<and> allIdle \<and> \<not> anyRunning then None
           else if allIdle \<and> \<not> anyRunning \<and> now > grace \<and> (saw \<or> now - grace > 2 * Second) then None
           else Some saw)"

definition grace_period :: duration where [go_eval]: "grace_period = 1500 * Millisecond"

section \<open>Start\<close>

definition run_acts :: "Config \<Rightarrow> int \<Rightarrow> act list" where [go_eval]:
  "run_acts cfg n = map ACall (run_calls cfg n) @ [ADefer]"

definition Start :: "time \<Rightarrow> nat \<Rightarrow> Orchestrator \<Rightarrow> orch_error + Orchestrator \<times> act list" where [go_eval]:
  "Start now ctx o1 =
    (if oRunning o1 then Inl ErrAlreadyRunning
     else if Count (oRegistry o1) = 0 then Inl ErrNoClients
     else
       let participants = connectedSelectedLocked o1
       in if participants = [] then Inl ErrNoSelection
          else
            let cfg = oCfg o1; active = ActivePhaseOrder cfg
            in if active = [] then Inl ErrNoPhases
               else
                 let n = int (length participants);
                     interval = MetricsIntervalForClients n
                 in Inr (o1\<lparr>oCancel := Some ctx, oRunning := True, oRunClientIDs := participants,
                           oRunClientSet := Some participants, oMetricsInterval := interval,
                           oAutoSelectNew := False, oFailMessage := [], oStartedAt := Some now,
                           oElapsedSec := 0, oPhase := hd active, oPercent := 0,
                           oFilesCreated := 0, oPhaseSpans := [],
                           oStatusText := ''Starting '' @ PhaseLabel (hd active) @ '' ('' @ decimal n @ '' clients)''\<rparr>,
                         [ABegin, ABroadcastTo participants (interval_envelope interval)] @ run_acts cfg n))"

section \<open>What a run commands\<close>

text \<open>All actions of a complete run, the commands among them, and the phases shown.\<close>

definition plan_acts :: "Config \<Rightarrow> int \<Rightarrow> act list" where [go_eval]:
  "plan_acts cfg n = concat (map (call_acts cfg) (run_calls cfg n))"

fun act_command :: "act \<Rightarrow> PhaseCommand option" where
  "act_command (ABroadcastRun env) = envCommand env"
| "act_command _ = None"

definition act_commands :: "act list \<Rightarrow> PhaseCommand list" where [go_eval]:
  "act_commands as = List.map_filter act_command as"

fun act_phase :: "act \<Rightarrow> phase option" where
  "act_phase (ASetPhase ph pct txt) = Some ph"
| "act_phase _ = None"

definition act_phases :: "act list \<Rightarrow> phase list" where [go_eval]:
  "act_phases as = List.map_filter act_phase as"

lemma map_filter_append [simp]: "List.map_filter f (xs @ ys) = List.map_filter f xs @ List.map_filter f ys"
  by (induction xs) (simp_all add: map_filter_simps split: option.split)

lemma act_commands_append [simp]: "act_commands (xs @ ys) = act_commands xs @ act_commands ys"
  by (simp add: act_commands_def)

lemma act_phases_append [simp]: "act_phases (xs @ ys) = act_phases xs @ act_phases ys"
  by (simp add: act_phases_def)

definition call_phases :: "run_call list \<Rightarrow> phase list" where
  "call_phases cs = act_phases (concat (map (call_acts DefaultConfig) cs))"

lemma call_phases_append [simp]: "call_phases (xs @ ys) = call_phases xs @ call_phases ys"
  by (simp add: call_phases_def)

lemma call_phases_if: "call_phases (if b then xs else []) = (if b then call_phases xs else [])"
  by (simp add: call_phases_def act_phases_def map_filter_simps)

lemmas act_kind_simps = sendAndWait_def runSoftwarePhase_def sendFinalCleanup_def act_phases_def
  act_commands_def map_filter_simps command_envelope_def zero_Envelope_def

lemma act_phases_call: "act_phases (call_acts cfg c) = call_phases [c]"
proof (cases c)
  case (CallPrepare k)
  then show ?thesis by (cases k) (simp_all add: call_phases_def act_kind_simps)
qed (simp_all add: call_phases_def act_kind_simps)

lemma plan_phases: "act_phases (plan_acts cfg n) = call_phases (run_calls cfg n)"
proof -
  have "act_phases (concat (map (call_acts cfg) cs)) = call_phases cs" for cs
  proof (induction cs)
    case (Cons c cs)
    then show ?case using call_phases_append [of "[c]" cs] by (simp add: act_phases_call)
  qed (simp add: call_phases_def)
  then show ?thesis by (simp add: plan_acts_def)
qed

text \<open>Every ramp shows its phase for each of the ten steps.\<close>

lemma call_phases_ramp:
  "call_phases (runRamp ph r sz step) = replicate 10 ph"
  "call_phases (runRamp2 ph r1 r2 sz step) = replicate 10 ph"
  by (simp_all add: call_phases_def runRamp_def runRamp2_def RampPercents_def act_kind_simps
      numeral_eq_Suc)

lemma call_phases_single:
  "call_phases [CallSend ph pct r1 r2 sz step] = [ph]"
  "call_phases [CallFinalCleanup] = [PhaseFinalDelete]"
  "call_phases [CallCleanupAsync ps tn] = []"
  "call_phases [CallPrepare PrepGitBundle, CallSoftware PhaseGitClone t] = [PhaseGitClone, PhaseGitClone]"
  "call_phases [CallPrepare PrepUntarArchive, CallSoftware PhaseUntar t] = [PhaseUntar, PhaseUntar]"
  "call_phases [CallPrepare PrepUnpack, CallSoftware PhaseSoftwareCold t, CallSoftware PhaseSoftwareWarm t',
     if b then CallCleanup ps tn else CallCleanupAsync ps' tn'] =
   [PhaseSoftwareUnpack, PhaseSoftwareCold, PhaseSoftwareWarm]"
  by (simp_all add: call_phases_def act_kind_simps)

text \<open>The blocks of equal phases in the plan of everything.\<close>

definition all_blocks :: "(phase \<times> nat) list" where
  "all_blocks =
    [(PhaseSoftwareUnpack, 1), (PhaseSoftwareCold, 1), (PhaseSoftwareWarm, 1), (PhaseGitClone, 2),
     (PhaseUntar, 2), (PhaseCreate, 10), (PhaseDelete, 11), (PhaseWriteBW, 10), (PhaseReadBW, 10),
     (PhaseReadWrite, 10), (PhaseRIOPS, 1), (PhaseFinalDelete, 11)]"

lemma filter_Cons_append: "filter P (x # xs) = (if P x then [x] else []) @ filter P xs"
  by simp

lemma if_append_cong: "(if b then xs @ ys else []) = (if b then xs else []) @ (if b then ys else [])"
  by simp

lemma selected_optional:
  "PhaseSelected c PhaseGitClone \<Longrightarrow> GitCloneEnabled c" "PhaseSelected c PhaseUntar \<Longrightarrow> UntarEnabled c"
  "PhaseSelected c PhaseSoftwareCold \<Longrightarrow> SoftwareEnabled c"
  by (auto simp: PhaseSelected_iff EffectivePhaseOrder_def PhaseOrder_def split: if_splits)

lemma run_flags:
  "run_git c = PhaseSelected c PhaseGitClone" "run_untar c = PhaseSelected c PhaseUntar"
  "run_software c = PhaseSelected c PhaseSoftwareCold"
  using selected_optional [of c] by (auto simp: run_git_def run_untar_def run_software_def)

lemma config_normal_group:
  assumes "config_normal c" "q \<in> set (PhaseToggleGroup p)"
  shows "PhaseSelected c q = PhaseSelected c p"
proof -
  have "p \<in> set (PhaseToggleGroup q)" using assms(2) by (simp add: toggle_group_sym)
  with assms Effective_group_closed [OF assms(2), of c] show ?thesis
    unfolding PhaseSelected_iff PhaseDisabled_def config_normal_def by blast
qed

lemma software_group_selected:
  "config_normal c \<Longrightarrow> PhaseSelected c PhaseSoftwareUnpack = PhaseSelected c PhaseSoftwareCold"
  "config_normal c \<Longrightarrow> PhaseSelected c PhaseSoftwareWarm = PhaseSelected c PhaseSoftwareCold"
  by (rule config_normal_group; simp add: PhaseToggleGroup_def)+

lemma call_phases_blocks:
  assumes "config_normal c"
  shows "call_phases (run_calls c n) =
    concat (map (\<lambda>(p, k). replicate k p) (filter (\<lambda>b. PhaseSelected c (fst b)) all_blocks))"
proof -
  have rep: "concat (map (\<lambda>(p, k). replicate k p) (if b then [(q, j)] else [])) =
      (if b then replicate j q else [])" for b j and q :: phase
    by simp
  have soft: "call_phases (software_calls c) =
      (if PhaseSelected c PhaseSoftwareUnpack then [PhaseSoftwareUnpack] else []) @
      (if PhaseSelected c PhaseSoftwareCold then [PhaseSoftwareCold] else []) @
      (if PhaseSelected c PhaseSoftwareWarm then [PhaseSoftwareWarm] else []) @
      (if PhaseSelected c PhaseGitClone then [PhaseGitClone, PhaseGitClone] else []) @
      (if PhaseSelected c PhaseUntar then [PhaseUntar, PhaseUntar] else [])"
    unfolding software_calls_def run_flags call_phases_append call_phases_if call_phases_single
      software_group_selected [OF assms]
    by (simp only: if_cancel append_Nil2) (simp split: if_split)
  show ?thesis
    unfolding run_calls_def Let_def call_phases_append soft call_phases_if call_phases_single
      call_phases_ramp all_blocks_def filter_Cons_append fst_conv map_append concat_append rep
    by (simp add: numeral_eq_Suc if_append_cong del: if_append_cong)
qed

text \<open>Collapsing runs of equal neighbours in blocks with distinct heads.\<close>

lemma remdups_adj_blocks:
  "distinct (map fst bs) \<Longrightarrow> \<forall>b \<in> set bs. 0 < snd b \<Longrightarrow>
   remdups_adj (concat (map (\<lambda>(p, k). replicate k p) bs)) = map fst bs"
proof (induction bs)
  case (Cons b bs)
  obtain p k where b: "b = (p, Suc k)" using Cons.prems(2) by (cases b) (auto simp: gr0_conv_Suc)
  let ?rest = "concat (map (\<lambda>(p, k). replicate k p) bs)"
  have rest: "remdups_adj ?rest = map fst bs" using Cons by simp
  have "p \<notin> set ?rest" using Cons.prems(1) b by force
  then have "remdups_adj (replicate (Suc k) p @ ?rest) = p # remdups_adj ?rest"
    by (rule remdups_adj_replicate_append)
  with rest show ?case by (simp add: b)
qed simp

text \<open>
  C7. The phases a complete run goes through, in order and without repetition, are exactly the
  active phases of its configuration in plan order: no enabled phase is skipped, no disabled one
  is run, the software phases come first and the final delete last.
\<close>

theorem run_follows_ActivePhaseOrder:
  assumes "config_normal cfg"
  shows "remdups_adj (act_phases (plan_acts cfg n)) = ActivePhaseOrder cfg"
proof -
  let ?bs = "filter (\<lambda>b. PhaseSelected cfg (fst b)) all_blocks"
  have "remdups_adj (act_phases (plan_acts cfg n)) = map fst ?bs"
    unfolding plan_phases call_phases_blocks [OF assms]
    by (intro remdups_adj_blocks distinct_map_filter) (auto simp: all_blocks_def)
  also have "\<dots> = filter (PhaseSelected cfg) (map fst all_blocks)"
    by (simp add: filter_map comp_def)
  also have "\<dots> = filter (PhaseSelected cfg) (EffectivePhaseOrder cfg)"
    using selected_optional [of cfg] software_group_selected [OF assms]
    by (auto simp: all_blocks_def EffectivePhaseOrder_def PhaseOrder_def)
  also have "\<dots> = ActivePhaseOrder cfg"
    using set_Disabled_Normalize_normal [OF assms]
    by (auto simp: ActivePhaseOrder_def Let_def PhaseSelected_iff PhaseDisabled_def intro!: filter_cong)
  finally show ?thesis .
qed

lemma run_follows_ActivePhaseOrder_witness:
  "remdups_adj (act_phases (plan_acts (NormalizeDisabledPhases DefaultConfig) 3)) =
   ActivePhaseOrder (NormalizeDisabledPhases DefaultConfig)"
  by (rule run_follows_ActivePhaseOrder [OF config_normal_Normalize])


section \<open>At which rates\<close>

definition call_commands :: "Config \<Rightarrow> run_call list \<Rightarrow> PhaseCommand list" where
  "call_commands cfg cs = act_commands (concat (map (call_acts cfg) cs))"

lemma call_commands_append [simp]:
  "call_commands cfg (xs @ ys) = call_commands cfg xs @ call_commands cfg ys"
  by (simp add: call_commands_def)

lemma call_commands_if: "call_commands cfg (if b then xs else []) = (if b then call_commands cfg xs else [])"
  by (simp add: call_commands_def act_commands_def map_filter_simps)

lemma call_commands_simps:
  "call_commands cfg [] = []"
  "call_commands cfg (CallSend ph pct r1 r2 sz step # cs) =
     send_command cfg ph pct r1 r2 sz step # call_commands cfg cs"
  "call_commands cfg (CallSoftware ph t # cs) = software_command cfg ph t # call_commands cfg cs"
  "call_commands cfg (CallFinalCleanup # cs) = cleanup_command cfg # call_commands cfg cs"
  "call_commands cfg (CallCleanup ps tn # cs) = call_commands cfg cs"
  "call_commands cfg (CallCleanupAsync ps tn # cs) = call_commands cfg cs"
  "call_commands cfg (CallPrepare k # cs) = call_commands cfg cs"
  by (simp_all add: call_commands_def act_kind_simps) (cases k; simp add: act_kind_simps)

lemma call_commands_ramp:
  "call_commands cfg (runRamp ph r sz step) =
    map (\<lambda>pct. send_command cfg ph pct (r * of_int pct / 100) 0 sz step) RampPercents"
  "call_commands cfg (runRamp2 ph r1 r2 sz step) =
    map (\<lambda>pct. send_command cfg ph pct (r1 * of_int pct / 100) (r2 * of_int pct / 100) sz step) RampPercents"
  by (simp_all add: runRamp_def runRamp2_def RampPercents_def call_commands_simps)

lemma plan_commands: "act_commands (plan_acts cfg n) = call_commands cfg (run_calls cfg n)"
  by (simp add: plan_acts_def call_commands_def)

text \<open>What the whole fleet is meant to do in a step of a phase, from the configuration.\<close>

fun fleet_rate :: "Config \<Rightarrow> phase \<Rightarrow> float64" where
  "fleet_rate c PhaseCreate = FileCreationRate c"
| "fleet_rate c PhaseDelete = FileDeletionRate c"
| "fleet_rate c PhaseFinalDelete = FileDeletionRate c"
| "fleet_rate c PhaseWriteBW = FileWriteBandwidth c"
| "fleet_rate c PhaseReadBW = FileReadBandwidth c"
| "fleet_rate c PhaseReadWrite = FileWriteBandwidth c"
| "fleet_rate c PhaseRIOPS = max 0 (RandomWriteIOPS c)"
| "fleet_rate c _ = 0"

fun fleet_read_rate :: "Config \<Rightarrow> phase \<Rightarrow> float64" where
  "fleet_read_rate c PhaseReadWrite = FileReadBandwidth c"
| "fleet_read_rate c PhaseRIOPS = max 0 (RandomReadIOPS c)"
| "fleet_read_rate c _ = 0"

text \<open>A command of the forced wipe carries no rate.\<close>

definition shares_fleet_rate :: "Config \<Rightarrow> int \<Rightarrow> PhaseCommand \<Rightarrow> bool" where
  "shares_fleet_rate cfg n cmd \<longleftrightarrow>
    (if pcForceCleanup cmd then pcRate cmd = 0 \<and> pcReadRate cmd = 0
     else of_int n * pcRate cmd = fleet_rate cfg (pcPhase cmd) * of_int (pcPercent cmd) / 100 \<and>
          of_int n * pcReadRate cmd = fleet_read_rate cfg (pcPhase cmd) * of_int (pcPercent cmd) / 100)"

lemma perClient_share: "1 \<le> n \<Longrightarrow> of_int n * perClient g n = g"
  by (simp add: perClient_def)

lemma shares_send:
  assumes "of_int n * wr = fleet_rate cfg ph" "of_int n * rr = fleet_read_rate cfg ph"
  shows "shares_fleet_rate cfg n (send_command cfg ph pct (wr * of_int pct / 100) (rr * of_int pct / 100) sz step)"
proof -
  have "of_int n * (r * of_int pct / 100) = of_int n * r * of_int pct / 100" for r :: rat by simp
  with assms show ?thesis
    by (simp add: shares_fleet_rate_def send_command_def zero_PhaseCommand_def del: mult.assoc)
qed

lemmas shares_ramp = shares_send [where rr = 0, simplified]
lemmas shares_full = shares_send [where pct = 100, simplified]
lemmas shares_full_ramp = shares_send [where pct = 100 and rr = 0, simplified]

lemma shares_others:
  "ph \<in> {PhaseSoftwareCold, PhaseSoftwareWarm, PhaseGitClone, PhaseUntar} \<Longrightarrow>
   shares_fleet_rate cfg n (software_command cfg ph t)"
  "shares_fleet_rate cfg n (cleanup_command cfg)"
  by (auto simp: shares_fleet_rate_def software_command_def cleanup_command_def zero_PhaseCommand_def)

text \<open>
  C8. In every command of a run with \<open>n\<close> participants, \<open>n\<close> times the rate of the command is the
  configured rate of the fleet for the phase times the step's percentage: the clients together are
  asked for exactly the configured load, reads and writes alike, and a random-I/O ceiling that is
  not set stays 0.
\<close>

theorem commands_share_the_fleet_rate:
  assumes "1 \<le> n"
  shows "list_all (shares_fleet_rate cfg n) (act_commands (plan_acts cfg n))"
proof -
  have if_all: "list_all Q (if b then xs else []) = (b \<longrightarrow> list_all Q xs)" for Q b and xs :: "PhaseCommand list"
    by simp
  have riops: "of_int n * (if 0 < g then perClient g n else 0) = max 0 g" for g
    using assms by (simp add: perClient_share max_def)
  have soft: "list_all (shares_fleet_rate cfg n) (call_commands cfg (software_calls cfg))"
    unfolding software_calls_def call_commands_append call_commands_if call_commands_simps
    by (simp add: shares_others call_commands_simps split: if_split)
  note share = perClient_share [OF assms]
  show ?thesis
    unfolding plan_commands run_calls_def Let_def call_commands_append call_commands_if
      call_commands_ramp call_commands_simps list_all_append if_all list.pred_inject list.pred_map comp_def
    by (intro conjI impI soft shares_others TrueI; simp add: shares_ramp shares_send shares_full
        shares_full_ramp share riops list_all_iff)
qed


lemma commands_share_the_fleet_rate_witness:
  "list_all (shares_fleet_rate DefaultConfig 3) (act_commands (plan_acts DefaultConfig 3))"
  by (rule commands_share_the_fleet_rate) simp

section \<open>The ladder of a phase\<close>

fun ladder :: "phase \<Rightarrow> int list" where
  "ladder PhaseCreate = RampPercents"
| "ladder PhaseDelete = RampPercents @ [100]"
| "ladder PhaseWriteBW = RampPercents"
| "ladder PhaseReadBW = RampPercents"
| "ladder PhaseReadWrite = RampPercents"
| "ladder PhaseFinalDelete = RampPercents @ [100]"
| "ladder PhaseSoftwareUnpack = []"
| "ladder _ = [100]"

definition percents :: "phase \<Rightarrow> PhaseCommand list \<Rightarrow> int list" where
  "percents ph cmds = map pcPercent (filter (\<lambda>c. pcPhase c = ph) cmds)"

lemma percents_append [simp]: "percents ph (xs @ ys) = percents ph xs @ percents ph ys"
  by (simp add: percents_def)

lemma percents_if: "percents ph (if b then xs else []) = (if b then percents ph xs else [])"
  by (simp add: percents_def)

lemma percents_single:
  "percents ph [] = []"
  "percents ph (send_command cfg q pct wr rr sz step # cs) = (if q = ph then [pct] else []) @ percents ph cs"
  "percents ph (software_command cfg q t # cs) = (if q = ph then [100] else []) @ percents ph cs"
  "percents ph (cleanup_command cfg # cs) = (if PhaseFinalDelete = ph then [100] else []) @ percents ph cs"
  by (simp_all add: percents_def send_command_def software_command_def cleanup_command_def)

lemma percents_ramp:
  "percents ph (map (\<lambda>pct. send_command cfg q pct (f pct) (g pct) sz step) xs) = (if q = ph then xs else [])"
  by (induction xs) (simp_all add: percents_single)

lemma not_planned: "ph \<in> {PhaseIdle, PhaseStopped, PhaseOther s} \<Longrightarrow> \<not> PhaseSelected c ph"
  by (auto simp: PhaseSelected_iff EffectivePhaseOrder_def PhaseOrder_def split: if_splits)

lemma software_percents:
  "percents ph (call_commands cfg (software_calls cfg)) =
    (if ph \<in> {PhaseSoftwareCold, PhaseSoftwareWarm} \<and> PhaseSelected cfg PhaseSoftwareCold \<or>
        ph \<in> {PhaseGitClone, PhaseUntar} \<and> PhaseSelected cfg ph then [100] else [])"
  unfolding software_calls_def run_flags call_commands_append call_commands_if percents_append percents_if
  by (simp add: call_commands_simps percents_single)

text \<open>
  C22. A complete run sends each selected phase exactly its ladder of percentages in order (ten
  steps for the ramps, a further full sweep for the deletes, one full step for the others) and an
  unselected phase nothing; the last command of a run with a final delete is the forced wipe.
\<close>

theorem run_sends_each_ladder:
  assumes "config_normal cfg"
  shows "percents ph (act_commands (plan_acts cfg n)) = (if PhaseSelected cfg ph then ladder ph else []) \<and>
    (\<not> PhaseSelected cfg PhaseFinalDelete \<or> last (act_commands (plan_acts cfg n)) = cleanup_command cfg)"
proof
  show "percents ph (act_commands (plan_acts cfg n)) = (if PhaseSelected cfg ph then ladder ph else [])"
    unfolding plan_commands run_calls_def Let_def call_commands_append call_commands_if
      call_commands_ramp call_commands_simps percents_append percents_if percents_ramp percents_single
      software_percents
    using software_group_selected [OF assms] not_planned [of ph _ cfg]
    by (cases ph) simp_all
  show "\<not> PhaseSelected cfg PhaseFinalDelete \<or> last (act_commands (plan_acts cfg n)) = cleanup_command cfg"
    unfolding plan_commands run_calls_def Let_def call_commands_append call_commands_if
      call_commands_simps by simp
qed

lemma run_sends_each_ladder_witness:
  "percents PhaseDelete (act_commands (plan_acts (NormalizeDisabledPhases DefaultConfig) 3)) =
    (if PhaseSelected (NormalizeDisabledPhases DefaultConfig) PhaseDelete then ladder PhaseDelete else [])"
  using run_sends_each_ladder [OF config_normal_Normalize, of PhaseDelete DefaultConfig 3] by (rule conjunct1)

section \<open>The wait for idle clients\<close>

lemma poll_scan_eq:
  "poll_scan want st saw =
    (\<forall>cid \<in> set want. st cid = None \<or> st cid = Some ''idle'',
     \<exists>cid \<in> set want. st cid = Some ''running'',
     int (length (filter (\<lambda>cid. st cid \<noteq> None) want)),
     saw \<or> (\<exists>cid \<in> set want. st cid = Some ''running''))"
proof -
  have "foldl (\<lambda>(allIdle, anyRunning, seen, saw) cid.
        case st cid of
          None \<Rightarrow> (allIdle, anyRunning, seen, saw)
        | Some x \<Rightarrow>
            if x = ''running'' then (False, True, seen + 1, True)
            else if x = ''idle'' then (allIdle, anyRunning, seen + 1, saw)
            else (False, anyRunning, seen + 1, saw)) (a, b, k, s) want =
      (a \<and> (\<forall>cid \<in> set want. st cid = None \<or> st cid = Some ''idle''),
       b \<or> (\<exists>cid \<in> set want. st cid = Some ''running''),
       k + int (length (filter (\<lambda>cid. st cid \<noteq> None) want)),
       s \<or> (\<exists>cid \<in> set want. st cid = Some ''running''))" for a b k s
    by (induction want arbitrary: a b k s) (auto split: option.split)
  from this [of True False 0 saw] show ?thesis by (simp add: poll_scan_def)
qed

text \<open>
  The wait for the participants returns at the first poll after the deadline, and before it
  only when every participant is registered and idle, and either one was seen running during the
  wait or two seconds have passed since the grace period; and it does return then.
\<close>

theorem wait_poll_returns:
  "wait_poll now deadline grace want statuses saw = None \<longleftrightarrow>
    now > deadline \<or>
    ((\<forall>cid \<in> set want. statuses cid = Some ''idle'') \<and> (saw \<or> now - grace > 2 * Second))"
proof -
  have len: "int (length (filter (\<lambda>cid. statuses cid \<noteq> None) want)) < int (length want) \<longleftrightarrow>
      \<not> (\<forall>cid \<in> set want. statuses cid \<noteq> None)"
    by (metis (mono_tags, lifting) filter_True length_filter_less less_irrefl of_nat_less_iff)
  define quiet where "quiet \<longleftrightarrow> (\<forall>cid \<in> set want. statuses cid = None \<or> statuses cid = Some ''idle'')"
  define busy where "busy \<longleftrightarrow> (\<exists>cid \<in> set want. statuses cid = Some ''running'')"
  define here where "here \<longleftrightarrow> (\<forall>cid \<in> set want. statuses cid \<noteq> None)"
  have idle: "(\<forall>cid \<in> set want. statuses cid = Some ''idle'') \<longleftrightarrow> quiet \<and> here"
    unfolding quiet_def here_def by (metis option.distinct(1))
  have "\<not> (quiet \<and> busy)"
    unfolding quiet_def busy_def by (auto dest!: bspec)
  moreover have "now > grace" if "now - grace > 2 * Second" using that by (simp add: Second_def)
  ultimately show ?thesis
    unfolding idle wait_poll_def poll_scan_eq prod.case len quiet_def [symmetric]
      busy_def [symmetric] here_def [symmetric] by auto
qed

lemma wait_poll_returns_witness:
  "wait_poll 5 10 3 [''c1''] [''c1'' \<mapsto> ''idle''] True = None"
  using wait_poll_returns [of 5 10 3 "[''c1'']" "[''c1'' \<mapsto> ''idle'']" True] by simp

end
