(* ===== verification/RunSystem.thy ===== *)
theory RunSystem
  imports RunPlan
begin

text \<open>
  The orchestrator among its callers: one run goroutine, the goroutines that finish a \<open>Stop\<close> or an
  \<open>OnClientRemoved\<close> after the unlock, and the handlers that call the methods, interleaved action
  by action. A step is one action of one goroutine (at most one critical section of the lock) or
  one call of a method; the clock never goes back. The lemmas are invariants of every reachable
  state, and two traces show what the interleaving and the early returns allow.
\<close>

section \<open>Executing one action\<close>

text \<open>An early return: everything up to the deferred function is dropped.\<close>

definition early_return :: "act list \<Rightarrow> act list" where [go_eval]:
  "early_return as = dropWhile (\<lambda>a. a \<noteq> ADefer) as"

definition end_text :: "bool \<Rightarrow> Orchestrator \<Rightarrow> string" where [go_eval]:
  "end_text cancelled o1 =
    (if oFailMessage o1 \<noteq> [] then ''FAILED RUN'' else if cancelled then ''Stopped'' else ''Completed'')"

definition wanted :: "Orchestrator \<Rightarrow> string list" where [go_eval]:
  "wanted o1 = (case oRunClientSet o1 of Some s \<Rightarrow> s | None \<Rightarrow> [])"

text \<open>
  \<open>cancelled\<close> says whether the goroutine's context is done; \<open>choice\<close> is the outcome of a
  preparation, or the branch a \<open>select\<close> takes: \<open>True\<close> the timer or tick, \<open>False\<close> the context. The
  result is the new state, what is left to do, and the goroutines started; \<open>None\<close> means that the
  action is not possible now.
\<close>

fun exec :: "time \<Rightarrow> bool \<Rightarrow> bool \<Rightarrow> Orchestrator \<Rightarrow> act list \<Rightarrow>
    (Orchestrator \<times> act list \<times> act list list) option" where
  "exec now cancelled choice o1 [] = None"
| "exec now cancelled choice o1 (ABegin # as) =
     Some (o1\<lparr>oMetrics := Begin (oMetrics o1)\<rparr>, as, [])"
| "exec now cancelled choice o1 (AFreeze # as) =
     Some (o1\<lparr>oMetrics := Freeze now (oMetrics o1)\<rparr>, as, [])"
| "exec now cancelled choice o1 (ACancel ctx # as) = Some (o1, as, [])"
| "exec now cancelled choice o1 (ABroadcastTo ids env # as) = Some (send (BroadcastTo ids env) o1, as, [])"
| "exec now cancelled choice o1 (ABroadcastRun env # as) = Some (broadcastRun env o1, as, [])"
| "exec now cancelled choice o1 (ARemoveTrees ps tn # as) = Some (cleanupSoftware ps tn o1, as, [])"
| "exec now cancelled choice o1 (ACall c # as) =
     Some (o1, call_acts (oCfg o1) c @ as,
           case c of CallCleanupAsync ps tn \<Rightarrow> [[ARemoveTrees ps tn]] | _ \<Rightarrow> [])"
| "exec now cancelled choice o1 (ASetPhase ph pct txt # as) = Some (setPhase now ph pct txt o1, as, [])"
| "exec now cancelled choice o1 (APrepare k # as) =
     Some (if choice then (o1, as, [])
           else (send (LogFailure (prepare_failed k)) o1, early_return as, []))"
| "exec now cancelled choice o1 (AWait d # as) = Some (o1, ATimer (now + d) # as, [])"
| "exec now cancelled choice o1 (ATimer t # as) =
     (if choice then (if t \<le> now then Some (o1, as, []) else None)
      else (if cancelled then Some (o1, early_return as, []) else None))"
| "exec now cancelled choice o1 (AWaitIdle timeout # as) =
     Some (o1, APoll (now + timeout) (now + grace_period) False (wanted o1) (oRunClientIDs o1) # as, [])"
| "exec now cancelled choice o1 (APoll deadline grace saw want ids # as) =
     (if choice then
        Some (case wait_poll now deadline grace want (Statuses ids (oRegistry o1)) saw of
                None \<Rightarrow> (o1, as, [])
              | Some saw' \<Rightarrow> (o1, APoll deadline grace saw' want ids # as, []))
      else (if cancelled then Some (o1, early_return as, []) else None))"
| "exec now cancelled choice o1 (ADefer # as) =
     Some (o1, [AFreeze, AFinish (end_text cancelled o1)] @ as, [])"
| "exec now cancelled choice o1 (AFinish txt # as) = Some (finish now txt o1, as, [])"

section \<open>The system\<close>

record System =
  sOrch :: Orchestrator
  sRun :: "act list"
  sCtx :: nat
  sCancelled :: "nat list"
  sNext :: nat
  sOthers :: "act list list"
  sNow :: time

datatype event =
    EvRun bool
  | EvOther nat bool
  | EvStart
  | EvStop
  | EvRemoved string string
  | EvRegistered string
  | EvSelect "string list"
  | EvParticipants ParticipantUpdate
  | EvConfig Config
  | EvPhase phase bool
  | EvFiles int64
  | EvRegistry Registry
  | EvSample MetricSample
  | EvMetrics metrics_event

text \<open>A failed call leaves the state.\<close>

definition keep :: "orch_error + Orchestrator \<Rightarrow> Orchestrator \<Rightarrow> Orchestrator" where [go_eval]:
  "keep r o1 = (case r of Inl e \<Rightarrow> o1 | Inr o2 \<Rightarrow> o2)"

definition step_run :: "time \<Rightarrow> bool \<Rightarrow> System \<Rightarrow> System" where [go_eval]:
  "step_run now choice s =
    (case exec now (sCtx s \<in> set (sCancelled s)) choice (sOrch s) (sRun s) of
       None \<Rightarrow> s
     | Some (o2, as, new) \<Rightarrow> s\<lparr>sOrch := o2, sRun := as, sOthers := sOthers s @ new\<rparr>)"

definition step_other :: "time \<Rightarrow> nat \<Rightarrow> bool \<Rightarrow> System \<Rightarrow> System" where [go_eval]:
  "step_other now i choice s =
    (if i < length (sOthers s) then
       (case exec now False choice (sOrch s) (sOthers s ! i) of
          None \<Rightarrow> s
        | Some (o2, as, new) \<Rightarrow>
            s\<lparr>sOrch := o2, sOthers := (sOthers s)[i := as] @ new,
              sCancelled := (case sOthers s ! i of ACancel ctx # _ \<Rightarrow> ctx # sCancelled s | _ \<Rightarrow> sCancelled s)\<rparr>)
     else s)"

text \<open>A call that unlocks and goes on leaves its remaining actions as a goroutine.\<close>

definition spawn :: "Orchestrator \<times> act list \<Rightarrow> System \<Rightarrow> System" where [go_eval]:
  "spawn r s = s\<lparr>sOrch := fst r, sOthers := sOthers s @ [snd r]\<rparr>"

definition step_start :: "time \<Rightarrow> System \<Rightarrow> System" where [go_eval]:
  "step_start now s =
    (case Start now (sNext s) (sOrch s) of
       Inl e \<Rightarrow> s
     | Inr (o2, as) \<Rightarrow> s\<lparr>sOrch := o2, sRun := as, sCtx := sNext s, sNext := sNext s + 1\<rparr>)"

definition on_orch :: "(Orchestrator \<Rightarrow> Orchestrator) \<Rightarrow> System \<Rightarrow> System" where [go_eval]:
  "on_orch f s = s\<lparr>sOrch := f (sOrch s)\<rparr>"

fun event_step :: "time \<Rightarrow> event \<Rightarrow> System \<Rightarrow> System" where
  "event_step now (EvRun choice) s = step_run now choice s"
| "event_step now (EvOther i choice) s = step_other now i choice s"
| "event_step now EvStart s = step_start now s"
| "event_step now EvStop s = spawn (Stop now (sOrch s)) s"
| "event_step now (EvRemoved cid host) s = spawn (OnClientRemoved now cid host (sOrch s)) s"
| "event_step now (EvRegistered cid) s = on_orch (OnClientRegistered cid) s"
| "event_step now (EvSelect ids) s = on_orch (\<lambda>o1. keep (SetSelectedClients ids o1) o1) s"
| "event_step now (EvParticipants u) s = on_orch (\<lambda>o1. keep (UpdateParticipants u o1) o1) s"
| "event_step now (EvConfig cfg) s = on_orch (\<lambda>o1. keep (SetConfig cfg o1) o1) s"
| "event_step now (EvPhase ph en) s = on_orch (\<lambda>o1. snd (SetPhaseEnabled ph en o1)) s"
| "event_step now (EvFiles n) s = on_orch (UpdateClientFiles n) s"
| "event_step now (EvRegistry r) s = on_orch (\<lambda>o1. o1\<lparr>oRegistry := r\<rparr>) s"
| "event_step now (EvSample x) s = on_orch (\<lambda>o1. o1\<lparr>oMetrics := Add_sample x (oMetrics o1)\<rparr>) s"
| "event_step now (EvMetrics e) s = on_orch (\<lambda>o1. o1\<lparr>oMetrics := metrics_step (oMetrics o1) e\<rparr>) s"

definition sys_step :: "time \<Rightarrow> event \<Rightarrow> System \<Rightarrow> System" where [go_eval]:
  "sys_step now e s = (event_step now e s)\<lparr>sNow := now\<rparr>"

definition sys_init :: "load_result \<Rightarrow> string \<Rightarrow> string \<Rightarrow> time \<Rightarrow> System" where [go_eval]:
  "sys_init loaded path host now =
    \<lparr>sOrch = NewOrchestrator loaded path host NewRegistry NewMetricsStore, sRun = [], sCtx = 0,
     sCancelled = [], sNext = 1, sOthers = [], sNow = now\<rparr>"

inductive reachable :: "System \<Rightarrow> bool" where
  init: "reachable (sys_init loaded path host now)"
| step: "reachable s \<Longrightarrow> sNow s \<le> now \<Longrightarrow> reachable (sys_step now e s)"

text \<open>A trace for the evaluation of examples: events with their times.\<close>

definition run_trace :: "(time \<times> event) list \<Rightarrow> System \<Rightarrow> System" where [go_eval]:
  "run_trace es s = foldl (\<lambda>s (now, e). sys_step now e s) s es"

lemma reachable_trace:
  "reachable s \<Longrightarrow> sorted (sNow s # map fst es) \<Longrightarrow> reachable (run_trace es s)"
proof (induction es arbitrary: s)
  case (Cons te es)
  obtain t e where te: "te = (t, e)" by (cases te)
  have "reachable (sys_step t e s)" using Cons.prems te by (intro reachable.step) simp_all
  moreover have "sNow (sys_step t e s) = t" by (simp add: sys_step_def)
  ultimately have "reachable (run_trace es (sys_step t e s))"
    using Cons.prems(2) te by (intro Cons.IH) simp_all
  then show ?case by (simp add: run_trace_def te)
qed (simp add: run_trace_def)


section \<open>The run token\<close>

text \<open>
  While a run is on, exactly one goroutine carries it: the actions of the body followed by the
  deferred function, or what the deferred function left. The other goroutines only cancel a
  context, tell the participants to stop, freeze the metrics and remove trees.
\<close>

fun working :: "act \<Rightarrow> bool" where
  "working ABegin = False"
| "working AFreeze = False"
| "working (ABroadcastTo ids env) = False"
| "working (ABroadcastRun env) = (envType env = ''command'')"
| "working (ACancel ctx) = False"
| "working ADefer = False"
| "working (AFinish txt) = False"
| "working _ = True"

fun quiet :: "act \<Rightarrow> bool" where
  "quiet AFreeze = True"
| "quiet (ACancel ctx) = True"
| "quiet (ABroadcastRun env) = (env = stop_envelope)"
| "quiet (ARemoveTrees ps tn) = True"
| "quiet _ = False"

inductive run_shape :: "act list \<Rightarrow> bool" where
  starting: "list_all working as \<Longrightarrow>
    run_shape (ABegin # ABroadcastTo ids (interval_envelope d) # as @ [ADefer])"
| announcing: "list_all working as \<Longrightarrow> run_shape (ABroadcastTo ids (interval_envelope d) # as @ [ADefer])"
| body: "list_all working as \<Longrightarrow> run_shape (as @ [ADefer])"
| freezing: "run_shape [AFreeze, AFinish txt]"
| finishing: "run_shape [AFinish txt]"

inductive_cases run_shapeE: "run_shape as"

definition spans_closed :: "PhaseSpan list \<Rightarrow> bool" where
  "spans_closed spans \<longleftrightarrow> (\<forall>p \<in> set spans. psEnd p \<noteq> None)"

text \<open>The fields an idle orchestrator leaves at their rest values.\<close>

definition at_rest :: "Orchestrator \<Rightarrow> bool" where
  "at_rest o1 \<longleftrightarrow>
    oRunClientIDs o1 = [] \<and> oRunClientSet o1 = None \<and> oMetricsInterval o1 = 0 \<and>
    oFailMessage o1 = [] \<and> oCancel o1 = None \<and> oPhase o1 = PhaseIdle \<and> oPercent o1 = 0 \<and>
    \<not> mRecording (oMetrics o1)"

definition run_ok :: "Orchestrator \<Rightarrow> act list \<Rightarrow> bool" where
  "run_ok o1 as \<longleftrightarrow>
    (if oRunning o1
     then run_shape as \<and> oRunClientSet o1 = Some (oRunClientIDs o1) \<and> oRunClientIDs o1 \<noteq> [] \<and>
       (\<forall>txt. as = [AFinish txt] \<longrightarrow> \<not> mRecording (oMetrics o1))
     else as = [] \<and> at_rest o1)"

text \<open>
  What the run depends on. An operation that keeps these fields, and does not turn the recording
  on, keeps everything that is said of the run: this is the contract of every method that may be
  called while a run is on.
\<close>

definition run_core :: "Orchestrator \<Rightarrow> bool \<times> Config \<times> string list \<times> string list option \<times> duration" where
  "run_core o1 = (oRunning o1, oCfg o1, oRunClientIDs o1, oRunClientSet o1, oMetricsInterval o1)"

text \<open>The effects since the last run was announced to its participants.\<close>

fun is_interval :: "effect \<Rightarrow> bool" where
  "is_interval (BroadcastTo ids env) = (envType env = ''metrics_interval'')"
| "is_interval _ = False"

fun effect_command :: "effect \<Rightarrow> PhaseCommand option" where
  "effect_command (BroadcastTo ids env) = envCommand env"
| "effect_command _ = None"

fun is_failure :: "effect \<Rightarrow> bool" where
  "is_failure (LogFailure txt) = True"
| "is_failure _ = False"

definition run_log :: "effect list \<Rightarrow> effect list" where [go_eval]:
  "run_log xs = rev (takeWhile (\<lambda>x. \<not> is_interval x) (rev xs))"

definition sent_commands :: "Orchestrator \<Rightarrow> PhaseCommand list" where [go_eval]:
  "sent_commands o1 = List.map_filter effect_command (run_log (oSent o1))"

definition prep_failed :: "Orchestrator \<Rightarrow> bool" where [go_eval]:
  "prep_failed o1 = list_ex is_failure (run_log (oSent o1))"

locale run_neutral =
  fixes f :: "Orchestrator \<Rightarrow> Orchestrator"
  assumes core: "oRunning o1 \<Longrightarrow> run_core (f o1) = run_core o1"
    and running: "oRunning (f o1) = oRunning o1"
    and rest: "\<not> oRunning o1 \<Longrightarrow> at_rest o1 \<Longrightarrow> at_rest (f o1)"
    and recording: "mRecording (oMetrics (f o1)) \<Longrightarrow> mRecording (oMetrics o1)"
    and sent: "oRunning o1 \<Longrightarrow> sent_commands (f o1) = sent_commands o1 \<and> prep_failed (f o1) = prep_failed o1"
    and fail: "oFailMessage o1 \<noteq> [] \<Longrightarrow> oFailMessage (f o1) = oFailMessage o1"
begin

lemma run_ok: "run_ok o1 as \<Longrightarrow> run_ok (f o1) as"
  using core [of o1] running [of o1] rest [of o1] recording [of o1]
  by (auto simp: run_ok_def run_core_def split: if_splits)

lemma core_fields:
  "oRunning o1 \<Longrightarrow> oCfg (f o1) = oCfg o1" "oRunning o1 \<Longrightarrow> oRunClientIDs (f o1) = oRunClientIDs o1"
  "oRunning o1 \<Longrightarrow> oRunClientSet (f o1) = oRunClientSet o1"
  "oRunning o1 \<Longrightarrow> oMetricsInterval (f o1) = oMetricsInterval o1"
  using core [of o1] by (auto simp: run_core_def)

end

lemma run_log_snoc: "run_log (xs @ [x]) = (if is_interval x then [] else run_log xs @ [x])"
  by (simp add: run_log_def)

lemma send_simps [simp]:
  "oRunning (send x o1) = oRunning o1" "oCfg (send x o1) = oCfg o1"
  "oRunClientIDs (send x o1) = oRunClientIDs o1" "oRunClientSet (send x o1) = oRunClientSet o1"
  "oMetricsInterval (send x o1) = oMetricsInterval o1" "oMetrics (send x o1) = oMetrics o1"
  "oFailMessage (send x o1) = oFailMessage o1" "oCancel (send x o1) = oCancel o1"
  "oPhase (send x o1) = oPhase o1" "oPercent (send x o1) = oPercent o1"
  "oPhaseSpans (send x o1) = oPhaseSpans o1" "oStatusText (send x o1) = oStatusText o1"
  "oStartedAt (send x o1) = oStartedAt o1" "at_rest (send x o1) = at_rest o1"
  by (simp_all add: send_def at_rest_def)

lemma sent_commands_send:
  "\<not> is_interval x \<Longrightarrow>
   sent_commands (send x o1) = sent_commands o1 @ (case effect_command x of None \<Rightarrow> [] | Some c \<Rightarrow> [c])"
  "\<not> is_interval x \<Longrightarrow> prep_failed (send x o1) = (prep_failed o1 \<or> is_failure x)"
  by (auto simp: sent_commands_def prep_failed_def send_def run_log_snoc map_filter_simps split: option.split)

lemma sent_commands_interval:
  "is_interval x \<Longrightarrow> sent_commands (send x o1) = []" "is_interval x \<Longrightarrow> prep_failed (send x o1) = False"
  by (simp_all add: sent_commands_def prep_failed_def send_def run_log_snoc map_filter_simps)

lemma sent_frame:
  "oSent o2 = oSent o1 \<Longrightarrow> sent_commands o2 = sent_commands o1"
  "oSent o2 = oSent o1 \<Longrightarrow> prep_failed o2 = prep_failed o1"
  by (simp_all add: sent_commands_def prep_failed_def)


section \<open>The methods keep the contract\<close>

lemmas neutral_defs = run_core_def at_rest_def OnClientRegistered_def keep_def SetSelectedClients_def
  UpdateParticipants_def UpdateClientFiles_def sent_commands_def prep_failed_def Let_def

interpretation registered: run_neutral "OnClientRegistered cid" for cid
  by unfold_locales (auto simp: neutral_defs split: if_splits)

interpretation selected: run_neutral "\<lambda>o1. keep (SetSelectedClients ids o1) o1" for ids
  by unfold_locales (auto simp: neutral_defs split: if_splits)

interpretation participants: run_neutral "\<lambda>o1. keep (UpdateParticipants u o1) o1" for u
  by unfold_locales (auto simp: neutral_defs split: if_splits)

interpretation files: run_neutral "UpdateClientFiles n" for n
  by unfold_locales (auto simp: neutral_defs split: if_splits)

interpretation registry_change: run_neutral "\<lambda>o1. o1\<lparr>oRegistry := r\<rparr>" for r
  by unfold_locales (auto simp: neutral_defs split: if_splits)

interpretation enqueue: run_neutral "\<lambda>o1. o1\<lparr>oMetrics := Add_sample x (oMetrics o1)\<rparr>" for x
  by unfold_locales (auto simp: neutral_defs Add_sample_def split: if_splits)

interpretation metrics_turn: run_neutral "\<lambda>o1. o1\<lparr>oMetrics := metrics_step (oMetrics o1) e\<rparr>" for e
  by unfold_locales (auto simp: neutral_defs split: if_splits)

interpretation freeze: run_neutral "\<lambda>o1. o1\<lparr>oMetrics := Freeze now (oMetrics o1)\<rparr>" for now
  by unfold_locales (auto simp: neutral_defs Freeze_def)

lemma publish_config_simps [simp]:
  "oRunning (publish_config cfg o1) = oRunning o1" "at_rest (publish_config cfg o1) = at_rest o1"
  "oMetrics (publish_config cfg o1) = oMetrics o1" "oFailMessage (publish_config cfg o1) = oFailMessage o1"
  by (simp_all add: publish_config_def Let_def)

lemma SetConfig_running: "oRunning o1 \<Longrightarrow> keep (SetConfig cfg o1) o1 = o1"
  by (simp add: SetConfig_def keep_def Let_def)

lemma at_rest_frame [simp]:
  "at_rest (o1\<lparr>oCfg := c, oRegistry := r\<rparr>) = at_rest o1" "at_rest (o1\<lparr>oCfg := c\<rparr>) = at_rest o1"
  "at_rest (o1\<lparr>oSelectedIDs := ids\<rparr>) = at_rest o1"
  by (simp_all add: at_rest_def)

lemma SetConfig_cases:
  "keep (SetConfig cfg o1) o1 = o1 \<or>
   (\<exists>c r. keep (SetConfig cfg o1) o1 = publish_config c (o1\<lparr>oCfg := c, oRegistry := r\<rparr>))"
  unfolding SetConfig_def keep_def Let_def by (simp only: split: if_split) auto

lemma SetConfig_frame:
  "oRunning (keep (SetConfig cfg o1) o1) = oRunning o1"
  "at_rest (keep (SetConfig cfg o1) o1) = at_rest o1"
  "oMetrics (keep (SetConfig cfg o1) o1) = oMetrics o1"
  "oFailMessage (keep (SetConfig cfg o1) o1) = oFailMessage o1"
  using SetConfig_cases [of cfg o1] by auto

interpretation configured: run_neutral "\<lambda>o1. keep (SetConfig cfg o1) o1" for cfg
  by unfold_locales (simp_all only: SetConfig_running SetConfig_frame simp_thms)

lemma SetPhaseEnabled_running: "oRunning o1 \<Longrightarrow> snd (SetPhaseEnabled ph en o1) = o1"
  by (simp add: SetPhaseEnabled_def)

lemma SetPhaseEnabled_frame:
  "oRunning (snd (SetPhaseEnabled ph en o1)) = oRunning o1"
  "at_rest (snd (SetPhaseEnabled ph en o1)) = at_rest o1"
  "oMetrics (snd (SetPhaseEnabled ph en o1)) = oMetrics o1"
  "oFailMessage (snd (SetPhaseEnabled ph en o1)) = oFailMessage o1"
  by (simp_all add: SetPhaseEnabled_def Let_def)

interpretation toggled: run_neutral "\<lambda>o1. snd (SetPhaseEnabled ph en o1)" for ph en
  by unfold_locales (simp_all only: SetPhaseEnabled_running SetPhaseEnabled_frame simp_thms)

lemma close_elapsed_simps [simp]:
  "oRunning (closePhaseSpanLocked t o1) = oRunning o1" "oRunning (freeze_elapsed t o1) = oRunning o1"
  "run_core (closePhaseSpanLocked t o1) = run_core o1" "run_core (freeze_elapsed t o1) = run_core o1"
  "oMetrics (closePhaseSpanLocked t o1) = oMetrics o1" "oMetrics (freeze_elapsed t o1) = oMetrics o1"
  "oSent (closePhaseSpanLocked t o1) = oSent o1" "oSent (freeze_elapsed t o1) = oSent o1"
  "oFailMessage (closePhaseSpanLocked t o1) = oFailMessage o1" "oFailMessage (freeze_elapsed t o1) = oFailMessage o1"
  "oPhaseSpans (freeze_elapsed t o1) = oPhaseSpans o1"
  "oStatusText (closePhaseSpanLocked t o1) = oStatusText o1" "oStatusText (freeze_elapsed t o1) = oStatusText o1"
  by (simp_all add: closePhaseSpanLocked_def freeze_elapsed_def run_core_def split: option.split)

interpretation stop: run_neutral "\<lambda>o1. fst (Stop now o1)" for now
proof
  fix o1
  show "oRunning o1 \<Longrightarrow> run_core (fst (Stop now o1)) = run_core o1"
    by (simp add: Stop_def Let_def) (simp add: run_core_def)
  show "oRunning o1 \<Longrightarrow> sent_commands (fst (Stop now o1)) = sent_commands o1 \<and>
      prep_failed (fst (Stop now o1)) = prep_failed o1"
    by (simp add: Stop_def Let_def sent_commands_def prep_failed_def)
qed (simp_all add: Stop_def Let_def split: if_splits)

interpretation removed: run_neutral "\<lambda>o1. fst (OnClientRemoved now cid host o1)" for now cid host
proof
  fix o1
  show "oRunning o1 \<Longrightarrow> run_core (fst (OnClientRemoved now cid host o1)) = run_core o1"
    by (simp add: OnClientRemoved_def Let_def) (simp add: run_core_def)
  show "\<not> oRunning o1 \<Longrightarrow> at_rest o1 \<Longrightarrow> at_rest (fst (OnClientRemoved now cid host o1))"
    by (simp add: OnClientRemoved_def Let_def at_rest_def)
  show "oRunning o1 \<Longrightarrow> sent_commands (fst (OnClientRemoved now cid host o1)) = sent_commands o1 \<and>
      prep_failed (fst (OnClientRemoved now cid host o1)) = prep_failed o1"
    by (simp add: OnClientRemoved_def Let_def sent_commands_def prep_failed_def)
qed (simp_all add: OnClientRemoved_def Let_def split: if_splits)

interpretation stop_message: run_neutral "broadcastRun stop_envelope"
  by unfold_locales
    (simp_all add: broadcastRun_def run_core_def sent_commands_send stop_envelope_def zero_Envelope_def)

interpretation tree_removed: run_neutral "send (RemoveTree p tn)" for p tn
  by unfold_locales (simp_all add: run_core_def sent_commands_send)

lemma cleanup_frame:
  "run_core (cleanupSoftware ps tn o1) = run_core o1 \<and> at_rest (cleanupSoftware ps tn o1) = at_rest o1 \<and>
   oMetrics (cleanupSoftware ps tn o1) = oMetrics o1 \<and>
   oFailMessage (cleanupSoftware ps tn o1) = oFailMessage o1 \<and>
   sent_commands (cleanupSoftware ps tn o1) = sent_commands o1 \<and>
   prep_failed (cleanupSoftware ps tn o1) = prep_failed o1"
  unfolding cleanupSoftware_def
  by (induction ps arbitrary: o1) (simp_all add: Let_def run_core_def sent_commands_send)

interpretation cleanup: run_neutral "cleanupSoftware ps tn" for ps tn
  using cleanup_frame [of ps tn]
  by unfold_locales (simp_all add: run_core_def)


section \<open>One run at a time\<close>

lemma setPhase_simps [simp]:
  "run_core (setPhase now ph pct txt o1) = run_core o1" "oRunning (setPhase now ph pct txt o1) = oRunning o1"
  "oMetrics (setPhase now ph pct txt o1) = oMetrics o1" "oSent (setPhase now ph pct txt o1) = oSent o1"
  "oFailMessage (setPhase now ph pct txt o1) = oFailMessage o1"
  by (simp_all add: setPhase_def Let_def run_core_def closePhaseSpanLocked_def)

lemma run_core_simps [simp]:
  "run_core (send x o1) = run_core o1" "run_core (o1\<lparr>oMetrics := m\<rparr>) = run_core o1"
  "run_core (broadcastRun env o1) = run_core o1" "run_core (cleanupSoftware ps tn o1) = run_core o1"
  using cleanup_frame [of ps tn o1] by (simp_all add: run_core_def broadcastRun_def)

lemma working_acts [simp]:
  "list_all working (prepare_acts k)" "list_all working (runSoftwarePhase cfg ph d)"
  "list_all working (sendAndWait cfg ph pct wr rr sz step)" "list_all working (sendFinalCleanup cfg)"
  by (cases k; simp)
    (simp_all add: sendAndWait_def runSoftwarePhase_def sendFinalCleanup_def command_envelope_def)

lemma working_call_acts: "list_all working (call_acts cfg c)"
  by (cases c) simp_all

lemma early_return_body: "list_all working as \<Longrightarrow> early_return (as @ [ADefer]) = [ADefer]"
  by (induction as) (auto simp: early_return_def)

lemma exec_working:
  assumes "exec now cancelled choice o1 (a # as) = Some (o2, as2, new)" "working a"
  shows "run_core o2 = run_core o1 \<and> oFailMessage o2 = oFailMessage o1 \<and> list_all (list_all quiet) new \<and>
    (as2 = early_return as \<or> (\<exists>pre. list_all working pre \<and> as2 = pre @ as))"
proof -
  have nil: "\<exists>pre. list_all working pre \<and> as = pre @ as" by simp
  have one: "working b \<Longrightarrow> \<exists>pre. list_all working pre \<and> b # as = pre @ as" for b
    by (intro exI [of _ "[b]"]) simp
  show ?thesis
    using assms nil one [of "ATimer t" for t] one [of "APoll dl gr sw wt is" for dl gr sw wt "is"]
    by (cases a)
      (auto simp: broadcastRun_def cleanup_frame split: if_splits option.splits run_call.splits)
qed

lemma exec_quiet:
  assumes "exec now cancelled choice o1 (a # as) = Some (o2, as2, new)" "quiet a" "run_ok o1 rs"
  shows "run_ok o2 rs \<and> as2 = as \<and> new = []"
  using assms freeze.run_ok stop_message.run_ok cleanup.run_ok by (cases a) (auto split: if_splits)

lemma run_ok_shape: "run_ok o1 as \<Longrightarrow> as \<noteq> [] \<Longrightarrow> oRunning o1 \<and> run_shape as"
  by (auto simp: run_ok_def split: if_splits)

lemma run_ok_step:
  assumes "run_ok o1 as" "as \<noteq> []" "run_shape bs" "\<forall>msg. bs \<noteq> [AFinish msg]" "run_core o2 = run_core o1"
  shows "run_ok o2 bs"
  using assms run_ok_shape [OF assms(1,2)] by (auto simp: run_ok_def run_core_def)

lemma body_not_finish: "as @ [ADefer] \<noteq> [AFinish msg]"
  by (cases as) auto

lemma finish_at_rest: "\<not> mRecording (oMetrics o1) \<Longrightarrow> at_rest (finish now txt o1) \<and> \<not> oRunning (finish now txt o1)"
  by (simp add: finish_def at_rest_def Let_def)

lemma exec_run:
  assumes "run_ok o1 as" "exec now cancelled choice o1 as = Some (o2, as2, new)"
  shows "run_ok o2 as2 \<and> list_all (list_all quiet) new"
proof -
  from assms(2) have ne: "as \<noteq> []" by auto
  with run_ok_shape [OF assms(1)] have "run_shape as" and run: "oRunning o1" by auto
  note step = run_ok_step [OF assms(1) ne]
  from \<open>run_shape as\<close> show ?thesis
  proof cases
    case (starting bs ids d)
    with assms(2) step [OF run_shape.announcing] show ?thesis by auto
  next
    case (announcing bs ids d)
    with assms(2) step [OF run_shape.body] body_not_finish show ?thesis by auto
  next
    case (body bs)
    show ?thesis
    proof (cases bs)
      case Nil
      with body assms show ?thesis by (auto simp: run_ok_def intro: run_shape.freezing split: if_splits)
    next
      case (Cons b cs)
      then have b: "working b" "list_all working cs"
        and ex: "exec now cancelled choice o1 (b # (cs @ [ADefer])) = Some (o2, as2, new)"
        using body assms(2) by auto
      note w = exec_working [OF ex b(1)]
      have "\<exists>pre. list_all working pre \<and> as2 = pre @ [ADefer]"
        using w b(2) early_return_body [OF b(2)]
        by (metis append.assoc append_Nil list_all_append list.pred_inject(1))
      then have "run_ok o2 as2" using step [OF run_shape.body] body_not_finish w by blast
      with w show ?thesis by blast
    qed
  next
    case (freezing msg)
    with assms run show ?thesis by (auto simp: run_ok_def Freeze_def intro: run_shape.finishing)
  next
    case (finishing msg)
    with assms run finish_at_rest [of o1 now msg] show ?thesis by (auto simp: run_ok_def)
  qed
qed


lemma working_run_acts: "\<exists>as. list_all working as \<and> run_acts cfg n = as @ [ADefer]"
  by (intro exI [of _ "map ACall (run_calls cfg n)"]) (simp add: run_acts_def list_all_iff)

lemma Start_cases:
  assumes "Start now ctx o1 = Inr (o2, as)"
  shows "\<not> oRunning o1 \<and> oRunning o2 \<and> oCfg o2 = oCfg o1 \<and>
    oRunClientIDs o2 = connectedSelectedLocked o1 \<and> oRunClientIDs o2 \<noteq> [] \<and>
    oRunClientSet o2 = Some (oRunClientIDs o2) \<and>
    oMetricsInterval o2 = MetricsIntervalForClients (int (length (oRunClientIDs o2))) \<and>
    oCancel o2 = Some ctx \<and> oPhaseSpans o2 = [] \<and> oSent o2 = oSent o1 \<and> oFailMessage o2 = [] \<and>
    ActivePhaseOrder (oCfg o1) \<noteq> [] \<and>
    as = [ABegin, ABroadcastTo (oRunClientIDs o2) (interval_envelope (oMetricsInterval o2))] @
      run_acts (oCfg o2) (int (length (oRunClientIDs o2)))"
  using assms by (auto simp: Start_def Let_def split: if_splits)

lemma Start_run_ok: "Start now ctx o1 = Inr (o2, as) \<Longrightarrow> run_ok o2 as"
proof -
  assume s: "Start now ctx o1 = Inr (o2, as)"
  note c = Start_cases [OF s]
  obtain bs where "list_all working bs" "run_acts (oCfg o2) (int (length (oRunClientIDs o2))) = bs @ [ADefer]"
    using working_run_acts by blast
  with c have "run_shape as" by (auto intro: run_shape.starting)
  with c show "run_ok o2 as" by (auto simp: run_ok_def)
qed

definition sys_ok :: "System \<Rightarrow> bool" where
  "sys_ok s \<longleftrightarrow> run_ok (sOrch s) (sRun s) \<and> list_all (list_all quiet) (sOthers s)"

lemma sys_okD: "sys_ok s \<Longrightarrow> run_ok (sOrch s) (sRun s)" "sys_ok s \<Longrightarrow> list_all (list_all quiet) (sOthers s)"
  by (simp_all add: sys_ok_def)

lemma quiet_acts [simp]:
  "list_all quiet (snd (Stop now o1))" "list_all quiet (snd (OnClientRemoved now cid host o1))"
  by (simp_all add: Stop_def OnClientRemoved_def Let_def cancel_acts_def split: option.split)

lemma list_all_update: "list_all P xs \<Longrightarrow> P x \<Longrightarrow> list_all P (xs[i := x])"
  by (induction xs arbitrary: i) (auto split: nat.split)

lemma sys_ok_run: "sys_ok s \<Longrightarrow> sys_ok (step_run now choice s)"
proof (cases "exec now (sCtx s \<in> set (sCancelled s)) choice (sOrch s) (sRun s)")
  case (Some r)
  obtain o2 as2 new where r: "r = (o2, as2, new)" by (cases r)
  assume ok: "sys_ok s"
  from exec_run [OF sys_okD(1) [OF ok] Some [unfolded r]] sys_okD(2) [OF ok] Some r
  show ?thesis by (simp add: sys_ok_def step_run_def)
qed (simp add: step_run_def)

lemma exec_other:
  assumes "exec now False choice o1 as = Some (o2, as2, new)" "list_all quiet as" "run_ok o1 rs"
  shows "run_ok o2 rs \<and> list_all quiet as2 \<and> new = []"
proof (cases as)
  case (Cons a bs)
  with assms exec_quiet [of now False choice o1 a bs o2 as2 new rs] show ?thesis by simp
qed (use assms in simp)

lemma sys_ok_other: "sys_ok s \<Longrightarrow> sys_ok (step_other now i choice s)"
proof -
  assume ok: "sys_ok s"
  consider "step_other now i choice s = s" | o2 as2 new where "i < length (sOthers s)"
    "exec now False choice (sOrch s) (sOthers s ! i) = Some (o2, as2, new)"
    by (cases "i < length (sOthers s)"; cases "exec now False choice (sOrch s) (sOthers s ! i)")
      (auto simp: step_other_def)
  then show ?thesis
  proof cases
    case (2 o2 as2 new)
    have "list_all quiet (sOthers s ! i)" using 2(1) sys_okD(2) [OF ok] by (simp add: list_all_length)
    from exec_other [OF 2(2) this sys_okD(1) [OF ok]] show ?thesis
      using 2 sys_okD(2) [OF ok] by (simp add: sys_ok_def step_other_def list_all_update)
  qed (simp add: ok)
qed

lemma sys_ok_start: "sys_ok s \<Longrightarrow> sys_ok (step_start now s)"
  by (auto simp: sys_ok_def step_start_def dest: Start_run_ok split: sum.split)

lemma sys_ok_spawn:
  "sys_ok s \<Longrightarrow> run_ok (fst r) (sRun s) \<Longrightarrow> list_all quiet (snd r) \<Longrightarrow> sys_ok (spawn r s)"
  by (simp add: sys_ok_def spawn_def)

lemma sys_ok_orch: "sys_ok s \<Longrightarrow> run_ok (f (sOrch s)) (sRun s) \<Longrightarrow> sys_ok (on_orch f s)"
  by (simp add: sys_ok_def on_orch_def)

lemmas neutral_run_ok = registered.run_ok selected.run_ok participants.run_ok files.run_ok
  registry_change.run_ok enqueue.run_ok metrics_turn.run_ok configured.run_ok toggled.run_ok
  stop.run_ok removed.run_ok

lemma sys_ok_event: "sys_ok s \<Longrightarrow> sys_ok (event_step now e s)"
  by (cases e) (auto intro!: sys_ok_run sys_ok_other sys_ok_start sys_ok_spawn sys_ok_orch
      neutral_run_ok sys_okD(1))

lemma sys_ok_step [ok_intros]: "sys_ok s \<Longrightarrow> sys_ok (sys_step now e s)"
  using sys_ok_event [of s now e] by (simp add: sys_step_def sys_ok_def)

lemma sys_ok_reachable: "reachable s \<Longrightarrow> sys_ok s"
proof (induction rule: reachable.induct)
  case (init loaded path host now)
  show ?case
    by (simp add: sys_ok_def sys_init_def run_ok_def at_rest_def NewOrchestrator_def NewMetricsStore_def Let_def)
qed (rule sys_ok_step)


section \<open>What has been commanded and what is left\<close>

fun act_todo :: "Config \<Rightarrow> act \<Rightarrow> PhaseCommand list" where
  "act_todo cfg (ACall c) = act_commands (call_acts cfg c)"
| "act_todo cfg a = act_commands [a]"

definition todo :: "Config \<Rightarrow> act list \<Rightarrow> PhaseCommand list" where
  "todo cfg as = concat (map (act_todo cfg) as)"

lemma todo_simps [simp]: "todo cfg [] = []" "todo cfg (a # as) = act_todo cfg a @ todo cfg as"
  "todo cfg (xs @ ys) = todo cfg xs @ todo cfg ys"
  by (simp_all add: todo_def)

definition full_plan :: "Orchestrator \<Rightarrow> PhaseCommand list" where [go_eval]:
  "full_plan o1 = act_commands (plan_acts (oCfg o1) (int (length (oRunClientIDs o1))))"

lemma act_commands_Cons: "act_commands (a # as) = act_commands [a] @ act_commands as"
  using act_commands_append [of "[a]" as] by simp

lemma todo_no_calls: "list_all (\<lambda>a. \<forall>c. a \<noteq> ACall c) as \<Longrightarrow> todo cfg as = act_commands as"
proof (induction as)
  case (Cons a as)
  have "act_todo cfg a = act_commands [a]" using Cons.prems by (cases a) simp_all
  with Cons act_commands_Cons [of a as] show ?case by simp
qed (simp add: act_commands_def map_filter_simps)

lemma todo_call_acts: "todo cfg (call_acts cfg c) = act_commands (call_acts cfg c)"
proof (rule todo_no_calls)
  show "list_all (\<lambda>a. \<forall>c. a \<noteq> ACall c) (call_acts cfg c)"
  proof (cases c)
    case (CallPrepare k)
    then show ?thesis by (cases k) simp_all
  qed (simp_all add: sendAndWait_def runSoftwarePhase_def sendFinalCleanup_def)
qed

lemma todo_run_acts: "todo cfg (run_acts cfg n) = act_commands (plan_acts cfg n)"
proof -
  have "todo cfg (map ACall cs) = act_commands (concat (map (call_acts cfg) cs))" for cs
    by (induction cs) (simp_all add: act_commands_def map_filter_simps)
  then show ?thesis
    by (simp add: run_acts_def plan_acts_def) (simp add: act_commands_def map_filter_simps)
qed

text \<open>
  The bookkeeping of the commands: before the announcement everything is left to do; after it, the
  commands sent and those left make up the plan, unless the run returned early, for which there is
  a reason. A run that ends as completed has sent the plan or failed to prepare.
\<close>

definition announced :: "act list \<Rightarrow> bool" where
  "announced as \<longleftrightarrow> (case as of ABegin # _ \<Rightarrow> False | ABroadcastTo _ _ # _ \<Rightarrow> False | _ \<Rightarrow> True)"

definition ends_completed :: "act list \<Rightarrow> bool" where [go_eval]:
  "ends_completed as \<longleftrightarrow> as = [AFreeze, AFinish ''Completed''] \<or> as = [AFinish ''Completed'']"

definition plan_ok :: "bool \<Rightarrow> Orchestrator \<Rightarrow> act list \<Rightarrow> bool" where
  "plan_ok cancelled o1 as \<longleftrightarrow>
    (let sent = (if announced as then sent_commands o1 else []);
         failed = (announced as \<and> prep_failed o1);
         all = sent @ todo (oCfg o1) as
     in prefix all (full_plan o1) \<and> (all = full_plan o1 \<or> cancelled \<or> failed) \<and>
        (ends_completed as \<longrightarrow> all = full_plan o1 \<or> failed))"

lemma exec_commands:
  assumes "exec now cancelled choice o1 (a # as) = Some (o2, as2, new)" "working a"
  shows "(sent_commands o2 @ todo (oCfg o1) as2 = sent_commands o1 @ todo (oCfg o1) (a # as) \<and>
      (prep_failed o1 \<longrightarrow> prep_failed o2)) \<or>
    (as2 = early_return as \<and> sent_commands o2 = sent_commands o1 \<and> (cancelled \<or> prep_failed o2))"
proof -
  note none = act_commands_def map_filter_simps
  have sent: "sent_commands (broadcastRun env o1) = sent_commands o1 @ act_commands [ABroadcastRun env]"
    "prep_failed (broadcastRun env o1) = prep_failed o1" if "envType env = ''command''" for env
    using that by (simp_all add: broadcastRun_def sent_commands_send none split: option.split)
  show ?thesis
  proof (cases a)
    case (ABroadcastRun env)
    with assms sent show ?thesis by auto
  next
    case (ACall c)
    with assms(1) show ?thesis by (auto simp: todo_call_acts)
  next
    case (ARemoveTrees ps tn)
    with assms cleanup_frame [of ps tn o1] show ?thesis by (auto simp: none)
  next
    case (ASetPhase ph pct msg)
    with assms sent_frame [of o2 o1] show ?thesis by (auto simp: none)
  next
    case (APrepare k)
    with assms show ?thesis by (auto simp: none sent_commands_send split: if_splits)
  qed (use assms in \<open>auto simp: none split: if_splits option.splits\<close>)
qed


context run_neutral
begin

lemma plan_ok: "oRunning o1 \<Longrightarrow> plan_ok c (f o1) as = plan_ok c o1 as"
  using sent [of o1] by (simp add: plan_ok_def full_plan_def core_fields)

end

lemma plan_ok_cancel: "plan_ok c o1 as \<Longrightarrow> (c \<Longrightarrow> d) \<Longrightarrow> plan_ok d o1 as"
  by (auto simp: plan_ok_def Let_def)

lemma full_plan_core:
  "run_core o2 = run_core o1 \<Longrightarrow> full_plan o2 = full_plan o1" "run_core o2 = run_core o1 \<Longrightarrow> oCfg o2 = oCfg o1"
  by (simp_all add: full_plan_def run_core_def)

lemma announced_body: "list_all working as \<Longrightarrow> announced (as @ [ADefer])"
proof (cases as)
  case (Cons a bs)
  assume "list_all working as"
  with Cons show ?thesis by (cases a) (simp_all add: announced_def)
qed (simp add: announced_def)

lemma not_ends_body: "\<not> ends_completed (as @ [ADefer])"
  by (cases as; cases "tl as") (auto simp: ends_completed_def)

lemma plan_ok_announced:
  "announced as \<Longrightarrow> plan_ok c o1 as \<longleftrightarrow>
    prefix (sent_commands o1 @ todo (oCfg o1) as) (full_plan o1) \<and>
    (sent_commands o1 @ todo (oCfg o1) as = full_plan o1 \<or> c \<or> prep_failed o1) \<and>
    (ends_completed as \<longrightarrow> sent_commands o1 @ todo (oCfg o1) as = full_plan o1 \<or> prep_failed o1)"
  by (simp add: plan_ok_def Let_def)

lemma no_command [simp]:
  "act_commands [ADefer] = []" "act_commands [AFreeze] = []" "act_commands [AFinish msg] = []"
  "act_commands [ABegin] = []" "act_commands [ABroadcastTo ids env] = []"
  by (simp_all add: act_commands_def map_filter_simps)

lemma plan_ok_body:
  assumes "plan_ok c o1 ((b # cs) @ [ADefer])" "list_all working (b # cs)"
    and "exec now c choice o1 (b # (cs @ [ADefer])) = Some (o2, as2, new)"
  shows "plan_ok c o2 as2"
proof -
  have b: "working b" "list_all working cs" using assms(2) by simp_all
  note w = exec_working [OF assms(3) b(1)] and cmd = exec_commands [OF assms(3) b(1)]
  note core = full_plan_core [of o2 o1]
  have shape: "\<exists>pre. list_all working pre \<and> as2 = pre @ [ADefer]"
    using w b(2) early_return_body [OF b(2)]
    by (metis append.assoc append_Nil list_all_append list.pred_inject(1))
  then have ann: "announced as2" "\<not> ends_completed as2" using announced_body not_ends_body by blast+
  have "announced ((b # cs) @ [ADefer])" using announced_body [OF assms(2)] by simp
  note old = assms(1) [unfolded plan_ok_announced [OF this]]
  from cmd show ?thesis
  proof
    assume "sent_commands o2 @ todo (oCfg o1) as2 = sent_commands o1 @ todo (oCfg o1) (b # (cs @ [ADefer])) \<and>
      (prep_failed o1 \<longrightarrow> prep_failed o2)"
    with old ann w core show ?thesis unfolding plan_ok_announced [OF ann(1)] by auto
  next
    assume "as2 = early_return (cs @ [ADefer]) \<and> sent_commands o2 = sent_commands o1 \<and> (c \<or> prep_failed o2)"
    with old ann w core show ?thesis
      unfolding plan_ok_announced [OF ann(1)] early_return_body [OF b(2)]
      by (auto dest: append_prefixD)
  qed
qed

lemma end_text_completed: "end_text c o1 = ''Completed'' \<Longrightarrow> \<not> c"
  by (auto simp: end_text_def split: if_splits)

lemma plan_ok_exec:
  assumes "run_ok o1 as" "plan_ok c o1 as" "exec now c choice o1 as = Some (o2, as2, new)" "oRunning o2"
  shows "plan_ok c o2 as2"
proof -
  from assms(3) have ne: "as \<noteq> []" by auto
  with run_ok_shape [OF assms(1)] have "run_shape as" and run: "oRunning o1" by auto
  from \<open>run_shape as\<close> show ?thesis
  proof cases
    case (starting bs ids d)
    with assms(2,3) show ?thesis
      by (auto simp: plan_ok_def announced_def full_plan_def ends_completed_def act_commands_def map_filter_simps)
  next
    case (announcing bs ids d)
    then have "o2 = send (BroadcastTo ids (interval_envelope d)) o1" "as2 = bs @ [ADefer]"
      using assms(3) by auto
    moreover have "is_interval (BroadcastTo ids (interval_envelope d))"
      by (simp add: interval_envelope_def)
    ultimately show ?thesis
      using assms(2) announcing sent_commands_interval announced_body [OF announcing(2)] not_ends_body [of bs]
      by (auto simp: plan_ok_def Let_def full_plan_def announced_def [of "_ # _"] act_commands_def map_filter_simps)
  next
    case (body bs)
    show ?thesis
    proof (cases bs)
      case Nil
      with body assms(2,3) show ?thesis
        by (auto simp: plan_ok_def announced_def Let_def full_plan_def ends_completed_def dest: end_text_completed)
    next
      case (Cons b cs)
      have as: "as = b # (cs @ [ADefer])" using body Cons by simp
      show ?thesis
      proof (rule plan_ok_body)
        show "plan_ok c o1 ((b # cs) @ [ADefer])" using assms(2) as by simp
        show "list_all working (b # cs)" using body Cons by simp
        show "exec now c choice o1 (b # (cs @ [ADefer])) = Some (o2, as2, new)" using assms(3) as by (simp only:)
      qed
    qed
  next
    case (freezing msg)
    have "plan_ok c o1 [AFinish msg]" using assms(2) freezing
      by (simp add: plan_ok_def announced_def ends_completed_def)
    then have "plan_ok c (o1\<lparr>oMetrics := Freeze now (oMetrics o1)\<rparr>) [AFinish msg]"
      by (simp only: freeze.plan_ok [OF run])
    with assms(3) freezing show ?thesis by auto
  next
    case (finishing msg)
    with assms(3,4) show ?thesis by (auto simp: finish_def Let_def)
  qed
qed


definition run_plan_ok :: "System \<Rightarrow> bool" where
  "run_plan_ok s \<longleftrightarrow>
    (oRunning (sOrch s) \<longrightarrow> plan_ok (sCtx s \<in> set (sCancelled s)) (sOrch s) (sRun s))"

lemma Start_plan_ok: "Start now ctx o1 = Inr (o2, as) \<Longrightarrow> plan_ok c o2 as"
  by (drule Start_cases) (auto simp: plan_ok_def announced_def todo_run_acts full_plan_def ends_completed_def Let_def)

lemma run_plan_ok_run:
  assumes "sys_ok s" "run_plan_ok s"
  shows "run_plan_ok (step_run now choice s)"
proof (cases "exec now (sCtx s \<in> set (sCancelled s)) choice (sOrch s) (sRun s)")
  case (Some r)
  obtain o2 as2 new where r: "r = (o2, as2, new)" by (cases r)
  have "sRun s \<noteq> []" using Some by auto
  then have "oRunning (sOrch s)" using run_ok_shape [OF sys_okD(1) [OF assms(1)]] by blast
  with assms plan_ok_exec [OF sys_okD(1) [OF assms(1)] _ Some [unfolded r]] show ?thesis
    by (simp add: run_plan_ok_def step_run_def Some r)
qed (use assms in \<open>simp add: step_run_def\<close>)

lemma quiet_plan_ok:
  assumes "exec now False choice o1 as = Some (o2, as2, new)" "list_all quiet as"
  shows "oRunning o2 = oRunning o1 \<and> (oRunning o1 \<longrightarrow> plan_ok c o2 rs = plan_ok c o1 rs)"
proof (cases as)
  case (Cons a bs)
  with assms(2) have "quiet a" by simp
  with assms(1) Cons freeze.plan_ok stop_message.plan_ok stop_message.running
    cleanup.plan_ok cleanup.running show ?thesis
    by (cases a) (auto split: if_splits)
qed (use assms in simp)

lemma run_plan_ok_other:
  assumes "sys_ok s" "run_plan_ok s"
  shows "run_plan_ok (step_other now i choice s)"
proof -
  consider "step_other now i choice s = s" | o2 as2 new where "i < length (sOthers s)"
    "exec now False choice (sOrch s) (sOthers s ! i) = Some (o2, as2, new)"
    by (cases "i < length (sOthers s)"; cases "exec now False choice (sOrch s) (sOthers s ! i)")
      (auto simp: step_other_def)
  then show ?thesis
  proof cases
    case (2 o2 as2 new)
    have "list_all quiet (sOthers s ! i)" using 2(1) sys_okD(2) [OF assms(1)] by (simp add: list_all_length)
    note q = quiet_plan_ok [OF 2(2) this]
    have "set (sCancelled s) \<subseteq> set (sCancelled (step_other now i choice s))"
      using 2 by (auto simp: step_other_def split: list.split act.split)
    with 2 q assms(2) show ?thesis
      by (auto simp: run_plan_ok_def step_other_def elim!: plan_ok_cancel)
  qed (simp add: assms)
qed

lemmas neutral_plan_ok = registered.plan_ok selected.plan_ok participants.plan_ok files.plan_ok
  registry_change.plan_ok enqueue.plan_ok metrics_turn.plan_ok configured.plan_ok toggled.plan_ok
  stop.plan_ok removed.plan_ok

lemmas neutral_running = registered.running selected.running participants.running files.running
  registry_change.running enqueue.running metrics_turn.running configured.running toggled.running
  stop.running removed.running

lemma run_plan_ok_step:
  assumes "sys_ok s" "run_plan_ok s"
  shows "run_plan_ok (sys_step now e s)"
proof -
  have "run_plan_ok (event_step now e s)"
  proof (cases e)
    case EvStart
    with assms(2) show ?thesis
      by (auto simp: step_start_def run_plan_ok_def intro: Start_plan_ok split: sum.split)
  qed (use assms in \<open>simp_all add: run_plan_ok_run run_plan_ok_other, simp_all add: run_plan_ok_def
    spawn_def on_orch_def neutral_running neutral_plan_ok\<close>)
  then show ?thesis by (simp add: sys_step_def run_plan_ok_def)
qed

lemma run_plan_ok_reachable: "reachable s \<Longrightarrow> run_plan_ok s"
proof (induction rule: reachable.induct)
  case (init loaded path host now)
  show ?case by (simp add: run_plan_ok_def sys_init_def NewOrchestrator_def Let_def)
next
  case (step s now e)
  then show ?case by (intro run_plan_ok_step sys_ok_reachable)
qed


section \<open>Properties of every reachable state\<close>

text \<open>
  C1. In every reachable state the commands sent to the participants since the run was announced
  are an initial part of the plan of its configuration, in plan order, whatever else happens
  meanwhile; and when the run is about to end as completed, all of them were sent, or a preparation
  on the controller failed.
\<close>

theorem commands_follow_the_plan:
  assumes "reachable s" "announced (sRun s)" "oRunning (sOrch s)"
  shows "prefix (sent_commands (sOrch s)) (full_plan (sOrch s)) \<and>
    (ends_completed (sRun s) \<longrightarrow>
      sent_commands (sOrch s) = full_plan (sOrch s) \<or> prep_failed (sOrch s))"
proof -
  have "plan_ok (sCtx s \<in> set (sCancelled s)) (sOrch s) (sRun s)"
    using run_plan_ok_reachable [OF assms(1)] assms(3) by (simp add: run_plan_ok_def)
  then have "prefix (sent_commands (sOrch s) @ todo (oCfg (sOrch s)) (sRun s)) (full_plan (sOrch s))"
    and "ends_completed (sRun s) \<Longrightarrow>
      sent_commands (sOrch s) @ todo (oCfg (sOrch s)) (sRun s) = full_plan (sOrch s) \<or> prep_failed (sOrch s)"
    unfolding plan_ok_announced [OF assms(2)] by blast+
  moreover have "todo cfg (sRun s) = []" if "ends_completed (sRun s)" for cfg
    using that by (auto simp: ends_completed_def)
  ultimately show ?thesis by (auto dest: append_prefixD)
qed

lemma run_shape_alive: "run_shape as \<Longrightarrow> as \<noteq> []"
  by (auto elim: run_shapeE)

text \<open>
  C21. A run is on exactly while its goroutine is alive, so there is never more than one; and when
  none is on, everything about a run is at rest: no participants, no reporting interval, no failure,
  nothing to cancel, the idle phase, and nothing recorded.
\<close>

theorem idle_state_is_at_rest:
  assumes "reachable s"
  shows "oRunning (sOrch s) = (sRun s \<noteq> []) \<and> (\<not> oRunning (sOrch s) \<longrightarrow> at_rest (sOrch s)) \<and>
    (oRunning (sOrch s) \<longrightarrow> oRunClientSet (sOrch s) = Some (oRunClientIDs (sOrch s)) \<and> oRunClientIDs (sOrch s) \<noteq> [])"
  using sys_okD(1) [OF sys_ok_reachable [OF assms]] run_shape_alive [of "sRun s"]
  by (cases "oRunning (sOrch s)") (simp_all add: run_ok_def)

lemma exec_keeps_core:
  assumes "run_ok o1 as" "exec now c choice o1 as = Some (o2, as2, new)"
  shows "run_core o2 = run_core o1 \<and> oFailMessage o2 = oFailMessage o1 \<or>
    \<not> oRunning o2 \<and> oStatusText o2 = (if oFailMessage o1 \<noteq> [] then oFailMessage o1 else oStatusText o2)"
proof -
  from assms(2) have ne: "as \<noteq> []" by auto
  with run_ok_shape [OF assms(1)] have "run_shape as" by auto
  then show ?thesis
  proof cases
    case (body bs)
    show ?thesis
    proof (cases bs)
      case (Cons b cs)
      then have "exec now c choice o1 (b # (cs @ [ADefer])) = Some (o2, as2, new)" "working b"
        using body assms(2) by auto
      from exec_working [OF this] show ?thesis by blast
    qed (use body assms(2) in simp)
  next
    case (finishing msg)
    with assms(2) show ?thesis by (auto simp: finish_def Let_def)
  qed (use assms(2) in auto)
qed

lemma cleanup_fail: "oFailMessage (cleanupSoftware ps tn o1) = oFailMessage o1"
  using cleanup_frame by blast

lemma quiet_keeps_core:
  assumes "exec now False choice o1 as = Some (o2, as2, new)" "list_all quiet as"
  shows "run_core o2 = run_core o1 \<and> oFailMessage o2 = oFailMessage o1"
proof (cases as)
  case (Cons a bs)
  then have "quiet a" using assms(2) by simp
  with assms(1) Cons show ?thesis
    by (cases a) (auto simp: broadcastRun_def cleanup_fail split: if_splits)
qed (use assms in simp)

lemmas neutral_core = registered.core selected.core participants.core files.core
  registry_change.core enqueue.core metrics_turn.core configured.core toggled.core
  stop.core removed.core

lemmas neutral_fail = registered.fail selected.fail participants.fail files.fail
  registry_change.fail enqueue.fail metrics_turn.fail configured.fail toggled.fail
  stop.fail removed.fail

lemma step_keeps_core:
  assumes "sys_ok s" "oRunning (sOrch s)"
  shows "run_core (sOrch (sys_step now e s)) = run_core (sOrch s) \<and>
      (oFailMessage (sOrch s) \<noteq> [] \<longrightarrow> oFailMessage (sOrch (sys_step now e s)) = oFailMessage (sOrch s)) \<or>
    \<not> oRunning (sOrch (sys_step now e s)) \<and>
      (oFailMessage (sOrch s) \<noteq> [] \<longrightarrow> oStatusText (sOrch (sys_step now e s)) = oFailMessage (sOrch s))"
proof -
  have sim: "sOrch (sys_step now e s) = sOrch (event_step now e s)" by (simp add: sys_step_def)
  show ?thesis
  proof (cases e)
    case (EvRun choice)
    show ?thesis
    proof (cases "exec now (sCtx s \<in> set (sCancelled s)) choice (sOrch s) (sRun s)")
      case (Some r)
      obtain o2 as2 new where r: "r = (o2, as2, new)" by (cases r)
      from exec_keeps_core [OF sys_okD(1) [OF assms(1)] Some [unfolded r]] show ?thesis
        unfolding sim by (auto simp: EvRun step_run_def Some r)
    qed (unfold sim, simp add: EvRun step_run_def)
  next
    case (EvOther i choice)
    consider "step_other now i choice s = s" | o2 as2 new where "i < length (sOthers s)"
      "exec now False choice (sOrch s) (sOthers s ! i) = Some (o2, as2, new)"
      by (cases "i < length (sOthers s)"; cases "exec now False choice (sOrch s) (sOthers s ! i)")
        (auto simp: step_other_def)
    then show ?thesis
    proof cases
      case (2 o2 as2 new)
      have "list_all quiet (sOthers s ! i)" using 2(1) sys_okD(2) [OF assms(1)] by (simp add: list_all_length)
      from quiet_keeps_core [OF 2(2) this] 2 show ?thesis unfolding sim by (simp add: EvOther step_other_def)
    qed (unfold sim, simp add: EvOther)
  next
    case EvStart
    then show ?thesis unfolding sim using assms(2) by (simp add: step_start_def Start_def)
  qed (unfold sim, simp_all add: spawn_def on_orch_def neutral_core [OF assms(2)] neutral_fail)
qed

text \<open>
  C9. While a run stays on, no step of any kind changes its configuration, its participants or
  its reporting interval; a failure once noted stays noted, and when the run ends after a failure
  the status shows that failure.
\<close>

theorem running_state_is_locked:
  assumes "reachable s" "oRunning (sOrch s)"
  shows "(oRunning (sOrch (sys_step now e s)) \<longrightarrow>
      run_core (sOrch (sys_step now e s)) = run_core (sOrch s)) \<and>
    (oFailMessage (sOrch s) \<noteq> [] \<longrightarrow>
      (if oRunning (sOrch (sys_step now e s))
       then oFailMessage (sOrch (sys_step now e s)) = oFailMessage (sOrch s)
       else oStatusText (sOrch (sys_step now e s)) = oFailMessage (sOrch s)))"
proof -
  from step_keeps_core [OF sys_ok_reachable [OF assms(1)] assms(2), of now e] assms(2)
  show ?thesis by (auto simp: run_core_def)
qed


section \<open>Two traces\<close>

fun effect_type :: "effect \<Rightarrow> string" where
  "effect_type (Broadcast env) = envType env"
| "effect_type (BroadcastTo ids env) = envType env"
| "effect_type (SaveConfig path cfg) = ''save''"
| "effect_type (RemoveTree p tn) = ''remove''"
| "effect_type (LogFailure msg) = msg"

text \<open>A configuration without the optional phases, one registered and selected client, a started run.\<close>

definition bare_config :: Config where [go_eval]:
  "bare_config = DefaultConfig\<lparr>StartupCommand := [], GitCloneURL := [], UntarURL := []\<rparr>"

definition started :: "Config \<Rightarrow> System" where [go_eval]:
  "started cfg =
    run_trace
      [(1, EvRegistry (fst (Upsert 1 ''c1'' ''node1'' ''/tmp'' NewRegistry))), (1, EvRegistered ''c1''),
       (2, EvStart)]
      (sys_init (Loaded cfg) ''config.json'' ''ctl'' 0)"

lemma reachable_started: "sorted (2 # map fst es) \<Longrightarrow> reachable (run_trace es (started cfg))"
  unfolding started_def
  by (intro reachable_trace init) (simp_all add: run_trace_def sys_step_def sys_init_def)

definition stop_race :: "(time \<times> event) list" where [go_eval]:
  "stop_race =
    replicate 6 (3, EvRun True) @
    [(30000000003, EvRun True), (30000000004, EvStop), (30000000004, EvOther 0 True),
     (30000000004, EvOther 0 True), (30000000005, EvRun True), (30000000005, EvRun True),
     (30000000005, EvRun True)]"

text \<open>
  Stopping does not keep the run from sending another command: when the step timer has fired
  and the next step has not begun, \<open>Stop\<close> cancels the context and tells the participants to stop
  and clean up, and the run still sets the next phase and sends its command to them afterwards,
  because the context is looked at only while waiting.
\<close>

theorem command_after_stop:
  "reachable (run_trace stop_race (started bare_config)) \<and>
   map effect_type (oSent (sOrch (run_trace stop_race (started bare_config)))) =
     [''metrics_interval'', ''command'', ''stop'', ''command''] \<and>
   oPhase (sOrch (run_trace stop_race (started bare_config))) = PhaseCreate"
proof (intro conjI)
  show "reachable (run_trace stop_race (started bare_config))"
    by (rule reachable_started) (simp add: stop_race_def numeral_eq_Suc)
  show "map effect_type (oSent (sOrch (run_trace stop_race (started bare_config)))) =
      [''metrics_interval'', ''command'', ''stop'', ''command'']"
    by code_simp
  show "oPhase (sOrch (run_trace stop_race (started bare_config))) = PhaseCreate"
    by code_simp
qed

definition failed_prep :: "(time \<times> event) list" where [go_eval]:
  "failed_prep = replicate 4 (3, EvRun True) @ replicate 4 (4, EvRun False)"

text \<open>
  When a preparation on the controller fails (here the unpacking of the package), the run ends
  without having sent a single command, and its final status is still \<open>Completed\<close>: the error is
  logged and otherwise lost.
\<close>

theorem failed_preparation_completes:
  "reachable (run_trace failed_prep (started DefaultConfig)) \<and>
   oStatusText (sOrch (run_trace failed_prep (started DefaultConfig))) = ''Completed'' \<and>
   map effect_type (oSent (sOrch (run_trace failed_prep (started DefaultConfig)))) =
     [''metrics_interval'', ''orchestrator: software unpack failed'']"
proof (intro conjI)
  show "reachable (run_trace failed_prep (started DefaultConfig))"
    by (rule reachable_started) (simp add: failed_prep_def numeral_eq_Suc)
  show "oStatusText (sOrch (run_trace failed_prep (started DefaultConfig))) = ''Completed''"
    by code_simp
  show "map effect_type (oSent (sOrch (run_trace failed_prep (started DefaultConfig)))) =
     [''metrics_interval'', ''orchestrator: software unpack failed'']"
    by code_simp
qed

section \<open>Witnesses\<close>

text \<open>A reachable running state, right after the run is announced.\<close>

lemma announced_state:
  "reachable (run_trace [(3, EvRun True), (3, EvRun True)] (started bare_config)) \<and>
   announced (sRun (run_trace [(3, EvRun True), (3, EvRun True)] (started bare_config))) \<and>
   oRunning (sOrch (run_trace [(3, EvRun True), (3, EvRun True)] (started bare_config)))"
proof (intro conjI)
  show "reachable (run_trace [(3, EvRun True), (3, EvRun True)] (started bare_config))"
    by (rule reachable_started) simp
  show "announced (sRun (run_trace [(3, EvRun True), (3, EvRun True)] (started bare_config)))"
    by code_simp
  show "oRunning (sOrch (run_trace [(3, EvRun True), (3, EvRun True)] (started bare_config)))"
    by code_simp
qed

lemma commands_follow_the_plan_witness:
  "prefix (sent_commands (sOrch (run_trace [(3, EvRun True), (3, EvRun True)] (started bare_config))))
     (full_plan (sOrch (run_trace [(3, EvRun True), (3, EvRun True)] (started bare_config))))"
  using commands_follow_the_plan announced_state by blast

lemma idle_state_is_at_rest_witness: "at_rest (sOrch (sys_init NoSuchFile [] ''ctl'' 0))"
  using idle_state_is_at_rest [OF reachable.init [of NoSuchFile "[]" "''ctl''" 0]]
  by (simp add: sys_init_def NewOrchestrator_def Let_def)

lemma running_state_is_locked_witness:
  "\<exists>s. reachable s \<and> oRunning (sOrch s) \<and>
    (oRunning (sOrch (sys_step 4 (EvConfig DefaultConfig) s)) \<longrightarrow>
      run_core (sOrch (sys_step 4 (EvConfig DefaultConfig) s)) = run_core (sOrch s))"
  using running_state_is_locked announced_state by blast

end
