(* ===== verification/RunProgress.thy ===== *)
theory RunProgress
  imports RunSystem
begin

text \<open>
  Two more things that hold of every reachable state of the system: the recorded phase spans tile
  the run in time, and the run's goroutine can always get to its end, in a number of steps that is
  bounded by what it has left to do.
\<close>

section \<open>Phase spans\<close>

definition span_times :: "time \<Rightarrow> PhaseSpan \<Rightarrow> bool" where
  "span_times now p \<longleftrightarrow>
    psStart p \<le> now \<and> (case psEnd p of None \<Rightarrow> True | Some e \<Rightarrow> psStart p \<le> e \<and> e \<le> now)"

definition ends_before :: "PhaseSpan \<Rightarrow> PhaseSpan \<Rightarrow> bool" where
  "ends_before p q \<longleftrightarrow> (case psEnd p of None \<Rightarrow> False | Some e \<Rightarrow> e \<le> psStart q)"

text \<open>Spans follow one another without overlap, and only the last may be open.\<close>

definition tiled :: "time \<Rightarrow> PhaseSpan list \<Rightarrow> bool" where
  "tiled now ps \<longleftrightarrow> sorted_wrt ends_before ps \<and> list_all (span_times now) ps"

definition last_open :: "PhaseSpan list \<Rightarrow> bool" where
  "last_open ps \<longleftrightarrow> ps \<noteq> [] \<and> psEnd (last ps) = None"

definition close_last :: "time \<Rightarrow> PhaseSpan list \<Rightarrow> PhaseSpan list" where
  "close_last t ps = (if last_open ps then butlast ps @ [(last ps)\<lparr>psEnd := Some t\<rparr>] else ps)"

lemma span_times_mono: "span_times t p \<Longrightarrow> t \<le> now \<Longrightarrow> span_times now p"
  by (auto simp: span_times_def split: option.splits)

lemma tiled_mono: "tiled t ps \<Longrightarrow> t \<le> now \<Longrightarrow> tiled now ps"
  by (auto simp: tiled_def list_all_iff intro: span_times_mono)

lemma tiled_snoc:
  "tiled now (ps @ [p]) \<longleftrightarrow> tiled now ps \<and> list_all (\<lambda>q. ends_before q p) ps \<and> span_times now p"
  by (auto simp: tiled_def sorted_wrt_append list_all_iff)

lemma tiled_close: "tiled t ps \<Longrightarrow> t \<le> now \<Longrightarrow> tiled now (close_last now ps)"
proof (cases "last_open ps")
  case True
  assume ps: "tiled t ps" and t: "t \<le> now"
  from True have "ps = butlast ps @ [last ps]" by (simp add: last_open_def)
  with tiled_mono [OF ps t] have "tiled now (butlast ps @ [last ps])" by simp
  then show ?thesis using True
    by (auto simp: close_last_def tiled_snoc last_open_def span_times_def ends_before_def list_all_iff
        split: option.splits)
qed (simp add: close_last_def tiled_mono)

lemma closed_close: "tiled t ps \<Longrightarrow> spans_closed (close_last now ps)"
proof (cases "ps = []")
  case False
  assume ps: "tiled t ps"
  from False have "ps = butlast ps @ [last ps]" by simp
  with ps have "tiled t (butlast ps @ [last ps])" by simp
  then have "\<forall>q \<in> set (butlast ps). psEnd q \<noteq> None"
    by (auto simp: tiled_snoc list_all_iff ends_before_def split: option.splits)
  moreover have "set ps = insert (last ps) (set (butlast ps))"
    using False by (metis append_butlast_last_id list.simps(15) rotate1.simps(2) set_rotate1)
  ultimately show ?thesis by (auto simp: close_last_def last_open_def spans_closed_def)
qed (simp add: close_last_def last_open_def spans_closed_def)

lemma tiled_open:
  assumes "tiled t ps" "t \<le> now"
  shows "tiled now (close_last now ps @ [\<lparr>psPhase = ph, psStart = now, psEnd = None\<rparr>])"
proof -
  let ?ps = "close_last now ps"
  have "tiled now ?ps" using assms by (rule tiled_close)
  moreover have "list_all (\<lambda>q. ends_before q \<lparr>psPhase = ph, psStart = now, psEnd = None\<rparr>) ?ps"
    using closed_close [OF assms(1), of now] \<open>tiled now ?ps\<close>
    by (auto simp: tiled_def list_all_iff spans_closed_def ends_before_def span_times_def split: option.splits)
  ultimately show ?thesis by (simp add: tiled_snoc span_times_def)
qed

text \<open>The invariant of the spans, over the fields it speaks of.\<close>

definition span_view :: "Orchestrator \<Rightarrow> PhaseSpan list \<times> phase \<times> bool" where
  "span_view o1 = (oPhaseSpans o1, oPhase o1, oRunning o1)"

fun spans_inv :: "time \<Rightarrow> PhaseSpan list \<times> phase \<times> bool \<Rightarrow> bool" where
  "spans_inv now (ps, ph, running) \<longleftrightarrow>
    tiled now ps \<and> (running \<or> spans_closed ps) \<and> (last_open ps \<longrightarrow> psPhase (last ps) = ph)"

lemma spans_inv_mono: "spans_inv t v \<Longrightarrow> t \<le> now \<Longrightarrow> spans_inv now v"
  by (cases v) (auto intro: tiled_mono)

lemma close_not_open: "tiled t ps \<Longrightarrow> \<not> last_open (close_last now ps)"
  using closed_close [of t ps now] unfolding spans_closed_def last_open_def by (metis last_in_set)

lemma spans_inv_close: "spans_inv t (ps, ph, r) \<Longrightarrow> t \<le> now \<Longrightarrow> spans_inv now (close_last now ps, ph', r')"
  by (auto intro: tiled_close closed_close simp: close_not_open)

lemma spans_inv_open:
  "spans_inv t (ps, ph, r) \<Longrightarrow> t \<le> now \<Longrightarrow>
   spans_inv now (close_last now ps @ [\<lparr>psPhase = ph', psStart = now, psEnd = None\<rparr>], ph', True)"
  by (auto intro: tiled_open)

lemma closePhaseSpan_eq: "oPhaseSpans (closePhaseSpanLocked t o1) = close_last t (oPhaseSpans o1)"
  by (simp add: closePhaseSpanLocked_def close_last_def last_open_def)

lemma phase_frame:
  "oPhase (closePhaseSpanLocked t o1) = oPhase o1" "oPhase (freeze_elapsed t o1) = oPhase o1"
  by (simp_all add: closePhaseSpanLocked_def freeze_elapsed_def split: option.split)

lemma span_view_setPhase:
  assumes "spans_inv t (span_view o1)" "t \<le> now" "oRunning o1"
  shows "spans_inv now (span_view (setPhase now ph pct msg o1))"
proof (cases "ph \<noteq> oPhase o1 \<or> oPhaseSpans o1 = []")
  case True
  with spans_inv_open [of t "oPhaseSpans o1" "oPhase o1" "oRunning o1" now ph] assms
  show ?thesis by (simp add: span_view_def setPhase_def Let_def closePhaseSpan_eq)
next
  case False
  with spans_inv_mono [OF assms(1,2)] assms(3) show ?thesis by (simp add: span_view_def setPhase_def)
qed

lemma span_view_finish:
  "spans_inv t (span_view o1) \<Longrightarrow> t \<le> now \<Longrightarrow> spans_inv now (span_view (finish now msg o1))"
  using spans_inv_close [of t "oPhaseSpans o1" "oPhase o1" "oRunning o1" now PhaseIdle False]
  by (simp add: span_view_def finish_def Let_def closePhaseSpan_eq)

lemma span_views [simp]:
  "span_view (fst (Stop now o1)) =
    (if oRunning o1 \<and> oFailMessage o1 = [] then (close_last now (oPhaseSpans o1), PhaseStopped, True)
     else span_view o1)"
  "span_view (fst (OnClientRemoved now cid host o1)) =
    (if oRunning o1 \<and> oFailMessage o1 = [] \<and>
        (case oRunClientSet o1 of Some s \<Rightarrow> cid \<in> set s | None \<Rightarrow> cid \<in> set (oRunClientIDs o1))
     then (close_last now (oPhaseSpans o1), PhaseStopped, True) else span_view o1)"
  by (simp add: span_view_def Stop_def Let_def closePhaseSpan_eq phase_frame)
    (cases "oRunClientSet o1";
      simp add: span_view_def OnClientRemoved_def Let_def closePhaseSpan_eq phase_frame)

lemma span_view_stop:
  assumes "spans_inv t (span_view o1)" "t \<le> now"
  shows "spans_inv now (span_view (fst (Stop now o1)))"
    and "spans_inv now (span_view (fst (OnClientRemoved now cid host o1)))"
  using spans_inv_close [of t "oPhaseSpans o1" "oPhase o1" "oRunning o1" now PhaseStopped True]
    spans_inv_mono [OF assms] assms
  by (simp_all only: span_views split: if_split) (simp_all only: span_view_def simp_thms)

text \<open>Everything else leaves the view alone, or starts from no span.\<close>

lemma span_view_quiet:
  "span_view (send x o1) = span_view o1" "span_view (broadcastRun env o1) = span_view o1"
  "span_view (o1\<lparr>oMetrics := m\<rparr>) = span_view o1" "span_view (cleanupSoftware ps tn o1) = span_view o1"
proof -
  show sent: "span_view (send x o1) = span_view o1" for x o1 by (simp add: span_view_def)
  show "span_view (broadcastRun env o1) = span_view o1" by (simp add: broadcastRun_def sent)
  show "span_view (o1\<lparr>oMetrics := m\<rparr>) = span_view o1" by (simp add: span_view_def)
  show "span_view (cleanupSoftware ps tn o1) = span_view o1"
    unfolding cleanupSoftware_def by (induction ps arbitrary: o1) (simp_all add: Let_def sent)
qed

lemma exec_spans:
  assumes "exec now c choice o1 as = Some (o2, as2, new)" "spans_inv t (span_view o1)" "t \<le> now"
    and "oRunning o1 \<or> list_all quiet as"
  shows "spans_inv now (span_view o2)"
proof (cases as)
  case (Cons a bs)
  note mono = spans_inv_mono [OF assms(2,3)]
  show ?thesis
  proof (cases a)
    case (ASetPhase ph pct msg)
    with Cons assms span_view_setPhase [OF assms(2,3)] show ?thesis by auto
  next
    case (AFinish msg)
    with Cons assms span_view_finish [OF assms(2,3)] show ?thesis by auto
  qed (use Cons assms(1) mono in \<open>auto simp: span_view_quiet split: if_splits option.splits\<close>)
qed (use assms(1) in simp)

lemma keep_span_view:
  "span_view (keep (SetSelectedClients ids o1) o1) = span_view o1"
  "span_view (keep (UpdateParticipants u o1) o1) = span_view o1"
  "span_view (OnClientRegistered cid o1) = span_view o1" "span_view (UpdateClientFiles n o1) = span_view o1"
  "span_view (snd (SetPhaseEnabled ph en o1)) = span_view o1"
  "span_view (o1\<lparr>oRegistry := r\<rparr>) = span_view o1"
  by (simp_all add: span_view_def keep_def SetSelectedClients_def UpdateParticipants_def
      OnClientRegistered_def UpdateClientFiles_def SetPhaseEnabled_def publish_config_def Let_def)

lemma config_span_view: "span_view (keep (SetConfig cfg o1) o1) = span_view o1"
proof -
  have "span_view (publish_config c (o1\<lparr>oCfg := c, oRegistry := r\<rparr>)) = span_view o1" for c r
    by (simp add: publish_config_def Let_def span_view_def)
  then show ?thesis using SetConfig_cases [of cfg o1] by (elim disjE exE) simp_all
qed

lemma step_spans:
  assumes "sys_ok s" "spans_inv (sNow s) (span_view (sOrch s))" "sNow s \<le> now"
  shows "spans_inv now (span_view (sOrch (event_step now e s)))"
proof -
  note mono = spans_inv_mono [OF assms(2,3)]
  show ?thesis
  proof (cases e)
    case (EvRun choice)
    show ?thesis
    proof (cases "exec now (sCtx s \<in> set (sCancelled s)) choice (sOrch s) (sRun s)")
      case (Some r)
      obtain o2 as2 new where r: "r = (o2, as2, new)" by (cases r)
      have "sRun s \<noteq> []" using Some by auto
      then have "oRunning (sOrch s)" using run_ok_shape [OF sys_okD(1) [OF assms(1)]] by blast
      with exec_spans [OF Some [unfolded r] assms(2,3)] show ?thesis
        by (simp add: EvRun step_run_def Some r)
    qed (simp add: EvRun step_run_def mono)
  next
    case (EvOther i choice)
    consider "step_other now i choice s = s" | o2 as2 new where "i < length (sOthers s)"
      "exec now False choice (sOrch s) (sOthers s ! i) = Some (o2, as2, new)"
      by (cases "i < length (sOthers s)"; cases "exec now False choice (sOrch s) (sOthers s ! i)")
        (auto simp: step_other_def)
    then show ?thesis
    proof cases
      case (2 o2 as2 new)
      have "list_all quiet (sOthers s ! i)" using 2(1) sys_okD(2) [OF assms(1)] by (simp add: list_all_length)
      with exec_spans [OF 2(2) assms(2,3)] 2 show ?thesis by (simp add: EvOther step_other_def)
    qed (simp add: EvOther mono)
  next
    case EvStart
    have "spans_inv now (span_view o2)" if "Start now (sNext s) (sOrch s) = Inr (o2, as)" for o2 as
      using Start_cases [OF that] by (simp add: span_view_def tiled_def spans_closed_def last_open_def)
    with mono show ?thesis by (auto simp: EvStart step_start_def split: sum.split)
  next
    case EvStop
    with span_view_stop(1) [OF assms(2,3)] show ?thesis by (simp add: spawn_def del: span_views)
  next
    case (EvRemoved cid host)
    with span_view_stop(2) [OF assms(2,3)] show ?thesis by (simp add: spawn_def del: span_views)
  qed (simp_all add: on_orch_def keep_span_view config_span_view span_view_quiet mono)
qed

text \<open>
  C23. In every reachable state the phase spans tile the time: each starts before it ends, none
  overlaps the next, only the last may be open and it is then the current phase, and none is open
  when no run is on.
\<close>

theorem phase_spans_tile_the_run:
  assumes "reachable s"
  shows "tiled (sNow s) (oPhaseSpans (sOrch s)) \<and>
    (oRunning (sOrch s) \<or> spans_closed (oPhaseSpans (sOrch s))) \<and>
    (last_open (oPhaseSpans (sOrch s)) \<longrightarrow> psPhase (last (oPhaseSpans (sOrch s))) = oPhase (sOrch s))"
proof -
  from assms have "spans_inv (sNow s) (span_view (sOrch s))"
  proof (induction rule: reachable.induct)
    case (init loaded path host now)
    show ?case
      by (simp add: sys_init_def NewOrchestrator_def Let_def span_view_def tiled_def spans_closed_def last_open_def)
  next
    case (step s now e)
    from step_spans [OF sys_ok_reachable [OF step.hyps(1)] step.IH step.hyps(2), of e]
    show ?case by (simp add: sys_step_def)
  qed
  then show ?thesis by (simp add: span_view_def)
qed

lemma phase_spans_tile_the_run_witness:
  "tiled 3 (oPhaseSpans (sOrch (run_trace (replicate 4 (3, EvRun True)) (started bare_config))))"
proof -
  have "reachable (run_trace (replicate 4 (3, EvRun True)) (started bare_config))"
    by (rule reachable_started) (simp add: numeral_eq_Suc)
  moreover have "sNow (run_trace (replicate 4 (3, EvRun True)) (started bare_config)) = 3"
    by (simp add: run_trace_def sys_step_def numeral_eq_Suc)
  ultimately show ?thesis using phase_spans_tile_the_run by fastforce
qed

section \<open>The run can always end\<close>

fun weight :: "act \<Rightarrow> nat" where
  "weight (ACall c) = 5"
| "weight (AWait d) = 2"
| "weight (AWaitIdle d) = 2"
| "weight ADefer = 3"
| "weight _ = 1"

definition left_to_do :: "act list \<Rightarrow> nat" where [go_eval]:
  "left_to_do as = (\<Sum>a\<leftarrow>as. weight a)"

lemma left_simps [simp]: "left_to_do [] = 0" "left_to_do (a # as) = weight a + left_to_do as"
  "left_to_do (xs @ ys) = left_to_do xs + left_to_do ys"
  by (simp_all add: left_to_do_def)

lemma call_weight: "left_to_do (call_acts cfg c) < 5"
proof (cases c)
  case (CallPrepare k)
  then show ?thesis by (cases k) simp_all
qed (simp_all add: sendAndWait_def runSoftwarePhase_def sendFinalCleanup_def)

text \<open>The time from which the first action cannot wait any longer.\<close>

fun due_time :: "act list \<Rightarrow> time" where
  "due_time (ATimer t # as) = t"
| "due_time (APoll deadline grace saw want ids # as) = deadline + 1"
| "due_time _ = 0"

lemma exec_progress:
  assumes "as \<noteq> []" "due_time as \<le> now"
  shows "\<exists>o2 as2 new. exec now c True o1 as = Some (o2, as2, new) \<and> left_to_do as2 < left_to_do as"
proof (cases as)
  case (Cons a bs)
  show ?thesis
  proof (cases a)
    case (ACall d)
    with Cons call_weight [of "oCfg o1" d] show ?thesis by simp
  next
    case (APoll deadline grace saw want ids)
    then have "wait_poll now deadline grace want st saw = None" for st
      using Cons assms(2) by (simp add: wait_poll_def)
    with Cons APoll show ?thesis by simp
  qed (use Cons assms(2) in simp_all)
qed (use assms(1) in simp)

text \<open>
  C10. From every reachable state with a run on, the run's goroutine can end the run by itself, in
  at most as many steps as the weight of what it has left (at most five for each call of the body):
  no action of it can block for ever, whatever the clients report.
\<close>

theorem run_can_end:
  assumes "reachable s" "oRunning (sOrch s)"
  shows "\<exists>es. length es \<le> left_to_do (sRun s) \<and> sorted (sNow s # map fst es) \<and>
    list_all (\<lambda>te. snd te = EvRun True) es \<and> \<not> oRunning (sOrch (run_trace es s))"
  using assms
proof (induction "left_to_do (sRun s)" arbitrary: s rule: less_induct)
  case less
  note ok = sys_okD(1) [OF sys_ok_reachable [OF less.prems(1)]]
  have "sRun s \<noteq> []" using ok less.prems(2) run_shape_alive by (auto simp: run_ok_def)
  define now where "now = max (sNow s) (due_time (sRun s))"
  obtain o2 as2 new where ex: "exec now (sCtx s \<in> set (sCancelled s)) True (sOrch s) (sRun s) = Some (o2, as2, new)"
    and dec: "left_to_do as2 < left_to_do (sRun s)"
    using exec_progress [OF \<open>sRun s \<noteq> []\<close>, of now "sCtx s \<in> set (sCancelled s)" "sOrch s"]
    by (auto simp only: now_def max.cobounded2)
  let ?s = "sys_step now (EvRun True) s"
  have s: "sRun ?s = as2" "sNow ?s = now" using ex by (simp_all add: sys_step_def step_run_def)
  have r: "reachable ?s" using less.prems(1) by (rule reachable.step) (simp add: now_def)
  have trace: "run_trace ((now, EvRun True) # es) s = run_trace es ?s" for es
    by (simp add: run_trace_def)
  show ?case
  proof (cases "oRunning (sOrch ?s)")
    case True
    with less.hyps [of ?s] r dec s obtain es where es: "length es \<le> left_to_do as2"
      "sorted (now # map fst es)" "list_all (\<lambda>te. snd te = EvRun True) es"
      "\<not> oRunning (sOrch (run_trace es ?s))" by auto
    have "sorted (sNow s # map fst ((now, EvRun True) # es))"
      using es(2) by (auto simp: now_def)
    with es dec show ?thesis
      by (intro exI [of _ "(now, EvRun True) # es"]) (simp add: trace)
  next
    case False
    then have "\<not> oRunning (sOrch (run_trace [(now, EvRun True)] s))" by (simp add: run_trace_def)
    moreover have "sorted (sNow s # map fst [(now, EvRun True)])" by (simp add: now_def)
    moreover have "length [(now, EvRun True)] \<le> left_to_do (sRun s)" using dec by simp
    ultimately show ?thesis by (intro exI [of _ "[(now, EvRun True)]"]) simp
  qed
qed

lemma run_can_end_witness:
  "\<exists>es. \<not> oRunning (sOrch (run_trace es (run_trace [(3, EvRun True), (3, EvRun True)] (started bare_config))))"
  using run_can_end announced_state by blast

end
