(* ===== verification/Paths.thy ===== *)
theory Paths
  imports Prelude "HOL-Library.Signed_Division"
begin

text \<open>
  Slash-separated paths. First the lexical functions of Go's \<open>path/filepath\<close> the sources use
  (\<open>Clean\<close>, \<open>Join\<close>, \<open>Base\<close>, \<open>Dir\<close>, \<open>Rel\<close>), then the layout of the test tree
  (\<^verbatim>\<open>internal/client/paths.go\<close>, \<open>Dir\<close> of \<^verbatim>\<open>internal/software/unpack.go\<close>): a
  client's files lie below \<^verbatim>\<open><prefix>/<test>/<hostname>\<close>, the shared packages below
  \<^verbatim>\<open><prefix>/<test>/software\<close>.
\<close>

section \<open>Splitting and joining\<close>

fun split_slash :: "string \<Rightarrow> string list" where
  "split_slash [] = [[]]"
| "split_slash (c # cs) =
    (if c = CHR ''/'' then [] # split_slash cs
     else case split_slash cs of [] \<Rightarrow> [[c]] | w # ws \<Rightarrow> (c # w) # ws)"

fun join_slash :: "string list \<Rightarrow> string" where
  "join_slash [] = []"
| "join_slash [w] = w"
| "join_slash (w # v # ws) = w @ CHR ''/'' # join_slash (v # ws)"

lemma split_slash_not_Nil [simp]: "split_slash s \<noteq> []"
  by (induction s) (auto split: list.splits)

lemma split_slash_append [simp]:
  "split_slash (s @ CHR ''/'' # t) = split_slash s @ split_slash t"
  by (induction s) (auto split: list.splits)

lemma split_slash_word: "CHR ''/'' \<notin> set w \<Longrightarrow> split_slash w = [w]"
  by (induction w) auto

lemma split_slash_words: "w \<in> set (split_slash s) \<Longrightarrow> CHR ''/'' \<notin> set w"
  by (induction s arbitrary: w) (auto split: list.splits if_splits)

lemma join_split_slash [simp]: "join_slash (split_slash s) = s"
proof (induction s)
  case (Cons c cs)
  then show ?case by (cases "split_slash cs" rule: join_slash.cases) auto
qed simp

lemma split_join_slash: "es \<noteq> [] \<Longrightarrow> split_slash (join_slash es) = concat (map split_slash es)"
  by (induction es rule: join_slash.induct) auto

lemma split_join_words:
  "ws \<noteq> [] \<Longrightarrow> (\<And>w. w \<in> set ws \<Longrightarrow> CHR ''/'' \<notin> set w) \<Longrightarrow> split_slash (join_slash ws) = ws"
  by (induction ws rule: join_slash.induct) (auto simp: split_slash_word)

lemma hd_join_slash: "w \<noteq> [] \<Longrightarrow> hd (join_slash (w # ws)) = hd w"
  by (cases ws) auto

lemma join_slash_eq_Nil: "join_slash ws = [] \<longleftrightarrow> ws = [] \<or> ws = [[]]"
  by (cases ws rule: join_slash.cases) auto

section \<open>\<open>Clean\<close>\<close>

definition rooted :: "string \<Rightarrow> bool" where [go_eval]:
  "rooted p \<longleftrightarrow> p \<noteq> [] \<and> hd p = CHR ''/''"

definition clean_step :: "bool \<Rightarrow> string list \<Rightarrow> string \<Rightarrow> string list" where [go_eval]:
  "clean_step r st w =
    (if w = [] \<or> w = ''.'' then st
     else if w = ''..'' then
       (case st of [] \<Rightarrow> if r then [] else [w] | v # vs \<Rightarrow> if v = ''..'' then w # st else vs)
     else w # st)"

definition clean_words :: "string \<Rightarrow> string list" where [go_eval]:
  "clean_words p = rev (foldl (clean_step (rooted p)) [] (split_slash p))"

definition render :: "bool \<Rightarrow> string list \<Rightarrow> string" where [go_eval]:
  "render r ws = (if r then CHR ''/'' # join_slash ws else if ws = [] then ''.'' else join_slash ws)"

definition Clean :: "string \<Rightarrow> string" where [go_eval]:
  "Clean p = render (rooted p) (clean_words p)"

text \<open>\<open>Join\<close> ignores leading empty elements and cleans the rest; nothing at all gives the empty
  string.\<close>

definition Join :: "string list \<Rightarrow> string" where [go_eval]:
  "Join es =
    (let es = dropWhile (\<lambda>e. e = []) es in if es = [] then [] else Clean (join_slash es))"

text \<open>A word that \<open>Clean\<close> keeps wherever it stands.\<close>

definition proper :: "string \<Rightarrow> bool" where
  "proper w \<longleftrightarrow> w \<noteq> [] \<and> w \<noteq> ''.'' \<and> w \<noteq> ''..'' \<and> CHR ''/'' \<notin> set w"

lemma clean_step_proper: "proper w \<Longrightarrow> clean_step r st w = w # st"
  by (simp add: clean_step_def proper_def)

lemma clean_fold_proper: "list_all proper ws \<Longrightarrow> foldl (clean_step r) st ws = rev ws @ st"
  by (induction ws arbitrary: st) (simp_all add: clean_step_proper)

text \<open>The stack \<open>Clean\<close> builds: proper words over a number of dot-dots, none of them under a
  root.\<close>

definition clean_stack :: "bool \<Rightarrow> string list \<Rightarrow> bool" where
  "clean_stack r st \<longleftrightarrow>
    (\<exists>ws k. st = ws @ replicate k ''..'' \<and> list_all proper ws \<and> (r \<longrightarrow> k = 0))"

lemma clean_stack_Nil [simp]: "clean_stack r []"
  unfolding clean_stack_def by (intro exI [of _ "[]"] exI [of _ 0]) simp

lemma clean_stack_step:
  assumes "clean_stack r st" "CHR ''/'' \<notin> set w"
  shows "clean_stack r (clean_step r st w)"
proof -
  obtain ws k where st: "st = ws @ replicate k ''..''" "list_all proper ws" "r \<longrightarrow> k = 0"
    using assms(1) by (auto simp: clean_stack_def)
  consider "w = [] \<or> w = ''.''" | "w = ''..''" | "proper w"
    using assms(2) by (auto simp: proper_def)
  then show ?thesis
  proof cases
    case 1
    then have "clean_step r st w = st" by (simp add: clean_step_def)
    with assms(1) show ?thesis by simp
  next
    case 2
    show ?thesis
    proof (cases ws)
      case Nil
      then have "clean_step r st w = replicate (if r then 0 else Suc k) ''..''"
        using 2 st by (cases k) (simp_all add: clean_step_def)
      then show ?thesis unfolding clean_stack_def
        by (intro exI [of _ "[]"] exI [of _ "if r then 0 else Suc k"]) simp
    next
      case (Cons v vs)
      then have "clean_step r st w = vs @ replicate k ''..''"
        using 2 st by (simp add: clean_step_def proper_def)
      then show ?thesis using st Cons unfolding clean_stack_def by auto
    qed
  next
    case 3
    with st show ?thesis unfolding clean_stack_def
      by (intro exI [of _ "w # ws"] exI [of _ k]) (simp add: clean_step_proper)
  qed
qed

lemma clean_stack_fold:
  "clean_stack r st \<Longrightarrow> (\<And>w. w \<in> set ws \<Longrightarrow> CHR ''/'' \<notin> set w) \<Longrightarrow>
   clean_stack r (foldl (clean_step r) st ws)"
  by (induction ws arbitrary: st) (simp_all add: clean_stack_step)

lemma clean_fold_dots:
  "\<not> r \<Longrightarrow> foldl (clean_step r) (replicate j ''..'') (replicate k ''..'') = replicate (j + k) ''..''"
proof (induction k arbitrary: j)
  case (Suc k)
  then have "clean_step r (replicate j ''..'') ''..'' = replicate (Suc j) ''..''"
    by (cases j) (simp_all add: clean_step_def)
  with Suc show ?case by (simp del: replicate.simps add: replicate_Suc [of k])
qed simp

lemma clean_fold_stack: "clean_stack r st \<Longrightarrow> foldl (clean_step r) [] (rev st) = st"
proof -
  assume "clean_stack r st"
  then obtain ws k where st: "st = ws @ replicate k ''..''" "list_all proper ws" "r \<longrightarrow> k = 0"
    by (auto simp: clean_stack_def)
  have "foldl (clean_step r) [] (replicate k ''..'') = replicate k ''..''"
    using st(3) clean_fold_dots [of r 0 k] by (cases r) simp_all
  with st(1,2) show ?thesis by (simp add: clean_fold_proper list_all_iff)
qed

lemma clean_words_stack: "clean_stack (rooted p) (rev (clean_words p))"
  unfolding clean_words_def rev_rev_ident
  by (rule clean_stack_fold) (auto dest: split_slash_words)

lemma clean_stackD: "clean_stack r (rev ws) \<Longrightarrow> w \<in> set ws \<Longrightarrow> w \<noteq> [] \<and> w \<noteq> ''.'' \<and> CHR ''/'' \<notin> set w"
proof -
  assume "clean_stack r (rev ws)" and w: "w \<in> set ws"
  then obtain ps k where ps: "rev ws = ps @ replicate k ''..''" "list_all proper ps"
    unfolding clean_stack_def by blast
  have "set ws = set (ps @ replicate k ''..'')" by (metis ps(1) set_rev)
  with w have "w \<in> set ps \<or> w = ''..''" by (simp only: set_append Un_iff in_set_replicate) blast
  then show ?thesis
  proof
    assume "w \<in> set ps"
    with ps(2) have "proper w" by (simp add: list_all_iff)
    then show ?thesis by (simp add: proper_def)
  qed simp
qed

text \<open>The words and the root can be read back from the rendered path.\<close>

lemma render_words:
  assumes "clean_stack r (rev ws)"
  shows "rooted (render r ws) = r" "clean_words (render r ws) = ws"
    "split_slash (render r ws) = (if r then [] # (if ws = [] then [[]] else ws)
       else if ws = [] then [''.''] else ws)"
proof -
  note words = clean_stackD [OF assms]
  have hd: "hd (join_slash ws) \<noteq> CHR ''/''" if ne: "ws \<noteq> []"
  proof -
    obtain v vs where ws: "ws = v # vs" using ne by (cases ws) auto
    with words [of v] have "v \<noteq> []" "CHR ''/'' \<notin> set v" by simp_all
    with ws show ?thesis by (metis hd_in_set hd_join_slash)
  qed
  show r: "rooted (render r ws) = r" using hd by (auto simp: render_def rooted_def)
  have split: "split_slash (join_slash ws) = ws" if "ws \<noteq> []" using that words by (intro split_join_words) auto
  then show s: "split_slash (render r ws) = (if r then [] # (if ws = [] then [[]] else ws)
      else if ws = [] then [''.''] else ws)"
    by (simp add: render_def)
  have "clean_step b [] [] = []" "clean_step b [] ''.'' = []" for b by (simp_all add: clean_step_def)
  then show "clean_words (render r ws) = ws"
    using clean_fold_stack [OF assms] unfolding clean_words_def r s by (cases r; cases "ws = []") simp_all
qed

lemma Clean_facts [simp]:
  "rooted (Clean p) = rooted p" "clean_words (Clean p) = clean_words p" "Clean (Clean p) = Clean p"
  using render_words [OF clean_words_stack] by (simp_all add: Clean_def)

text \<open>What \<open>Join\<close> gives: the words of all elements, cleaned together.\<close>

definition join_rooted :: "string list \<Rightarrow> bool" where
  "join_rooted es = (case dropWhile (\<lambda>e. e = []) es of [] \<Rightarrow> False | e # _ \<Rightarrow> rooted e)"

lemma fold_skip_empty:
  "foldl (clean_step r) st (concat (map split_slash (dropWhile (\<lambda>e. e = []) es))) =
   foldl (clean_step r) st (concat (map split_slash es))"
  by (induction es) (simp_all add: clean_step_def)

lemma Join_facts:
  "rooted (Join es) = join_rooted es"
  "clean_words (Join es) = rev (foldl (clean_step (join_rooted es)) [] (concat (map split_slash es)))"
proof -
  let ?es = "dropWhile (\<lambda>e. e = []) es"
  show r: "rooted (Join es) = join_rooted es"
  proof (cases ?es)
    case (Cons e fs)
    with hd_dropWhile [of "\<lambda>e. e = []" es] have "e \<noteq> []" by simp
    then have "hd (join_slash (e # fs)) = hd e" "join_slash (e # fs) \<noteq> []"
      by (simp_all add: hd_join_slash join_slash_eq_Nil)
    with \<open>e \<noteq> []\<close> have "rooted (join_slash (e # fs)) = rooted e" by (simp only: rooted_def simp_thms)
    then show ?thesis by (simp only: Join_def join_rooted_def Cons Let_def Clean_facts list.case) simp
  next
    case Nil
    then have "Join es = []" "join_rooted es = False" by (simp_all only: Join_def join_rooted_def Let_def) simp_all
    then show ?thesis by (simp add: rooted_def)
  qed
  show "clean_words (Join es) = rev (foldl (clean_step (join_rooted es)) [] (concat (map split_slash es)))"
  proof (cases "?es = []")
    case True
    have "Join es = []" "foldl (clean_step (join_rooted es)) [] (concat (map split_slash es)) = []"
      using fold_skip_empty [of "join_rooted es" "[]" es] by (simp_all add: Join_def True)
    then show ?thesis by (simp add: clean_words_def clean_step_def)
  next
    case False
    then have "Join es = Clean (join_slash ?es)" by (simp only: Join_def Let_def if_False)
    then have "rooted (join_slash ?es) = join_rooted es" "clean_words (Join es) = clean_words (join_slash ?es)"
      using r by simp_all
    then show ?thesis
      using False by (simp add: clean_words_def split_join_slash fold_skip_empty)
  qed
qed

lemma proper_not_rooted: "proper w \<Longrightarrow> \<not> rooted w"
  by (cases w) (auto simp: proper_def rooted_def)

lemma Join_proper:
  assumes "list_all proper ws"
  shows "clean_words (Join (es @ ws)) = clean_words (Join es) @ ws" "rooted (Join (es @ ws)) = rooted (Join es)"
proof -
  have "join_rooted ws = False" if "list_all proper ws" for ws
  proof (cases ws)
    case (Cons v vs)
    with that have "proper v" by simp
    then have "v \<noteq> []" "\<not> rooted v" by (simp_all only: proper_def proper_not_rooted simp_thms)
    with Cons show ?thesis by (simp add: join_rooted_def)
  qed (simp add: join_rooted_def)
  with assms have r: "join_rooted (es @ ws) = join_rooted es"
    by (induction es) (auto simp: join_rooted_def)
  have "concat (map split_slash ws) = ws"
    using assms by (induction ws) (auto simp: split_slash_word proper_def)
  with r show "clean_words (Join (es @ ws)) = clean_words (Join es) @ ws"
    "rooted (Join (es @ ws)) = rooted (Join es)"
    using assms by (simp_all add: Join_facts clean_fold_proper)
qed

section \<open>\<open>Base\<close>, \<open>Dir\<close> and \<open>Rel\<close>\<close>

definition Base :: "string \<Rightarrow> string" where [go_eval]:
  "Base p =
    (if p = [] then ''.''
     else let q = rev (dropWhile (\<lambda>c. c = CHR ''/'') (rev p))
          in if q = [] then ''/'' else last (split_slash q))"

definition Dir :: "string \<Rightarrow> string" where [go_eval]:
  "Dir p = Clean (take (length p - length (last (split_slash p))) p)"

text \<open>
  \<open>Rel\<close> compares the cleaned paths word by word; a rooted path has an empty word before its root,
  and the root itself nothing after it. The error is \<open>None\<close>.
\<close>

definition rel_words :: "string \<Rightarrow> string list" where [go_eval]:
  "rel_words p = (if p = [] then [] else if p = ''/'' then [[]] else split_slash p)"

fun drop_common :: "string list \<Rightarrow> string list \<Rightarrow> string list \<times> string list" where
  "drop_common (b # bs) (t # ts) = (if b = t then drop_common bs ts else (b # bs, t # ts))"
| "drop_common bs ts = (bs, ts)"

definition Rel :: "string \<Rightarrow> string \<Rightarrow> string option" where [go_eval]:
  "Rel basepath targpath =
    (let base = Clean basepath; targ = Clean targpath
     in if targ = base then Some ''.''
        else let base = (if base = ''.'' then [] else base)
          in if rooted base \<noteq> rooted targ then None
             else case drop_common (rel_words base) (rel_words targ) of
                    (bs, ts) \<Rightarrow>
                      if bs \<noteq> [] \<and> ts \<noteq> [] \<and> hd bs = ''..'' then None
                      else Some (join_slash (replicate (length bs) ''..'' @ ts)))"

lemma drop_common_append [simp]: "drop_common xs (xs @ ys) = ([], ys)"
  by (induction xs) (cases ys; simp)+

lemma Base_render:
  assumes "proper w"
  shows "Base (render r (ws @ [w])) = w"
proof -
  have words: "CHR ''/'' \<notin> set w" "w \<noteq> []" using assms by (simp_all add: proper_def)
  have "\<exists>pre. join_slash (ws @ [w]) = pre @ w \<and> (pre = [] \<or> last pre = CHR ''/'')"
    by (induction ws rule: join_slash.induct) auto
  then obtain pre where pre: "join_slash (ws @ [w]) = pre @ w" "pre = [] \<or> last pre = CHR ''/''" by blast
  have "\<exists>pre. render r (ws @ [w]) = pre @ w \<and> (pre = [] \<or> last pre = CHR ''/'')"
    using pre by (cases r) (auto simp: render_def)
  then obtain pre where pre: "render r (ws @ [w]) = pre @ w" "pre = [] \<or> last pre = CHR ''/''" by blast
  have "dropWhile (\<lambda>c. c = CHR ''/'') (rev (pre @ w)) = rev (pre @ w)"
    using words by (cases w rule: rev_cases) auto
  moreover have "last (split_slash (pre @ w)) = w"
  proof (cases pre rule: rev_cases)
    case (snoc xs c)
    with pre(2) have "pre @ w = xs @ CHR ''/'' # w" by simp
    then have "split_slash (pre @ w) = split_slash xs @ [w]"
      using split_slash_append [of xs w] split_slash_word [OF words(1)] by simp
    then show ?thesis by simp
  qed (simp add: split_slash_word words)
  ultimately show ?thesis using words by (simp add: Base_def pre(1))
qed

section \<open>The layout of the test tree\<close>

text \<open>\<open>%0nd\<close> of \<open>fmt\<close>: zeros between the sign and the digits up to the width.\<close>

definition zero_pad :: "nat \<Rightarrow> int \<Rightarrow> string" where [go_eval]:
  "zero_pad n k =
    (if k < 0 then CHR ''-'' # replicate (n - 1 - length (decimal_nat (nat (- k)))) CHR ''0'' @ decimal_nat (nat (- k))
     else replicate (n - length (decimal_nat (nat k))) CHR ''0'' @ decimal_nat (nat k))"

text \<open>Go's integer division truncates.\<close>

definition FilePath :: "string \<Rightarrow> string \<Rightarrow> string \<Rightarrow> int \<Rightarrow> string" where [go_eval]:
  "FilePath ps testName hostname index =
    (let shard1 = index sdiv 10000; shard2 = (index sdiv 100) smod 100
     in Join [ps, testName, hostname, zero_pad 4 shard1, zero_pad 2 shard2, zero_pad 8 index])"

definition HostRoot :: "string \<Rightarrow> string \<Rightarrow> string \<Rightarrow> string" where [go_eval]:
  "HostRoot ps testName hostname = Join [ps, testName, hostname]"

definition software_Dir :: "string \<Rightarrow> string \<Rightarrow> string" where [go_eval]:
  "software_Dir ps testName = Join [ps, testName, ''software'']"

definition SoftwareDir :: "string \<Rightarrow> string \<Rightarrow> string" where [go_eval]:
  "SoftwareDir ps testName = software_Dir ps testName"

text \<open>A path lies at or below a root: its words continue those of the root without going up.\<close>

definition under :: "string \<Rightarrow> string \<Rightarrow> bool" where [go_eval]:
  "under base p \<longleftrightarrow>
    rooted p = rooted base \<and> take (length (clean_words base)) (clean_words p) = clean_words base \<and>
    ''..'' \<notin> set (drop (length (clean_words base)) (clean_words p))"

lemma underI:
  "rooted p = rooted base \<Longrightarrow> clean_words p = clean_words base @ ws \<Longrightarrow> ''..'' \<notin> set ws \<Longrightarrow> under base p"
  by (simp add: under_def)

lemma decimal_nat_digits: "c \<in> set (decimal_nat n) \<Longrightarrow> (48::nat) \<le> of_char c \<and> (of_char c :: nat) \<le> 57"
  by (induction n rule: decimal_nat.induct)
    (subst (asm) (2) decimal_nat.simps, auto split: if_splits)

lemma decimal_nat_not_Nil: "decimal_nat n \<noteq> []"
  by (subst decimal_nat.simps) simp

lemma proper_by_code:
  assumes "w \<noteq> []" "\<And>c. c \<in> set w \<Longrightarrow> (of_char c :: nat) \<notin> {46, 47}"
  shows "proper w"
proof -
  have "hd w \<in> set w" using assms(1) by simp
  then have "hd w \<noteq> CHR ''.''" using assms(2) by fastforce
  moreover have "CHR ''/'' \<notin> set w" using assms(2) by fastforce
  ultimately show ?thesis using assms(1) by (auto simp: proper_def)
qed

lemma proper_zero_pad: "proper (zero_pad n k)"
proof (rule proper_by_code)
  show "zero_pad n k \<noteq> []" by (simp add: zero_pad_def decimal_nat_not_Nil)
next
  fix c
  assume "c \<in> set (zero_pad n k)"
  then have "c = CHR ''-'' \<or> c = CHR ''0'' \<or> (\<exists>m. c \<in> set (decimal_nat m))"
    by (auto simp: zero_pad_def split: if_splits)
  then have "(of_char c :: nat) = 45 \<or> (of_char c :: nat) = 48 \<or>
      (48 \<le> (of_char c :: nat) \<and> (of_char c :: nat) \<le> 57)"
    by (auto dest: decimal_nat_digits)
  then show "(of_char c :: nat) \<notin> {46, 47}" by auto
qed

definition shard_words :: "int \<Rightarrow> string list" where
  "shard_words index =
    [zero_pad 4 (index sdiv 10000), zero_pad 2 ((index sdiv 100) smod 100), zero_pad 8 index]"

lemma FilePath_words:
  "clean_words (FilePath ps tn host i) = clean_words (HostRoot ps tn host) @ shard_words i"
  "rooted (FilePath ps tn host i) = rooted (HostRoot ps tn host)"
proof -
  have "FilePath ps tn host i = Join ([ps, tn, host] @ shard_words i)"
    by (simp add: FilePath_def shard_words_def Let_def)
  moreover have "list_all proper (shard_words i)" by (simp add: shard_words_def proper_zero_pad)
  ultimately show "clean_words (FilePath ps tn host i) = clean_words (HostRoot ps tn host) @ shard_words i"
    "rooted (FilePath ps tn host i) = rooted (HostRoot ps tn host)"
    using Join_proper [of "shard_words i" "[ps, tn, host]"] by (simp_all add: HostRoot_def)
qed

lemma proper_shards: "list_all proper (shard_words i)"
  by (simp add: shard_words_def proper_zero_pad)

lemma FilePath_under: "under (HostRoot ps tn host) (FilePath ps tn host i)"
proof (rule underI)
  show "''..'' \<notin> set (shard_words i)" using proper_shards [of i] by (auto simp: list_all_iff proper_def)
qed (simp_all add: FilePath_words)

lemma Clean_Join [simp]: "concat es \<noteq> [] \<Longrightarrow> Clean (Join es) = Join es"
  by (induction es) (auto simp: Join_def)

lemma FilePath_render:
  "FilePath ps tn host i =
    render (rooted (HostRoot ps tn host)) (clean_words (HostRoot ps tn host) @ shard_words i)"
proof -
  have "concat [ps, tn, host, zero_pad 4 (i sdiv 10000), zero_pad 2 ((i sdiv 100) smod 100), zero_pad 8 i] \<noteq> []"
    using proper_zero_pad [of 8 i] by (simp add: proper_def)
  then have "FilePath ps tn host i = Clean (FilePath ps tn host i)" by (simp add: FilePath_def Let_def)
  then show ?thesis by (simp add: Clean_def FilePath_words)
qed

lemma Base_FilePath: "Base (FilePath ps tn host i) = zero_pad 8 i"
proof -
  have "FilePath ps tn host i = render (rooted (HostRoot ps tn host))
      ((clean_words (HostRoot ps tn host) @ butlast (shard_words i)) @ [zero_pad 8 i])"
    by (simp add: FilePath_render shard_words_def)
  then show ?thesis by (simp only: Base_render proper_zero_pad)
qed

text \<open>Reading a decimal number.\<close>

definition digits_value :: "string \<Rightarrow> int" where [go_eval]:
  "digits_value s = foldl (\<lambda>v c. 10 * v + (of_char c - 48)) 0 s"

lemma digit_char: "k < 10 \<Longrightarrow> of_char (char_of (48 + k :: nat)) = (48 + int k)"
proof -
  assume "k < 10"
  then have "(of_char (char_of (48 + k :: nat)) :: nat) = 48 + k" by simp
  then have "int (of_char (char_of (48 + k :: nat))) = 48 + int k" by simp
  then show ?thesis by (simp only: of_nat_of_char)
qed

lemma digits_value_decimal: "foldl (\<lambda>v c. 10 * v + (of_char c - 48)) 0 (decimal_nat n) = int n"
proof (induction n rule: decimal_nat.induct)
  case (1 n)
  show ?case
  proof (cases "n < 10")
    case False
    with 1 have "foldl (\<lambda>v c. 10 * v + (of_char c - 48)) 0 (decimal_nat n) = 10 * int (n div 10) + int (n mod 10)"
      by (subst decimal_nat.simps) (simp add: digit_char)
    moreover have "int (10 * (n div 10) + n mod 10) = int n" by (simp only: mult_div_mod_eq)
    ultimately show ?thesis by (simp only: of_nat_add of_nat_mult of_nat_numeral)
  qed (subst decimal_nat.simps, simp add: digit_char)
qed

lemma digits_value_pad: "0 \<le> k \<Longrightarrow> digits_value (zero_pad n k) = k"
proof -
  have "foldl (\<lambda>v c. 10 * v + (of_char c - 48)) 0 (replicate m CHR ''0'') = (0::int)" for m
    by (induction m) simp_all
  then show "0 \<le> k \<Longrightarrow> digits_value (zero_pad n k) = k"
    by (simp add: digits_value_def zero_pad_def digits_value_decimal)
qed

text \<open>
  C39. The path of a file determines its index: the base name of \<open>FilePath\<close> reads back as the
  index, so no two indices share a path, and every path lies below the client's directory.
\<close>

theorem FilePath_roundtrip:
  assumes "0 \<le> i"
  shows "digits_value (Base (FilePath ps tn host i)) = i \<and> under (HostRoot ps tn host) (FilePath ps tn host i)"
  using assms by (simp add: Base_FilePath digits_value_pad FilePath_under)

lemma FilePath_roundtrip_witness:
  "digits_value (Base (FilePath ''/mnt/a'' ''t'' ''h1'' 123)) = 123 \<and>
   FilePath ''/mnt/a'' ''t'' ''h1'' 123 = ''/mnt/a/t/h1/0000/01/00000123''"
proof
  show "digits_value (Base (FilePath ''/mnt/a'' ''t'' ''h1'' 123)) = 123"
    using FilePath_roundtrip [of 123 "''/mnt/a''" "''t''" "''h1''"] by simp
  show "FilePath ''/mnt/a'' ''t'' ''h1'' 123 = ''/mnt/a/t/h1/0000/01/00000123''" by code_simp
qed

lemma FilePath_inj:
  assumes "0 \<le> i" "0 \<le> j" and eq: "FilePath ps tn host i = FilePath ps tn host j"
  shows "i = j"
proof -
  have read: "digits_value (Base (FilePath ps tn host k)) = k" if "0 \<le> k" for k
    using that by (simp add: Base_FilePath digits_value_pad)
  show ?thesis by (rule trans [OF read [OF assms(1), symmetric]]) (simp only: eq read [OF assms(2)])
qed

end
