(* ===== verification/Ledger.thy ===== *)
theory Ledger
  imports Paths
begin

text \<open>
  The ledger of the files a client has created (\<open>FileLedger\<close> in
  \<^verbatim>\<open>internal/client/worker.go\<close>). The mutex makes every method atomic. File indices are
  counted from 0 by the ledger itself, so they are unbounded integers here.
\<close>

section \<open>State and operations\<close>

record FileLedger =
  flIndices :: "int list"
  flBwIndices :: "int list"
  flNext :: int
  flDelPos :: nat

definition NewFileLedger :: FileLedger where [go_eval]:
  "NewFileLedger = \<lparr>flIndices = [], flBwIndices = [], flNext = 0, flDelPos = 0\<rparr>"

definition ledger_Add :: "int \<Rightarrow> FileLedger \<Rightarrow> FileLedger" where [go_eval]:
  "ledger_Add idx l =
    (let l = l\<lparr>flIndices := flIndices l @ [idx]\<rparr>
     in if idx \<ge> flNext l then l\<lparr>flNext := idx + 1\<rparr> else l)"

definition AddBW :: "int \<Rightarrow> FileLedger \<Rightarrow> FileLedger" where [go_eval]:
  "AddBW idx l =
    (let l = l\<lparr>flIndices := flIndices l @ [idx], flBwIndices := flBwIndices l @ [idx]\<rparr>
     in if idx \<ge> flNext l then l\<lparr>flNext := idx + 1\<rparr> else l)"

definition NextIndex :: "FileLedger \<Rightarrow> int \<times> FileLedger" where [go_eval]:
  "NextIndex l = (flNext l, l\<lparr>flNext := flNext l + 1\<rparr>)"

definition ledger_Count :: "FileLedger \<Rightarrow> int" where [go_eval]:
  "ledger_Count l = int (length (flIndices l))"

definition ledger_Snapshot :: "FileLedger \<Rightarrow> int list" where [go_eval]:
  "ledger_Snapshot l = flIndices l"

definition BWSnapshot :: "FileLedger \<Rightarrow> int list" where [go_eval]:
  "BWSnapshot l = flBwIndices l"

definition ClearBW :: "FileLedger \<Rightarrow> FileLedger" where [go_eval]:
  "ClearBW l = l\<lparr>flBwIndices := []\<rparr>"

definition ResetDeleteCursor :: "FileLedger \<Rightarrow> FileLedger" where [go_eval]:
  "ResetDeleteCursor l = l\<lparr>flDelPos := 0\<rparr>"

definition ledger_Clear :: "FileLedger \<Rightarrow> FileLedger" where [go_eval]:
  "ledger_Clear l = l\<lparr>flIndices := [], flBwIndices := [], flNext := 0, flDelPos := 0\<rparr>"

text \<open>Removing the entry at a position; \<open>exists\<close> says for which paths \<open>os.Stat\<close> succeeds.\<close>

definition drop_at :: "nat \<Rightarrow> 'a list \<Rightarrow> 'a list" where [go_eval]:
  "drop_at i xs = take i xs @ drop (i + 1) xs"

definition take_entry :: "bool \<Rightarrow> FileLedger \<Rightarrow> FileLedger" where [go_eval]:
  "take_entry remove l =
    (if remove then l\<lparr>flIndices := drop_at (flDelPos l) (flIndices l)\<rparr>
     else l\<lparr>flDelPos := flDelPos l + 1\<rparr>)"

lemma length_drop_at: "i < length xs \<Longrightarrow> length (drop_at i xs) = length xs - 1"
  by (simp add: drop_at_def)

function next_existing ::
  "(string \<Rightarrow> bool) \<Rightarrow> (int \<Rightarrow> string) \<Rightarrow> bool \<Rightarrow> nat \<Rightarrow> FileLedger \<Rightarrow> string option \<times> FileLedger"
where
  "next_existing exists path remove scanned l =
    (if scanned < length (flIndices l) then
       if flDelPos l \<ge> length (flIndices l) \<and> remove then (None, l)
       else
         let l = (if flDelPos l \<ge> length (flIndices l) then l\<lparr>flDelPos := 0\<rparr> else l);
             p = path (flIndices l ! flDelPos l)
         in if exists p then (Some p, take_entry remove l)
            else next_existing exists path remove (scanned + 1) (take_entry remove l)
     else (None, l))"
  by pat_completeness auto
termination
proof (relation "measure (\<lambda>(ex, path, remove, scanned, l). length (flIndices l) - scanned)", goal_cases)
  case (2 ex path remove scanned l l2 p)
  then have "length (flIndices (take_entry remove l2)) \<le> length (flIndices l)"
    by (auto simp: take_entry_def length_drop_at split: if_splits)
  with 2 show ?case by auto
qed simp

declare next_existing.simps [simp del]

definition NextExistingPath ::
  "(string \<Rightarrow> bool) \<Rightarrow> string \<Rightarrow> string \<Rightarrow> string \<Rightarrow> bool \<Rightarrow> FileLedger \<Rightarrow> string option \<times> FileLedger"
where [go_eval]:
  "NextExistingPath exists ps testName hostname removeFromLedger l =
    (if length (flIndices l) = 0 then (None, l)
     else next_existing exists (FilePath ps testName hostname) removeFromLedger 0 l)"

section \<open>Invariant\<close>

text \<open>Indices are given out once and never reused.\<close>

definition ledger_ok :: "FileLedger \<Rightarrow> bool" where
  "ledger_ok l \<longleftrightarrow>
    distinct (flIndices l) \<and> (\<forall>i \<in> set (flIndices l). 0 \<le> i \<and> i < flNext l) \<and>
    (\<forall>i \<in> set (flBwIndices l). 0 \<le> i \<and> i < flNext l) \<and> 0 \<le> flNext l"

lemma ledger_ok_New [ok_intros]: "ledger_ok NewFileLedger"
  by (simp add: ledger_ok_def NewFileLedger_def)

lemma ledger_ok_Next [ok_intros]: "ledger_ok l \<Longrightarrow> ledger_ok (snd (NextIndex l))"
  by (auto simp: ledger_ok_def NextIndex_def)

lemma ledger_ok_Add [ok_intros]:
  assumes "ledger_ok l" "0 \<le> i" "i \<notin> set (flIndices l)"
  shows "ledger_ok (ledger_Add i l)" "ledger_ok (AddBW i l)"
  using assms by (auto simp: ledger_ok_def ledger_Add_def AddBW_def Let_def)

lemma ledger_ok_resets [ok_intros]:
  "ledger_ok l \<Longrightarrow> ledger_ok (ClearBW l)" "ledger_ok l \<Longrightarrow> ledger_ok (ResetDeleteCursor l)"
  "ledger_ok (ledger_Clear l)"
  by (simp_all add: ledger_ok_def ClearBW_def ResetDeleteCursor_def ledger_Clear_def)

lemma set_drop_at: "set (drop_at i xs) \<subseteq> set xs"
  by (auto simp: drop_at_def dest: in_set_takeD in_set_dropD)

lemma mset_drop_at: "i < length xs \<Longrightarrow> mset xs = mset (drop_at i xs) + {#xs ! i#}"
  unfolding drop_at_def by (subst id_take_nth_drop [of i xs]) simp_all

lemma distinct_drop_at: "distinct xs \<Longrightarrow> distinct (drop_at i xs)"
  by (auto simp: drop_at_def set_take_disj_set_drop_if_distinct)

lemma ledger_ok_take [ok_intros]: "ledger_ok l \<Longrightarrow> ledger_ok (take_entry remove l)"
  using set_drop_at [of "flDelPos l" "flIndices l"]
  by (auto simp: ledger_ok_def take_entry_def distinct_drop_at)

lemma next_existing_frame:
  "flBwIndices (snd (next_existing ex path remove k l)) = flBwIndices l"
  "flNext (snd (next_existing ex path remove k l)) = flNext l"
  "ledger_ok l \<Longrightarrow> ledger_ok (snd (next_existing ex path remove k l))"
proof (induction ex path remove k l rule: next_existing.induct)
  case (1 ex path remove k l)
  have wrap: "ledger_ok (if b then l\<lparr>flDelPos := 0\<rparr> else l)" if "ledger_ok l" for b
    using that by (simp add: ledger_ok_def)
  {
    case 1
    show ?case using "1.IH"(1)
      by (subst next_existing.simps) (auto simp: Let_def take_entry_def)
  next
    case 2
    show ?case using "1.IH"(2)
      by (subst next_existing.simps) (auto simp: Let_def take_entry_def)
  next
    case 3
    with wrap "1.IH"(3) show ?case
      by (subst next_existing.simps) (simp add: Let_def ledger_ok_take del: if_split split: if_split)
  }
qed

section \<open>What the search finds\<close>

text \<open>The position the search starts at: past the end it wraps, once.\<close>

definition cursor :: "FileLedger \<Rightarrow> nat" where
  "cursor l = (if flDelPos l \<ge> length (flIndices l) then 0 else flDelPos l)"

lemma rotate_hd: "xs \<noteq> [] \<Longrightarrow> d < length xs \<Longrightarrow> hd (rotate d xs) = xs ! d"
  by (simp add: hd_rotate_conv_nth)

lemma rotate_take_Cons:
  assumes "xs \<noteq> []" "d < length xs" "0 < m" "m \<le> length xs"
  shows "take m (rotate d xs) = xs ! d # take (m - 1) (rotate (Suc d) xs)"
proof -
  obtain y ys where r: "rotate d xs = y # ys" using assms(1) by (cases "rotate d xs") auto
  then have "y = xs ! d" using rotate_hd [OF assms(1,2)] by simp
  moreover have "rotate (Suc d) xs = ys @ [y]" using r by (simp add: rotate1_rotate_swap [symmetric] rotate_def)
  moreover have "length ys = length xs - 1" using r by (metis length_rotate length_Cons diff_Suc_1)
  ultimately show ?thesis using r assms(3,4) by (cases m) simp_all
qed

lemma next_existing_keep:
  "fst (next_existing ex path False k l) =
     map_option path (find (\<lambda>i. ex (path i)) (take (length (flIndices l) - k) (rotate (cursor l) (flIndices l))))"
proof (induction "length (flIndices l) - k" arbitrary: k l)
  case 0
  then show ?case by (subst next_existing.simps) simp
next
  case (Suc n)
  define l2 where "l2 = (if flDelPos l \<ge> length (flIndices l) then l\<lparr>flDelPos := 0\<rparr> else l)"
  have l2: "flIndices l2 = flIndices l" "flDelPos l2 = cursor l"
    by (simp_all add: l2_def cursor_def)
  have lt: "k < length (flIndices l)" "flIndices l \<noteq> []" using Suc.hyps(2) by auto
  then have c: "cursor l < length (flIndices l)" by (simp add: cursor_def)
  have rec: "fst (next_existing ex path False (Suc k) (take_entry False l2)) =
      map_option path (find (\<lambda>i. ex (path i)) (take n (rotate (Suc (cursor l)) (flIndices l))))"
  proof -
    have ix: "flIndices (take_entry False l2) = flIndices l" by (simp add: take_entry_def l2)
    have "cursor (take_entry False l2) = (if Suc (cursor l) \<ge> length (flIndices l) then 0 else Suc (cursor l))"
      by (simp add: cursor_def [of "take_entry False l2"] ix) (simp add: take_entry_def l2)
    then have "rotate (cursor (take_entry False l2)) (flIndices l) = rotate (Suc (cursor l)) (flIndices l)"
      using c by (cases "Suc (cursor l) = length (flIndices l)") (simp_all add: rotate_length01)
    moreover have n: "length (flIndices l) - Suc k = n" using Suc.hyps(2) by simp
    ultimately show ?thesis using Suc.hyps(1) [of "take_entry False l2" "Suc k"] ix by simp
  qed
  have "take (length (flIndices l) - k) (rotate (cursor l) (flIndices l)) =
      flIndices l ! cursor l # take n (rotate (Suc (cursor l)) (flIndices l))"
  proof -
    have "Suc n \<le> length (flIndices l)" using Suc.hyps(2) by simp
    from rotate_take_Cons [OF lt(2) c _ this] show ?thesis by (simp flip: Suc.hyps(2))
  qed
  then show ?case
    using rec lt by (subst next_existing.simps) (simp add: l2_def [symmetric] l2 Let_def)
qed

lemma next_existing_pop:
  "fst (next_existing ex path True k l) =
     map_option path (find (\<lambda>i. ex (path i))
       (take ((length (flIndices l) - k + 1) div 2) (drop (flDelPos l) (flIndices l))))"
proof (induction ex path True k l rule: next_existing.induct)
  case (1 ex path k l)
  show ?case
  proof (cases "k < length (flIndices l) \<and> flDelPos l < length (flIndices l)")
    case False
    then show ?thesis by (subst next_existing.simps) auto
  next
    case True
    define d where "d = flDelPos l"
    define xs where "xs = flIndices l"
    have ix: "flIndices (take_entry True l) = drop_at d xs" "flDelPos (take_entry True l) = d"
      by (simp_all add: take_entry_def d_def xs_def)
    have lt: "k < length xs" "d < length xs" using True by (simp_all add: d_def xs_def)
    then have m: "(length xs - k + 1) div 2 = Suc ((length xs - 1 - Suc k + 1) div 2)" by presburger
    have "drop d xs = xs ! d # drop d (drop_at d xs)"
      using lt by (simp add: drop_at_def Cons_nth_drop_Suc)
    then have "take ((length xs - k + 1) div 2) (drop d xs) =
        xs ! d # take ((length (drop_at d xs) - Suc k + 1) div 2) (drop d (drop_at d xs))"
      using lt m by (simp add: length_drop_at)
    with True "1.hyps" [of l "path (flIndices l ! flDelPos l)"] ix show ?thesis
      by (subst next_existing.simps) (simp add: Let_def flip: d_def xs_def)
  qed
qed

lemma find_None_set: "find Q xs = None \<longleftrightarrow> (\<forall>x \<in> set xs. \<not> Q x)"
  by (auto simp: find_None_iff)

text \<open>
  During the tests (\<open>removeFromLedger\<close> false) the search returns the first existing file of the
  ledger in the cyclic order that starts at the cursor, and fails only when no file of the ledger
  exists any more. The final delete looks at no more than half of what is left behind the cursor.
\<close>

theorem NextExistingPath_finds:
  "fst (NextExistingPath ex ps tn host False l) =
     map_option (FilePath ps tn host)
       (find (\<lambda>i. ex (FilePath ps tn host i)) (rotate (cursor l) (flIndices l))) \<and>
   (fst (NextExistingPath ex ps tn host False l) = None) =
     (\<not> list_ex (\<lambda>i. ex (FilePath ps tn host i)) (flIndices l)) \<and>
   fst (NextExistingPath ex ps tn host True l) =
     map_option (FilePath ps tn host)
       (find (\<lambda>i. ex (FilePath ps tn host i))
         (take ((length (flIndices l) + 1) div 2) (drop (flDelPos l) (flIndices l))))"
proof -
  have keep: "fst (NextExistingPath ex ps tn host False l) =
      map_option (FilePath ps tn host)
        (find (\<lambda>i. ex (FilePath ps tn host i)) (rotate (cursor l) (flIndices l)))"
    by (cases "flIndices l") (simp_all add: NextExistingPath_def next_existing_keep)
  moreover have "(fst (NextExistingPath ex ps tn host False l) = None) =
      (\<not> list_ex (\<lambda>i. ex (FilePath ps tn host i)) (flIndices l))"
    by (simp add: keep find_None_set list_ex_iff)
  moreover have "fst (NextExistingPath ex ps tn host True l) =
      map_option (FilePath ps tn host)
        (find (\<lambda>i. ex (FilePath ps tn host i))
          (take ((length (flIndices l) + 1) div 2) (drop (flDelPos l) (flIndices l))))"
    by (cases "flIndices l") (simp_all add: NextExistingPath_def next_existing_pop)
  ultimately show ?thesis by blast
qed

text \<open>
  The final delete gives up although files are left: with four entries of which only the last
  exists, the search returns nothing, because the number of entries looked at is compared with a
  list that shrinks at the same time.
\<close>

theorem final_search_misses_files:
  "NextExistingPath (\<lambda>p. p = FilePath ''p'' ''t'' ''h'' 3) ''p'' ''t'' ''h'' True
     \<lparr>flIndices = [0, 1, 2, 3], flBwIndices = [], flNext = 4, flDelPos = 0\<rparr> =
   (None, \<lparr>flIndices = [2, 3], flBwIndices = [], flNext = 4, flDelPos = 0\<rparr>)"
proof -
  have differ: "FilePath ''p'' ''t'' ''h'' 0 \<noteq> FilePath ''p'' ''t'' ''h'' 3"
    "FilePath ''p'' ''t'' ''h'' 1 \<noteq> FilePath ''p'' ''t'' ''h'' 3"
    using FilePath_inj [of 0 3] FilePath_inj [of 1 3] by auto
  show ?thesis
    by (simp add: NextExistingPath_def next_existing.simps Let_def take_entry_def drop_at_def differ)
qed

end
