(* ===== verification/ClientStats.thy ===== *)
theory ClientStats
  imports Messages Metrics "HOL-Library.Signed_Division"
begin

text \<open>
  The client's counters (\<open>Stats\<close> in \<^verbatim>\<open>internal/client/worker.go\<close>): what the worker adds to
  them and how a reporting turn takes them out. The lemmas follow an operation from the counter to
  the controller's totals and histograms.
\<close>

section \<open>State\<close>

record Stats =
  scReadOps :: int64
  scWriteOps :: int64
  scCreateOps :: int64
  scDeleteOps :: int64
  scReadBytes :: int64
  scWriteBytes :: int64
  scGitFiles :: int64
  scUntarFiles :: int64
  scLatencies :: LatencySet

definition NewStats :: Stats where [go_eval]:
  "NewStats =
    \<lparr>scReadOps = 0, scWriteOps = 0, scCreateOps = 0, scDeleteOps = 0, scReadBytes = 0,
     scWriteBytes = 0, scGitFiles = 0, scUntarFiles = 0, scLatencies = NewLatencySet\<rparr>"

text \<open>\<open>Add\<close> on one of the atomic counters.\<close>

datatype counter =
    ReadOps | WriteOps | CreateOps | DeleteOps | ReadBytes | WriteBytes | GitFiles | UntarFiles

fun Add_counter :: "counter \<Rightarrow> int64 \<Rightarrow> Stats \<Rightarrow> Stats" where
  "Add_counter ReadOps n s = s\<lparr>scReadOps := scReadOps s + n\<rparr>"
| "Add_counter WriteOps n s = s\<lparr>scWriteOps := scWriteOps s + n\<rparr>"
| "Add_counter CreateOps n s = s\<lparr>scCreateOps := scCreateOps s + n\<rparr>"
| "Add_counter DeleteOps n s = s\<lparr>scDeleteOps := scDeleteOps s + n\<rparr>"
| "Add_counter ReadBytes n s = s\<lparr>scReadBytes := scReadBytes s + n\<rparr>"
| "Add_counter WriteBytes n s = s\<lparr>scWriteBytes := scWriteBytes s + n\<rparr>"
| "Add_counter GitFiles n s = s\<lparr>scGitFiles := scGitFiles s + n\<rparr>"
| "Add_counter UntarFiles n s = s\<lparr>scUntarFiles := scUntarFiles s + n\<rparr>"

section \<open>Observing\<close>

text \<open>\<open>float64(d.Microseconds())\<close>: the division of the nanoseconds truncates.\<close>

definition float_us :: "duration \<Rightarrow> float64" where [go_eval]:
  "float_us d = of_int (d sdiv 1000)"

definition ObserveCreate :: "duration \<Rightarrow> Stats \<Rightarrow> Stats" where [go_eval]:
  "ObserveCreate d s =
    s\<lparr>scLatencies := (scLatencies s)\<lparr>Create := ObserveUs (Create (scLatencies s)) (float_us d)\<rparr>\<rparr>"

definition ObserveDelete :: "duration \<Rightarrow> Stats \<Rightarrow> Stats" where [go_eval]:
  "ObserveDelete d s =
    s\<lparr>scLatencies := (scLatencies s)\<lparr>Delete := ObserveUs (Delete (scLatencies s)) (float_us d)\<rparr>\<rparr>"

definition ObserveWrite :: "duration \<Rightarrow> Stats \<Rightarrow> Stats" where [go_eval]:
  "ObserveWrite d s =
    s\<lparr>scLatencies := (scLatencies s)\<lparr>Write := ObserveUs (Write (scLatencies s)) (float_us d)\<rparr>\<rparr>"

definition ObserveRead :: "duration \<Rightarrow> Stats \<Rightarrow> Stats" where [go_eval]:
  "ObserveRead d s =
    s\<lparr>scLatencies := (scLatencies s)\<lparr>Read := ObserveUs (Read (scLatencies s)) (float_us d)\<rparr>\<rparr>"

definition ObserveStartupCold :: "duration \<Rightarrow> Stats \<Rightarrow> Stats" where [go_eval]:
  "ObserveStartupCold d s =
    s\<lparr>scLatencies := (scLatencies s)
        \<lparr>StartupCold := ObserveUs (StartupCold (scLatencies s)) (float_us d)\<rparr>\<rparr>"

definition ObserveStartupColdFailure :: "Stats \<Rightarrow> Stats" where [go_eval]:
  "ObserveStartupColdFailure s =
    s\<lparr>scLatencies := (scLatencies s)\<lparr>StartupCold := ObserveFailure (StartupCold (scLatencies s))\<rparr>\<rparr>"

definition ObserveStartupWarm :: "duration \<Rightarrow> Stats \<Rightarrow> Stats" where [go_eval]:
  "ObserveStartupWarm d s =
    s\<lparr>scLatencies := (scLatencies s)
        \<lparr>StartupWarm := ObserveUs (StartupWarm (scLatencies s)) (float_us d)\<rparr>\<rparr>"

definition ObserveStartupWarmFailure :: "Stats \<Rightarrow> Stats" where [go_eval]:
  "ObserveStartupWarmFailure s =
    s\<lparr>scLatencies := (scLatencies s)\<lparr>StartupWarm := ObserveFailure (StartupWarm (scLatencies s))\<rparr>\<rparr>"

definition ObserveGitClone :: "duration \<Rightarrow> Stats \<Rightarrow> Stats" where [go_eval]:
  "ObserveGitClone d s =
    s\<lparr>scLatencies := (scLatencies s)\<lparr>GitClone := ObserveUs (GitClone (scLatencies s)) (float_us d)\<rparr>\<rparr>"

definition ObserveGitCloneFailure :: "Stats \<Rightarrow> Stats" where [go_eval]:
  "ObserveGitCloneFailure s =
    s\<lparr>scLatencies := (scLatencies s)\<lparr>GitClone := ObserveFailure (GitClone (scLatencies s))\<rparr>\<rparr>"

definition ObserveUntar :: "duration \<Rightarrow> Stats \<Rightarrow> Stats" where [go_eval]:
  "ObserveUntar d s =
    s\<lparr>scLatencies := (scLatencies s)\<lparr>Untar := ObserveUs (Untar (scLatencies s)) (float_us d)\<rparr>\<rparr>"

definition ObserveUntarFailure :: "Stats \<Rightarrow> Stats" where [go_eval]:
  "ObserveUntarFailure s =
    s\<lparr>scLatencies := (scLatencies s)\<lparr>Untar := ObserveFailure (Untar (scLatencies s))\<rparr>\<rparr>"

section \<open>Reporting\<close>

text \<open>The fields a report does not set (\<open>ClientID\<close>, \<open>Phase\<close>, \<open>Percent\<close>, \<open>IntervalSec\<close>) are zero.\<close>

definition SnapshotAndReset :: "time \<Rightarrow> Stats \<Rightarrow> MetricSample \<times> Stats" where [go_eval]:
  "SnapshotAndReset now s =
    (\<lparr>msClientID = [], msTimestamp = now, msPhase = PhaseOther [], msPercent = 0,
      msReadOps = scReadOps s, msWriteOps = scWriteOps s, msDeleteOps = scDeleteOps s,
      msCreateOps = scCreateOps s, msReadBytes = scReadBytes s, msWriteBytes = scWriteBytes s,
      msGitFiles = scGitFiles s, msUntarFiles = scUntarFiles s, msIntervalSec = 0,
      msLatencies = scLatencies s\<rparr>,
     NewStats)"

section \<open>Nothing is lost between the counters and the controller\<close>

text \<open>What the worker does with the counters, and the report in between.\<close>

datatype stat_call =
    CallObserve lat_op duration
  | FailCold | FailWarm | FailGit | FailUntar
  | CallAdd counter int64
  | CallReport time

fun Observe_op :: "lat_op \<Rightarrow> duration \<Rightarrow> Stats \<Rightarrow> Stats" where
  "Observe_op OpCreate = ObserveCreate"
| "Observe_op OpDelete = ObserveDelete"
| "Observe_op OpWrite = ObserveWrite"
| "Observe_op OpRead = ObserveRead"
| "Observe_op OpStartupCold = ObserveStartupCold"
| "Observe_op OpStartupWarm = ObserveStartupWarm"
| "Observe_op OpGitClone = ObserveGitClone"
| "Observe_op OpUntar = ObserveUntar"

text \<open>The reports sent so far, in order, and the counters.\<close>

fun stat_step :: "MetricSample list \<times> Stats \<Rightarrow> stat_call \<Rightarrow> MetricSample list \<times> Stats" where
  "stat_step (out, s) (CallObserve op d) = (out, Observe_op op d s)"
| "stat_step (out, s) FailCold = (out, ObserveStartupColdFailure s)"
| "stat_step (out, s) FailWarm = (out, ObserveStartupWarmFailure s)"
| "stat_step (out, s) FailGit = (out, ObserveGitCloneFailure s)"
| "stat_step (out, s) FailUntar = (out, ObserveUntarFailure s)"
| "stat_step (out, s) (CallAdd c n) = (out, Add_counter c n s)"
| "stat_step (out, s) (CallReport t) = (case SnapshotAndReset t s of (m, s2) \<Rightarrow> (out @ [m], s2))"

text \<open>What the calls observe and count.\<close>

fun stat_events :: "stat_call \<Rightarrow> (lat_op \<times> hist_event) list" where
  "stat_events (CallObserve op d) = [(op, Observed (float_us d))]"
| "stat_events FailCold = [(OpStartupCold, Failed)]"
| "stat_events FailWarm = [(OpStartupWarm, Failed)]"
| "stat_events FailGit = [(OpGitClone, Failed)]"
| "stat_events FailUntar = [(OpUntar, Failed)]"
| "stat_events _ = []"

fun counted :: "counter \<Rightarrow> stat_call \<Rightarrow> int64" where
  "counted c (CallAdd c2 n) = (if c2 = c then n else 0)"
| "counted c _ = 0"

text \<open>A report of the counters as they stand, and the totals it would give.\<close>

definition pending :: "Stats \<Rightarrow> MetricSample" where
  "pending s = fst (SnapshotAndReset 0 s)"

definition totals_of :: "(counter \<Rightarrow> int64) \<Rightarrow> RunTotals \<Rightarrow> RunTotals" where
  "totals_of f t =
    \<lparr>rtCreated = rtCreated t + f CreateOps, rtDeleted = rtDeleted t + f DeleteOps,
     rtReadBytes = rtReadBytes t + f ReadBytes, rtWriteBytes = rtWriteBytes t + f WriteBytes,
     rtGitFiles = rtGitFiles t + f GitFiles, rtUntarFiles = rtUntarFiles t + f UntarFiles\<rparr>"

lemma pending_NewStats: "add_totals t (pending NewStats) = t" "msLatencies (pending NewStats) = NewLatencySet"
  by (cases t; simp add: pending_def SnapshotAndReset_def NewStats_def add_totals_def)
    (simp add: pending_def SnapshotAndReset_def NewStats_def)

lemma stat_step_counters:
  "add_totals (foldl add_totals t (fst (stat_step (out, s) e))) (pending (snd (stat_step (out, s) e))) =
   totals_of (\<lambda>c. counted c e) (add_totals (foldl add_totals t out) (pending s))"
proof (cases e)
  case (CallObserve op d)
  then show ?thesis
    by (cases op) (simp_all add: pending_def SnapshotAndReset_def add_totals_def totals_of_def
        ObserveCreate_def ObserveDelete_def ObserveWrite_def ObserveRead_def ObserveStartupCold_def
        ObserveStartupWarm_def ObserveGitClone_def ObserveUntar_def)
next
  case (CallAdd c n)
  then show ?thesis
    by (cases c) (simp_all add: pending_def SnapshotAndReset_def add_totals_def totals_of_def)
next
  case (CallReport now)
  then show ?thesis
    by (simp add: SnapshotAndReset_def pending_NewStats)
      (simp add: pending_def SnapshotAndReset_def add_totals_def totals_of_def)
qed (simp_all add: pending_def SnapshotAndReset_def add_totals_def totals_of_def
    ObserveStartupColdFailure_def ObserveStartupWarmFailure_def ObserveGitCloneFailure_def
    ObserveUntarFailure_def)

definition received :: "LatencySet \<Rightarrow> MetricSample list \<Rightarrow> LatencySet" where
  "received l out = foldl (\<lambda>l m. MergeSet l (msLatencies m)) l out"

lemma latencies_step:
  "scLatencies (snd (stat_step (out, s) e)) =
    (case e of CallReport t \<Rightarrow> NewLatencySet | _ \<Rightarrow> foldl observe_op (scLatencies s) (stat_events e))"
proof (cases e)
  case (CallObserve op d)
  then show ?thesis
    by (cases op) (simp_all add: ObserveCreate_def ObserveDelete_def ObserveWrite_def ObserveRead_def
        ObserveStartupCold_def ObserveStartupWarm_def ObserveGitClone_def ObserveUntar_def)
next
  case (CallAdd c n)
  then show ?thesis by (cases c) simp_all
next
  case (CallReport now)
  then show ?thesis by (simp add: SnapshotAndReset_def NewStats_def)
qed (simp_all add: ObserveStartupColdFailure_def ObserveStartupWarmFailure_def
    ObserveGitCloneFailure_def ObserveUntarFailure_def)

lemma received_ok: "latency_set_ok l \<Longrightarrow> list_all (\<lambda>m. latency_set_ok (msLatencies m)) out \<Longrightarrow> latency_set_ok (received l out)"
  unfolding received_def by (induction out arbitrary: l) (simp_all add: ok_intros)

definition shipping_ok :: "MetricSample list \<times> Stats \<Rightarrow> bool" where
  "shipping_ok x \<longleftrightarrow> list_all (\<lambda>m. latency_set_ok (msLatencies m)) (fst x) \<and> latency_set_ok (scLatencies (snd x))"

lemma stat_step_out:
  "fst (stat_step (out, s) e) = (case e of CallReport t \<Rightarrow> out @ [fst (SnapshotAndReset t s)] | _ \<Rightarrow> out)"
  by (cases e) (simp_all add: SnapshotAndReset_def)

lemma shipping_ok_step [ok_intros]: "shipping_ok x \<Longrightarrow> shipping_ok (stat_step x e)"
proof (cases x)
  case (Pair out s)
  assume "shipping_ok x"
  then show ?thesis unfolding Pair
    by (cases e) (simp_all only: shipping_ok_def stat_step_out latencies_step fst_conv snd_conv
        stat_call.case latset.ok_collect ok_intros list_all_append list.pred_inject SnapshotAndReset_def
        MetricSample.select_convs simp_thms)
qed

lemma shipping_latencies:
  assumes "shipping_ok (out, s)" "latency_set_ok l"
  shows "MergeSet (received l (fst (stat_step (out, s) e))) (scLatencies (snd (stat_step (out, s) e))) =
    foldl observe_op (MergeSet (received l out) (scLatencies s)) (stat_events e)"
proof -
  have ok: "latency_set_ok (received l out)" "latency_set_ok (scLatencies s)"
    using assms received_ok by (simp_all add: shipping_ok_def)
  then have merged: "latency_set_ok (MergeSet (received l out) (scLatencies s))" by (rule ok_intros)
  show ?thesis
  proof (cases e)
    case (CallReport t)
    then show ?thesis using latset.merge_empty [OF merged]
      by (simp add: received_def SnapshotAndReset_def NewStats_def)
  qed (use latset.merge_collect_from [OF ok] in \<open>simp_all only: stat_step_out latencies_step stat_call.case\<close>)
qed

lemma totals_of_add: "totals_of f (totals_of g t) = totals_of (\<lambda>c. g c + f c) t"
  by (simp add: totals_of_def add.assoc)



end
