(* ===== verification/Loops.thy ===== *)
theory Loops
  imports Protocol
begin

text \<open>
  Loops that run until a deadline or a cancelled context, one turn at a time. Every turn is a
  function of what the environment answers in it (clock readings, the state of the context, the
  outcome of the input and output) and of the loop's state. A loop is driven by the list of these
  answers, so a list that is too short leaves it running. The locales state what the loops of the
  worker have in common: they end with the clock, and they keep to a rate.
\<close>

section \<open>Turns\<close>

datatype run_error =
    ErrCtx | ErrPanic | ErrIO | ErrUnknownPhase phase | ErrSmallFile int int | ErrMissing string
  | ErrNoCommand | ErrCommand duration

datatype 's turn = Again 's | Done "run_error option" 's

fun state_of :: "'s turn \<Rightarrow> 's" where
  "state_of (Again s) = s"
| "state_of (Done e s) = s"

fun map_turn_state :: "('s \<Rightarrow> 'r) \<Rightarrow> 's turn \<Rightarrow> 'r turn" where
  "map_turn_state f (Again s) = Again (f s)"
| "map_turn_state f (Done e s) = Done e (f s)"

fun run_turns :: "('t \<Rightarrow> 's \<Rightarrow> 's turn) \<Rightarrow> 't list \<Rightarrow> 's \<Rightarrow> 's turn" where
  "run_turns step [] s = Again s"
| "run_turns step (t # ts) s =
    (case step t s of Again s2 \<Rightarrow> run_turns step ts s2 | Done e s2 \<Rightarrow> Done e s2)"

lemma state_map_turn [simp]: "state_of (map_turn_state f r) = f (state_of r)"
  by (cases r) simp_all

lemma run_turns_invariant:
  assumes "\<And>t s. t \<in> set ts \<Longrightarrow> J s \<Longrightarrow> J (state_of (step t s))" "J s"
  shows "J (state_of (run_turns step ts s))"
  using assms
proof (induction ts arbitrary: s)
  case (Cons t ts)
  have J: "J (state_of (step t s))" using Cons.prems by simp
  show ?case
  proof (cases "step t s")
    case (Again s2)
    with Cons J show ?thesis by simp
  qed (use J in simp)
qed simp

text \<open>Waiting: \<open>sleepCtx\<close> and the empty load of a phase end early when the context is cancelled.\<close>

definition sleepCtx :: "bool \<Rightarrow> run_error option" where [go_eval]:
  "sleepCtx short = (if short then Some ErrCtx else None)"

definition wait_turn :: "bool \<Rightarrow> 's \<Rightarrow> 's turn" where [go_eval]:
  "wait_turn short s = (case sleepCtx short of Some e \<Rightarrow> Done (Some e) s | None \<Rightarrow> Again s)"

lemma wait_turn_state [simp]: "state_of (wait_turn short s) = s"
  by (simp add: wait_turn_def sleepCtx_def)

section \<open>Loops that end with the clock\<close>

locale timed =
  fixes step :: "'t \<Rightarrow> 's \<Rightarrow> 's turn"
    and late :: "'t \<Rightarrow> bool"
    and cancelled :: "'t \<Rightarrow> bool"
  assumes late_ends: "late t \<Longrightarrow> step t s = Done None s"
    and cancelled_ends: "\<not> late t \<Longrightarrow> cancelled t \<Longrightarrow> step t s = Done (Some ErrCtx) s"
begin

lemma returns:
  assumes "list_ex (\<lambda>t. late t \<or> cancelled t) ts"
  shows "\<exists>e s2. run_turns step ts s = Done e s2"
  using assms
proof (induction ts arbitrary: s)
  case (Cons t ts)
  show ?case
  proof (cases "late t \<or> cancelled t")
    case True
    then show ?thesis using late_ends cancelled_ends by (cases "late t") simp_all
  next
    case False
    with Cons show ?thesis by (cases "step t s") auto
  qed
qed simp

end

section \<open>Loops that keep to a rate\<close>

text \<open>
  \<open>amount\<close> is what the loop has done so far, \<open>clock\<close> the seconds it believes to have run. A turn
  adds at most \<open>chunk\<close>, and nothing when the amount is up to the rate: then the amount never runs
  ahead of the rate by more than one chunk.
\<close>

locale paced =
  fixes step :: "'t \<Rightarrow> 's \<Rightarrow> 's turn"
    and amount :: "'s \<Rightarrow> float64"
    and clock :: "'t \<Rightarrow> float64"
    and allowed :: "'t \<Rightarrow> bool"
    and rate :: float64
    and chunk :: float64
  assumes ahead: "allowed t \<Longrightarrow> rate * clock t \<le> amount s \<Longrightarrow> amount (state_of (step t s)) = amount s"
    and behind: "allowed t \<Longrightarrow> amount (state_of (step t s)) \<le> amount s + chunk"
begin

lemma never_ahead:
  assumes rate_nonneg: "0 \<le> rate" and "list_all allowed ts" "list_all (\<lambda>t. clock t \<le> limit) ts" "amount s \<le> rate * limit + chunk" "0 \<le> chunk"
  shows "amount (state_of (run_turns step ts s)) \<le> rate * limit + chunk"
proof (rule run_turns_invariant [where J = "\<lambda>s. amount s \<le> rate * limit + chunk"])
  fix t s
  assume t: "t \<in> set ts" and s: "amount s \<le> rate * limit + chunk"
  with assms(2) have ok: "allowed t" by (simp add: list_all_iff)
  show "amount (state_of (step t s)) \<le> rate * limit + chunk"
  proof (cases "rate * clock t \<le> amount s")
    case True
    with ahead [OF ok] s show ?thesis by simp
  next
    case False
    have "rate * clock t \<le> rate * limit"
      using assms(3) t rate_nonneg by (intro mult_left_mono) (simp_all add: list_all_iff)
    with False behind [OF ok, of s] show ?thesis by simp
  qed
qed fact

end

end
