(* ===== verification/Worker.thy ===== *)
theory Worker
  imports Ledger ClientStats Loops
begin

text \<open>
  The worker's file phases (\<^verbatim>\<open>internal/client/worker.go\<close>): creating, deleting, wiping,
  random input and output, and the dispatch on the phase. The disk is the list of the regular files
  with their sizes; \<open>os.Stat\<close> on a file path succeeds exactly for these. Whether a call of the
  operating system succeeds, and how long it took, is part of the turn. Bandwidth has its own theory.
\<close>

section \<open>World\<close>

record world =
  wLedger :: FileLedger
  wStats :: Stats
  wDisk :: "(string \<times> int) list"

definition on_disk :: "world \<Rightarrow> string \<Rightarrow> bool" where [go_eval]:
  "on_disk w p \<longleftrightarrow> map_of (wDisk w) p \<noteq> None"

definition write_file :: "string \<Rightarrow> int \<Rightarrow> world \<Rightarrow> world" where [go_eval]:
  "write_file p n w = w\<lparr>wDisk := AList.update p n (wDisk w)\<rparr>"

definition remove_file :: "string \<Rightarrow> world \<Rightarrow> world" where [go_eval]:
  "remove_file p w = w\<lparr>wDisk := filter (\<lambda>f. fst f \<noteq> p) (wDisk w)\<rparr>"

definition count :: "counter \<Rightarrow> int \<Rightarrow> world \<Rightarrow> world" where [go_eval]:
  "count c n w = w\<lparr>wStats := Add_counter c (of_int n) (wStats w)\<rparr>"

definition durationOf :: "PhaseCommand \<Rightarrow> duration" where [go_eval]:
  "durationOf cmd =
    (if pcDuration cmd \<le> 0 then DefaultPhaseStepDuration else secs_to_duration (pcDuration cmd))"

text \<open>
  What the environment answers in one turn of a paced loop: the reading compared with the deadline,
  whether the context is done, the reading the elapsed time is taken from, whether a sleep is cut
  short, the outcome of making the parent directory and of the operation, its duration, and what a
  failed write leaves behind.
\<close>

record tick =
  tkNow :: time
  tkDone :: bool
  tkClock :: time
  tkCut :: bool
  tkParent :: bool
  tkOk :: bool
  tkDur :: duration
  tkLeft :: "int option"

section \<open>Creating\<close>

definition create_turn ::
  "string \<Rightarrow> PhaseCommand \<Rightarrow> time \<Rightarrow> time \<Rightarrow> tick \<Rightarrow> world \<times> float64 \<Rightarrow> (world \<times> float64) turn"
where [go_eval]:
  "create_turn host cmd deadline start t wc =
    (case wc of (w, created) \<Rightarrow>
      if tkNow t > deadline then Done None (w, created)
      else if tkDone t then Done (Some ErrCtx) (w, created)
      else
        let elapsed = Seconds (tkClock t - start); target = pcRate cmd * elapsed
        in if created \<ge> target then wait_turn (tkCut t) (w, created)
           else
             let (idx, l) = NextIndex (wLedger w);
                 w = w\<lparr>wLedger := l\<rparr>;
                 path = FilePath (pcPrefix cmd) (pcTestName cmd) host idx
             in if \<not> tkParent t then Again (w, created)
                else if \<not> tkOk t then
                  Again (case tkLeft t of None \<Rightarrow> w | Some n \<Rightarrow> write_file path n w, created)
                else
                  let w = write_file path (pcFileSize cmd) w;
                      w = w\<lparr>wStats := ObserveCreate (tkDur t) (wStats w), wLedger := ledger_Add idx (wLedger w)\<rparr>;
                      w = count WriteBytes (pcFileSize cmd) (count CreateOps 1 w)
                  in Again (w, created + 1))"

text \<open>\<open>make([]byte, n)\<close> panics for a negative length.\<close>

definition runCreate ::
  "string \<Rightarrow> PhaseCommand \<Rightarrow> time \<Rightarrow> time \<Rightarrow> bool \<Rightarrow> tick list \<Rightarrow> world \<Rightarrow> world turn"
where [go_eval]:
  "runCreate host cmd now start short ts w =
    (if pcRate cmd \<le> 0 then Done (sleepCtx short) w
     else if pcFileSize cmd < 0 then Done (Some ErrPanic) w
     else map_turn_state fst (run_turns (create_turn host cmd (now + durationOf cmd) start) ts (w, 0)))"

section \<open>Deleting\<close>

text \<open>\<open>WalkDir\<close> visits a tree in lexical order, directory by directory, so the first file is the
  least one by the words of its path.\<close>

definition nextOnDisk :: "string \<Rightarrow> PhaseCommand \<Rightarrow> world \<Rightarrow> string option" where [go_eval]:
  "nextOnDisk host cmd w =
    (let base = HostRoot (pcPrefix cmd) (pcTestName cmd) host
     in case sort_key clean_words (filter (\<lambda>p. base \<noteq> [] \<and> p \<noteq> [] \<and> under base p) (map fst (wDisk w))) of
          [] \<Rightarrow> None
        | p # _ \<Rightarrow> Some p)"

definition delete_turn ::
  "string \<Rightarrow> PhaseCommand \<Rightarrow> time \<Rightarrow> time \<Rightarrow> tick \<Rightarrow> world \<times> float64 \<Rightarrow> (world \<times> float64) turn"
where [go_eval]:
  "delete_turn host cmd deadline start t wc =
    (case wc of (w, deleted) \<Rightarrow>
      if tkNow t > deadline then Done None (w, deleted)
      else if tkDone t then Done (Some ErrCtx) (w, deleted)
      else
        let elapsed = Seconds (tkClock t - start); target = pcRate cmd * elapsed
        in if deleted \<ge> target then wait_turn (tkCut t) (w, deleted)
           else
             let (found, l) = NextExistingPath (on_disk w) (pcPrefix cmd) (pcTestName cmd) host
                   (pcPhase cmd = PhaseFinalDelete) (wLedger w);
                 w = w\<lparr>wLedger := l\<rparr>
             in case (case found of Some p \<Rightarrow> Some p | None \<Rightarrow> nextOnDisk host cmd w) of
                  None \<Rightarrow> wait_turn (tkCut t) (w, deleted)
                | Some path \<Rightarrow>
                    if \<not> tkOk t then Again (w, deleted)
                    else
                      let w = remove_file path w;
                          w = w\<lparr>wStats := ObserveDelete (tkDur t) (wStats w)\<rparr>
                      in Again (count DeleteOps 1 w, deleted + 1))"

definition runDelete ::
  "string \<Rightarrow> PhaseCommand \<Rightarrow> time \<Rightarrow> time \<Rightarrow> bool \<Rightarrow> tick list \<Rightarrow> world \<Rightarrow> world turn"
where [go_eval]:
  "runDelete host cmd now start short ts w =
    (if pcRate cmd \<le> 0 then Done (sleepCtx short) w
     else map_turn_state fst (run_turns (delete_turn host cmd (now + durationOf cmd) start) ts (w, 0)))"

section \<open>Wiping\<close>

text \<open>\<open>os.RemoveAll\<close>: everything at or below the path goes, except what cannot be removed
  (\<open>stuck\<close>), and then there is an error. It does nothing for an empty path and refuses a path that
  ends in a dot.\<close>

definition RemoveAll :: "string list \<Rightarrow> string \<Rightarrow> world \<Rightarrow> run_error option \<times> world" where [go_eval]:
  "RemoveAll stuck p w =
    (if p = [] then (None, w)
     else if p = ''.'' then (Some ErrIO, w)
     else
       (if list_ex (\<lambda>f. under p (fst f) \<and> fst f \<in> set stuck) (wDisk w) then Some ErrIO else None,
        w\<lparr>wDisk := filter (\<lambda>f. \<not> under p (fst f) \<or> fst f \<in> set stuck) (wDisk w)\<rparr>))"

definition wipeHostRoot :: "string list \<Rightarrow> string \<Rightarrow> PhaseCommand \<Rightarrow> world \<Rightarrow> run_error option \<times> world"
where [go_eval]:
  "wipeHostRoot stuck host cmd w =
    (let (err, w) = RemoveAll stuck (HostRoot (pcPrefix cmd) (pcTestName cmd) host) w
     in (err, w\<lparr>wLedger := ledger_Clear (wLedger w)\<rparr>))"

definition Cleanup :: "string list \<Rightarrow> string \<Rightarrow> string \<Rightarrow> string \<Rightarrow> world \<Rightarrow> run_error option \<times> world"
where [go_eval]:
  "Cleanup stuck host ps testName w =
    (let (err, w) = RemoveAll stuck (HostRoot ps testName host) w;
         (err2, w) = RemoveAll stuck (SoftwareDir ps testName) w
     in (case err of None \<Rightarrow> err2 | Some e \<Rightarrow> Some e, w\<lparr>wLedger := ledger_Clear (wLedger w)\<rparr>))"

section \<open>Random input and output\<close>

definition directAlign :: int where [go_eval]: "directAlign = 4096"

text \<open>The sizes of \<open>runRIOPS\<close>: the error, or the size of the file, of one operation, and the
  number of blocks.\<close>

definition riops_sizes :: "PhaseCommand \<Rightarrow> run_error + int \<times> int \<times> int" where [go_eval]:
  "riops_sizes cmd =
    (let fileSize = (if pcFileSize cmd \<le> 0 then RIOPSFileSize else pcFileSize cmd);
         ioSize = (if RIOPSIOSize < directAlign then directAlign else RIOPSIOSize);
         ioSize = (ioSize sdiv directAlign) * directAlign;
         fileSize = (fileSize sdiv ioSize) * ioSize
     in if fileSize < ioSize then Inl (ErrSmallFile fileSize ioSize)
        else Inr (fileSize, ioSize, fileSize sdiv ioSize))"

text \<open>A turn of \<open>doIO\<close>: \<open>ioBlock\<close> is the random number below \<open>blocks\<close>, \<open>ioOk\<close> the outcome
  (an end of file counts as success when reading). The state is the world and what was done, with
  the offsets used so far.\<close>

record io_tick =
  ioNow :: time
  ioDone :: bool
  ioClock :: time
  ioCut :: bool
  ioBlock :: int
  ioOk :: bool

definition io_turn ::
  "int \<Rightarrow> bool \<Rightarrow> time \<Rightarrow> time \<Rightarrow> float64 \<Rightarrow> io_tick \<Rightarrow> world \<times> float64 \<times> int list \<Rightarrow>
   (world \<times> float64 \<times> int list) turn"
where [go_eval]:
  "io_turn ioSize write until start rate t s =
    (case s of (w, dn, offs) \<Rightarrow>
      if ioNow t > until then Done None s
      else if ioDone t then Done (Some ErrCtx) s
      else
        let elapsed = (let e = Seconds (ioClock t - start) in if e < 1 / 1000 then 1 / 1000 else e)
        in if rate > 0 \<and> dn \<ge> rate * elapsed then wait_turn (ioCut t) s
           else
             let off = ioBlock t * ioSize
             in if \<not> ioOk t then Again (w, dn, offs @ [off])
                else if write then
                  Again (count WriteBytes ioSize (count WriteOps 1 w), dn + 1, offs @ [off])
                else Again (count ReadBytes ioSize (count ReadOps 1 w), dn + 1, offs @ [off]))"

text \<open>\<open>runRIOPS\<close>: the writes until half of the step is over, then the reads. \<open>prep\<close> is the outcome
  of creating and opening the sparse file and the size a failure leaves it with, \<open>now\<close> and \<open>now2\<close> the readings for the two deadlines,
  \<open>start\<close> and \<open>start2\<close> those at the two calls of \<open>doIO\<close>.\<close>

definition riops_path :: "string \<Rightarrow> PhaseCommand \<Rightarrow> string" where [go_eval]:
  "riops_path host cmd =
    Join [Join [HostRoot (pcPrefix cmd) (pcTestName cmd) host, ''riops''], ''sparse.1g'']"

definition runRIOPS ::
  "string \<Rightarrow> PhaseCommand \<Rightarrow> run_error option \<times> int option \<Rightarrow> time \<Rightarrow> time \<Rightarrow> time \<Rightarrow> time \<Rightarrow>
   io_tick list \<Rightarrow> io_tick list \<Rightarrow> world \<Rightarrow> (world \<times> int list) turn"
where [go_eval]:
  "runRIOPS host cmd prep now now2 start start2 ts ts2 w =
    (case riops_sizes cmd of
       Inl e \<Rightarrow> Done (Some e) (w, [])
     | Inr (fileSize, ioSize, blocks) \<Rightarrow>
         (case prep of
            (Some e, left) \<Rightarrow>
              Done (Some e) (case left of None \<Rightarrow> w | Some n \<Rightarrow> write_file (riops_path host cmd) n w, [])
          | (None, left) \<Rightarrow>
              let w = write_file (riops_path host cmd) fileSize w;
                  deadline = now + durationOf cmd;
                  writeUntil = now2 + durationOf cmd sdiv 2
              in case run_turns (io_turn ioSize True writeUntil start (pcRate cmd)) ts (w, 0, []) of
                   Again (w, dn, offs) \<Rightarrow> Again (w, offs)
                 | Done (Some e) (w, dn, offs) \<Rightarrow> Done (Some e) (w, offs)
                 | Done None (w, dn, offs) \<Rightarrow>
                     map_turn_state (\<lambda>(w, dn, offs). (w, offs))
                       (run_turns (io_turn ioSize False deadline start2 (pcReadRate cmd)) ts2 (w, 0, offs))))"

section \<open>Dispatch\<close>

datatype routine =
    SoftwareStartup bool | RunGitClone | RunUntar | RunCreate | RunDelete | WipeHostRoot
  | RunBandwidth bool bool | RunReadWrite | RunRIOPS | UnknownPhase phase

text \<open>\<open>Run\<close>: what is done to the ledger first, and the routine called.\<close>

fun Run_dispatch :: "phase \<Rightarrow> bool \<Rightarrow> routine" where
  "Run_dispatch PhaseSoftwareCold force = SoftwareStartup True"
| "Run_dispatch PhaseSoftwareWarm force = SoftwareStartup False"
| "Run_dispatch PhaseGitClone force = RunGitClone"
| "Run_dispatch PhaseUntar force = RunUntar"
| "Run_dispatch PhaseCreate force = RunCreate"
| "Run_dispatch PhaseDelete force = RunDelete"
| "Run_dispatch PhaseFinalDelete force = (if force then WipeHostRoot else RunDelete)"
| "Run_dispatch PhaseWriteBW force = RunBandwidth True False"
| "Run_dispatch PhaseReadBW force = RunBandwidth False True"
| "Run_dispatch PhaseReadWrite force = RunReadWrite"
| "Run_dispatch PhaseRIOPS force = RunRIOPS"
| "Run_dispatch ph force = UnknownPhase ph"

definition Run_prepare :: "PhaseCommand \<Rightarrow> world \<Rightarrow> world" where [go_eval]:
  "Run_prepare cmd w =
    (if pcPhase cmd = PhaseCreate then w\<lparr>wLedger := ClearBW (ResetDeleteCursor (wLedger w))\<rparr> else w)"

section \<open>Time and pace of the loops\<close>

interpretation create_time: timed "create_turn host cmd deadline start" "\<lambda>t. deadline < tkNow t" tkDone
  for host cmd deadline start
  by unfold_locales (simp_all add: create_turn_def split: prod.split)

interpretation delete_time: timed "delete_turn host cmd deadline start" "\<lambda>t. deadline < tkNow t" tkDone
  for host cmd deadline start
  by unfold_locales (simp_all add: delete_turn_def split: prod.split)

interpretation io_time: timed "io_turn ioSize wr until start rate" "\<lambda>t. until < ioNow t" ioDone
  for ioSize wr until start rate
  by unfold_locales (simp_all add: io_turn_def split: prod.split)

interpretation create_pace: paced "create_turn host cmd deadline start" snd
  "\<lambda>t. Seconds (tkClock t - start)" "\<lambda>t. True" "pcRate cmd" 1 for host cmd deadline start
  by unfold_locales (auto simp: create_turn_def Let_def split: prod.split option.split)

interpretation delete_pace: paced "delete_turn host cmd deadline start" snd
  "\<lambda>t. Seconds (tkClock t - start)" "\<lambda>t. True" "pcRate cmd" 1 for host cmd deadline start
  by unfold_locales (auto simp: delete_turn_def Let_def split: prod.split option.split)

interpretation io_pace: paced "io_turn ioSize wr until start rate" "\<lambda>s. fst (snd s)"
  "\<lambda>t. max (1 / 1000) (Seconds (ioClock t - start))" "\<lambda>t. 0 < rate" rate 1
  for ioSize wr until start rate
  by unfold_locales (auto simp: io_turn_def Let_def max_def split: prod.split)

section \<open>What the loops leave on the disk\<close>

lemma map_of_write [simp]: "map_of (wDisk (write_file p n w)) = (map_of (wDisk w))(p \<mapsto> n)"
  by (simp add: write_file_def update_conv')

lemma map_of_remove [simp]: "map_of (wDisk (remove_file p w)) = (map_of (wDisk w))(p := None)"
proof
  fix x
  have "map_of (filter (\<lambda>f. fst f \<noteq> p) al) x = ((map_of al)(p := None)) x" for al :: "(string \<times> int) list"
    by (induction al) auto
  then show "map_of (wDisk (remove_file p w)) x = ((map_of (wDisk w))(p := None)) x"
    by (simp add: remove_file_def)
qed

lemma world_frames [simp]:
  "wLedger (write_file p n w) = wLedger w" "wStats (write_file p n w) = wStats w"
  "wLedger (remove_file p w) = wLedger w" "wStats (remove_file p w) = wStats w"
  "wLedger (count c k w) = wLedger w" "wDisk (count c k w) = wDisk w"
  by (simp_all add: write_file_def remove_file_def count_def)

text \<open>Outside a directory nothing changes.\<close>

definition same_outside :: "string \<Rightarrow> world \<Rightarrow> world \<Rightarrow> bool" where
  "same_outside base w w2 \<longleftrightarrow> (\<forall>p. \<not> under base p \<longrightarrow> map_of (wDisk w2) p = map_of (wDisk w) p)"

lemma same_outside_refl [simp]: "same_outside base w w"
  by (simp add: same_outside_def)

lemma same_outside_trans: "same_outside base u v \<Longrightarrow> same_outside base v w \<Longrightarrow> same_outside base u w"
  by (simp add: same_outside_def)

lemma same_outside_write: "under base p \<Longrightarrow> same_outside base w v \<Longrightarrow> same_outside base w (write_file p n v)"
  by (auto simp: same_outside_def)

lemma same_outside_remove: "under base p \<Longrightarrow> same_outside base w v \<Longrightarrow> same_outside base w (remove_file p v)"
  by (auto simp: same_outside_def)

lemma same_outside_frame [simp]:
  "same_outside base w (v\<lparr>wLedger := l\<rparr>) = same_outside base w v"
  "same_outside base w (v\<lparr>wStats := st\<rparr>) = same_outside base w v"
  "same_outside base w (count c k v) = same_outside base w v"
  by (simp_all add: same_outside_def)

lemma create_turn_outside:
  "same_outside (HostRoot (pcPrefix cmd) (pcTestName cmd) host) (fst s)
     (fst (state_of (create_turn host cmd deadline start t s)))"
proof (cases s)
  case (Pair w c)
  show ?thesis unfolding Pair create_turn_def NextIndex_def Let_def
    by (simp add: same_outside_write FilePath_under split: option.split)
qed

lemma nextOnDisk_found:
  assumes "nextOnDisk host cmd w = Some p"
  shows "on_disk w p \<and> under (HostRoot (pcPrefix cmd) (pcTestName cmd) host) p"
proof -
  let ?base = "HostRoot (pcPrefix cmd) (pcTestName cmd) host"
  let ?ps = "filter (\<lambda>p. ?base \<noteq> [] \<and> p \<noteq> [] \<and> under ?base p) (map fst (wDisk w))"
  from assms obtain ps where "sort_key clean_words ?ps = p # ps"
    unfolding nextOnDisk_def Let_def by (auto split: list.splits)
  then have "p \<in> set (sort_key clean_words ?ps)" by (simp only: list.set_intros)
  then have "p \<in> set (map fst (wDisk w))" "under ?base p" by auto
  then show ?thesis by (simp add: on_disk_def map_of_eq_None_iff)
qed

lemma NextExistingPath_found:
  assumes "NextExistingPath ex ps tn host remove l = (Some p, l2)"
  shows "ex p \<and> under (HostRoot ps tn host) p"
proof -
  let ?path = "FilePath ps tn host"
  have "\<exists>xs. fst (NextExistingPath ex ps tn host remove l) = map_option ?path (find (\<lambda>i. ex (?path i)) xs)"
  proof (cases "flIndices l = []")
    case True
    then show ?thesis by (intro exI [of _ "[]"]) (simp add: NextExistingPath_def)
  qed (cases remove; auto simp: NextExistingPath_def next_existing_keep next_existing_pop)
  then obtain xs where xs: "fst (NextExistingPath ex ps tn host remove l) =
      map_option ?path (find (\<lambda>i. ex (?path i)) xs)" by blast
  have "map_option ?path (find (\<lambda>i. ex (?path i)) xs) = Some p" by (simp only: xs [symmetric] assms fst_conv)
  then obtain i where "find (\<lambda>i. ex (?path i)) xs = Some i" "p = ?path i" by (auto simp: map_option_case split: option.splits)
  then show ?thesis by (auto simp: find_Some_iff FilePath_under)
qed

text \<open>The file a turn of the delete loop picks, if any.\<close>

lemma delete_turn_cases:
  obtains "wDisk (fst (state_of (delete_turn host cmd deadline start t (w, d)))) = wDisk w"
      "wStats (fst (state_of (delete_turn host cmd deadline start t (w, d)))) = wStats w"
      "snd (state_of (delete_turn host cmd deadline start t (w, d))) = d"
  | p l where "on_disk w p" "under (HostRoot (pcPrefix cmd) (pcTestName cmd) host) p"
      "delete_turn host cmd deadline start t (w, d) =
        Again (count DeleteOps 1 ((remove_file p (w\<lparr>wLedger := l\<rparr>))\<lparr>wStats := ObserveDelete (tkDur t) (wStats w)\<rparr>), d + 1)"
proof -
  obtain r l where search: "NextExistingPath (on_disk w) (pcPrefix cmd) (pcTestName cmd) host
      (pcPhase cmd = PhaseFinalDelete) (wLedger w) = (r, l)" by fastforce
  define found where "found = (case r of Some p \<Rightarrow> Some p | None \<Rightarrow> nextOnDisk host cmd (w\<lparr>wLedger := l\<rparr>))"
  show ?thesis
  proof (cases "deadline < tkNow t \<or> tkDone t \<or> d \<ge> pcRate cmd * Seconds (tkClock t - start) \<or> found = None \<or> \<not> tkOk t")
    case True
    then show ?thesis
      by (intro that(1)) (auto simp: delete_turn_def Let_def search simp flip: found_def split: option.split)
  next
    case False
    then obtain p where p: "found = Some p" by auto
    then have "on_disk w p \<and> under (HostRoot (pcPrefix cmd) (pcTestName cmd) host) p"
    proof (cases r)
      case (Some q)
      with NextExistingPath_found [OF search [unfolded Some]] p show ?thesis by (simp add: found_def)
    next
      case None
      with nextOnDisk_found [of host cmd "w\<lparr>wLedger := l\<rparr>" p] p show ?thesis by (simp add: found_def on_disk_def)
    qed
    with False p show ?thesis
      by (intro that(2)) (auto simp: delete_turn_def Let_def search simp flip: found_def)
  qed
qed

text \<open>
  The books of the create loop since it started from \<open>w0\<close>: the files it added to the ledger are on
  the disk with their size, and each was counted once.
\<close>

definition create_books :: "string \<Rightarrow> PhaseCommand \<Rightarrow> world \<Rightarrow> int list \<Rightarrow> world \<times> float64 \<Rightarrow> bool" where
  "create_books host cmd w0 new s \<longleftrightarrow>
    (case s of (w, created) \<Rightarrow>
      ledger_ok (wLedger w) \<and> created = of_nat (length new) \<and>
      flIndices (wLedger w) = flIndices (wLedger w0) @ new \<and>
      (\<forall>i \<in> set new. map_of (wDisk w) (FilePath (pcPrefix cmd) (pcTestName cmd) host i) = Some (pcFileSize cmd)) \<and>
      scCreateOps (wStats w) = scCreateOps (wStats w0) + of_nat (length new) \<and>
      scWriteBytes (wStats w) = scWriteBytes (wStats w0) + of_nat (length new) * of_int (pcFileSize cmd) \<and>
      Total (Create (scLatencies (wStats w))) = Total (Create (scLatencies (wStats w0))) + of_nat (length new))"

lemma Total_ObserveUs: "Total (ObserveUs h us) = Total h + 1"
  by (simp add: ObserveUs_def ensureCounts_def Let_def)

lemma count_stats [simp]:
  "wStats (count c k w) = Add_counter c (of_int k) (wStats w)"
  by (simp add: count_def)

lemma create_books_start: "ledger_ok (wLedger w) \<Longrightarrow> create_books host cmd w [] (w, 0)"
  by (simp add: create_books_def)

lemma create_books_turn:
  assumes "create_books host cmd w0 new s"
  shows "\<exists>new. create_books host cmd w0 new (state_of (create_turn host cmd deadline start t s))"
proof -
  obtain w c where s: "s = (w, c)" by (cases s)
  let ?path = "FilePath (pcPrefix cmd) (pcTestName cmd) host"
  define idx where "idx = flNext (wLedger w)"
  have ok: "ledger_ok (wLedger w)" and new: "flIndices (wLedger w) = flIndices (wLedger w0) @ new"
    using assms by (simp_all add: s create_books_def)
  have range: "0 \<le> i" "i < idx" if "i \<in> set new" for i
    using ok new that by (auto simp: ledger_ok_def idx_def)
  have idx: "0 \<le> idx" "idx \<notin> set (flIndices (wLedger w))" using ok by (auto simp: ledger_ok_def idx_def)
  have path: "?path i \<noteq> ?path idx" if "i \<in> set new" for i
    using range [OF that] idx(1) FilePath_inj [of i idx] by auto
  let ?w1 = "w\<lparr>wLedger := snd (NextIndex (wLedger w))\<rparr>"
  have moved: "create_books host cmd w0 new (?w1, c)" "create_books host cmd w0 new (write_file (?path idx) n ?w1, c)" for n
    using assms path ledger_ok_Next [OF ok] by (auto simp: s create_books_def NextIndex_def)
  show ?thesis
  proof (cases "deadline < tkNow t \<or> tkDone t \<or> c \<ge> pcRate cmd * Seconds (tkClock t - start)")
    case True
    then have "state_of (create_turn host cmd deadline start t s) = s"
      by (auto simp: s create_turn_def Let_def)
    then show ?thesis using assms by auto
  next
    case False
    show ?thesis
    proof (cases "tkParent t \<and> tkOk t")
      case True
      have "ledger_ok (ledger_Add idx (snd (NextIndex (wLedger w))))"
        using idx by (intro ledger_ok_Add(1) ledger_ok_Next ok) (simp_all add: NextIndex_def)
      then have "create_books host cmd w0 (new @ [idx]) (state_of (create_turn host cmd deadline start t s))"
        using assms False True path
        by (auto simp: s create_books_def create_turn_def Let_def NextIndex_def ledger_Add_def idx_def
            ObserveCreate_def Total_ObserveUs algebra_simps)
      then show ?thesis ..
    next
      case no: False
      then have "state_of (create_turn host cmd deadline start t s) \<in>
          {(?w1, c)} \<union> (\<lambda>n. (write_file (?path idx) n ?w1, c)) ` UNIV"
        using False by (auto simp: s create_turn_def Let_def NextIndex_def idx_def split: option.split)
      with moved have "create_books host cmd w0 new (state_of (create_turn host cmd deadline start t s))"
        by (elim UnE imageE singletonE) (simp_all only:)
      then show ?thesis ..
    qed
  qed
qed

lemma state_fst: "state_of (map_turn_state fst r) = fst (state_of r)"
  by (rule state_map_turn)


definition demo_world :: world where [go_eval]:
  "demo_world = \<lparr>wLedger = NewFileLedger, wStats = NewStats, wDisk = []\<rparr>"

definition demo_command :: "phase \<Rightarrow> PhaseCommand" where [go_eval]:
  "demo_command ph = zero_PhaseCommand
    \<lparr>pcPhase := ph, pcDuration := 1, pcRate := 2, pcTestName := ''t'', pcPrefix := ''p'', pcFileSize := 8192\<rparr>"

definition demo_tick :: "time \<Rightarrow> bool \<Rightarrow> tick" where [go_eval]:
  "demo_tick now ok =
    \<lparr>tkNow = now, tkDone = False, tkClock = now, tkCut = False, tkParent = True, tkOk = ok,
     tkDur = 5000, tkLeft = None\<rparr>"


definition disk_files :: "world \<Rightarrow> string set" where
  "disk_files w = dom (map_of (wDisk w))"

text \<open>The books of the delete loop: each counted operation removed one file that existed.\<close>

definition delete_books :: "string \<Rightarrow> world \<Rightarrow> world \<times> float64 \<Rightarrow> bool" where
  "delete_books base w0 s \<longleftrightarrow>
    (case s of (w, deleted) \<Rightarrow>
      \<exists>gone. deleted = of_nat (length gone) \<and> distinct gone \<and>
        set gone \<subseteq> disk_files w0 \<and> list_all (under base) gone \<and>
        map_of (wDisk w) = (map_of (wDisk w0)) |` (- set gone) \<and>
        scDeleteOps (wStats w) = scDeleteOps (wStats w0) + of_nat (length gone) \<and>
        Total (Delete (scLatencies (wStats w))) = Total (Delete (scLatencies (wStats w0))) + of_nat (length gone))"

lemma delete_books_turn:
  assumes "delete_books (HostRoot (pcPrefix cmd) (pcTestName cmd) host) w0 s"
  shows "delete_books (HostRoot (pcPrefix cmd) (pcTestName cmd) host) w0
    (state_of (delete_turn host cmd deadline start t s))"
proof -
  obtain w d where s: "s = (w, d)" by (cases s)
  show ?thesis
  proof (rule delete_turn_cases [of host cmd deadline start t w d], goal_cases)
    case 1
    moreover obtain w2 d2 where "state_of (delete_turn host cmd deadline start t s) = (w2, d2)" by fastforce
    ultimately show ?case using assms by (simp add: s delete_books_def)
  next
    case (2 p l)
    obtain gone where gone: "d = of_nat (length gone)" "distinct gone" "set gone \<subseteq> disk_files w0"
      "list_all (under (HostRoot (pcPrefix cmd) (pcTestName cmd) host)) gone"
      "map_of (wDisk w) = (map_of (wDisk w0)) |` (- set gone)"
      "scDeleteOps (wStats w) = scDeleteOps (wStats w0) + of_nat (length gone)"
      "Total (Delete (scLatencies (wStats w))) = Total (Delete (scLatencies (wStats w0))) + of_nat (length gone)"
      using assms by (auto simp: s delete_books_def)
    have p: "p \<notin> set gone" "p \<in> disk_files w0"
      using 2(1) gone(5) by (auto simp: on_disk_def disk_files_def restrict_map_def split: if_splits)
    have disk: "(map_of (wDisk w))(p := None) = (map_of (wDisk w0)) |` (- set (p # gone))"
      by (auto simp: gone(5) restrict_map_def fun_eq_iff)
    show ?case unfolding s 2(3) delete_books_def state_of.simps prod.case
      using gone p 2(2) disk
      by (intro exI [of _ "p # gone"]) (simp add: ObserveDelete_def Total_ObserveUs algebra_simps)
  qed
qed

text \<open>
  C29. The delete phases count honestly: every counted operation removed one file that was on the
  disk, always below the client's own directory, every other file is untouched, and the number of
  removed files never runs ahead of the rate by more than one.
\<close>

theorem runDelete_counts_removals:
  assumes "0 < pcRate cmd" "0 \<le> limit" "list_all (\<lambda>t. Seconds (tkClock t - start) \<le> limit) ts"
  shows "let w2 = state_of (runDelete host cmd now start short ts w) in
    \<exists>gone. distinct gone \<and> set gone \<subseteq> disk_files w \<and> disk_files w2 = disk_files w - set gone \<and>
      list_all (under (HostRoot (pcPrefix cmd) (pcTestName cmd) host)) gone \<and>
      of_nat (length gone) \<le> pcRate cmd * limit + 1 \<and>
      scDeleteOps (wStats w2) = scDeleteOps (wStats w) + of_nat (length gone) \<and>
      Total (Delete (scLatencies (wStats w2))) = Total (Delete (scLatencies (wStats w))) + of_nat (length gone)"
proof -
  let ?step = "delete_turn host cmd (now + durationOf cmd) start"
  let ?final = "state_of (run_turns ?step ts (w, 0))"
  have w2: "state_of (runDelete host cmd now start short ts w) = fst ?final"
    using assms(1) by (simp add: runDelete_def)
  have "delete_books (HostRoot (pcPrefix cmd) (pcTestName cmd) host) w ?final"
  proof (rule run_turns_invariant [where J = "delete_books (HostRoot (pcPrefix cmd) (pcTestName cmd) host) w"])
    show "delete_books (HostRoot (pcPrefix cmd) (pcTestName cmd) host) w (w, 0)"
      by (simp add: delete_books_def exI [of _ "[]"] restrict_map_def)
  qed (rule delete_books_turn)
  moreover have "snd ?final \<le> pcRate cmd * limit + 1"
    using assms by (intro delete_pace.never_ahead) (simp_all add: list_all_iff)
  moreover obtain w3 d3 where s: "?final = (w3, d3)" by fastforce
  ultimately obtain gone where gone: "d3 = of_nat (length gone)" "distinct gone" "set gone \<subseteq> disk_files w"
    "list_all (under (HostRoot (pcPrefix cmd) (pcTestName cmd) host)) gone"
    "map_of (wDisk w3) = (map_of (wDisk w)) |` (- set gone)"
    "scDeleteOps (wStats w3) = scDeleteOps (wStats w) + of_nat (length gone)"
    "Total (Delete (scLatencies (wStats w3))) = Total (Delete (scLatencies (wStats w))) + of_nat (length gone)"
    and pace: "d3 \<le> pcRate cmd * limit + 1"
    by (auto simp: delete_books_def)
  have "disk_files w3 = disk_files w - set gone" using gone(5) by (simp add: disk_files_def Diff_eq)
  then show ?thesis using gone pace unfolding w2 Let_def s fst_conv by (intro exI [of _ gone]) simp
qed

lemma runDelete_counts_removals_witness:
  "\<exists>gone. of_nat (length gone) \<le> 2 * (1 :: float64) + 1 \<and>
    disk_files (state_of (runDelete ''h'' (demo_command PhaseDelete) 0 0 False [demo_tick 1 True] demo_world)) =
      disk_files demo_world - set gone"
proof -
  from runDelete_counts_removals [of "demo_command PhaseDelete" 1 0 "[demo_tick 1 True]" "''h''" 0 False demo_world]
  show ?thesis by (auto simp: Let_def demo_command_def demo_tick_def Seconds_def)
qed

section \<open>Ending\<close>



section \<open>Random input and output stays in the file\<close>

lemma sdiv_pos: "0 \<le> a \<Longrightarrow> 0 < b \<Longrightarrow> a sdiv b = a div (b::int)"
  by (cases "a = 0") (simp_all add: signed_divide_int_def)

lemma riops_sizes_ok:
  assumes "riops_sizes cmd = Inr (fileSize, ioSize, blocks)"
  shows "ioSize = 4096 \<and> fileSize = blocks * ioSize \<and> 0 < blocks \<and>
    fileSize \<le> (if pcFileSize cmd \<le> 0 then RIOPSFileSize else pcFileSize cmd)"
proof -
  define want where "want = (if pcFileSize cmd \<le> 0 then RIOPSFileSize else pcFileSize cmd)"
  have want: "0 \<le> want" by (simp add: want_def RIOPSFileSize_def)
  have io: "(RIOPSIOSize sdiv directAlign) * directAlign = 4096"
    by (simp add: RIOPSIOSize_def directAlign_def sdiv_pos)
  have "\<not> want div 4096 * 4096 < 4096" "fileSize = want div 4096 * 4096" "ioSize = 4096"
    "blocks = want div 4096 * 4096 div 4096"
    using assms io want unfolding riops_sizes_def want_def [symmetric] Let_def
    by (simp_all add: RIOPSIOSize_def directAlign_def sdiv_pos split: if_splits)
  moreover have "want div 4096 * 4096 \<le> want" using want by (simp add: minus_mod_eq_div_mult [symmetric])
  ultimately show ?thesis by (auto simp: want_def)
qed

text \<open>What a turn keeps: offsets inside the file, bytes in step with operations, the disk as it is.\<close>

definition io_books :: "int \<Rightarrow> int \<Rightarrow> world \<Rightarrow> world \<times> float64 \<times> int list \<Rightarrow> bool" where
  "io_books fileSize ioSize w0 s \<longleftrightarrow>
    (case s of (w, dn, offs) \<Rightarrow>
      list_all (\<lambda>off. 0 \<le> off \<and> off + ioSize \<le> fileSize \<and> ioSize dvd off) offs \<and>
      scWriteBytes (wStats w) - scWriteBytes (wStats w0) =
        of_int ioSize * (scWriteOps (wStats w) - scWriteOps (wStats w0)) \<and>
      scReadBytes (wStats w) - scReadBytes (wStats w0) =
        of_int ioSize * (scReadOps (wStats w) - scReadOps (wStats w0)) \<and>
      wDisk w = wDisk w0 \<and> wLedger w = wLedger w0)"

lemma io_books_turn:
  assumes "io_books fileSize ioSize w0 s" "0 \<le> ioBlock t" "ioBlock t < blocks"
    and "fileSize = blocks * ioSize" "0 < ioSize"
  shows "io_books fileSize ioSize w0 (state_of (io_turn ioSize wr until start rate t s))"
proof -
  obtain w dn offs where s: "s = (w, dn, offs)" by (cases s)
  have "(ioBlock t + 1) * ioSize \<le> blocks * ioSize"
    using assms(3,5) by (intro mult_right_mono) simp_all
  then have off: "0 \<le> ioBlock t * ioSize \<and> ioBlock t * ioSize + ioSize \<le> fileSize \<and> ioSize dvd ioBlock t * ioSize"
    using assms(2,4,5) by (simp add: algebra_simps)
  show ?thesis
    using assms(1) off by (auto simp: s io_turn_def io_books_def Let_def algebra_simps)
qed

definition block_ok :: "int \<Rightarrow> io_tick \<Rightarrow> bool" where [go_eval]:
  "block_ok blocks t \<longleftrightarrow> 0 \<le> ioBlock t \<and> ioBlock t < blocks"

text \<open>The two halves of the phase, the second only when the first ended with its time.\<close>

definition io_halves ::
  "(io_tick \<Rightarrow> world \<times> float64 \<times> int list \<Rightarrow> (world \<times> float64 \<times> int list) turn) \<Rightarrow>
   (io_tick \<Rightarrow> world \<times> float64 \<times> int list \<Rightarrow> (world \<times> float64 \<times> int list) turn) \<Rightarrow>
   io_tick list \<Rightarrow> io_tick list \<Rightarrow> world \<Rightarrow> (world \<times> int list) turn"
where
  "io_halves f g ts ts2 w =
    (case run_turns f ts (w, 0, []) of
       Again (w, dn, offs) \<Rightarrow> Again (w, offs)
     | Done (Some e) (w, dn, offs) \<Rightarrow> Done (Some e) (w, offs)
     | Done None (w, dn, offs) \<Rightarrow> map_turn_state (\<lambda>(w, dn, offs). (w, offs)) (run_turns g ts2 (w, 0, offs)))"

lemma io_halves_keep:
  assumes "\<And>s. J s \<Longrightarrow> J (state_of (run_turns f ts s))" "\<And>s. J s \<Longrightarrow> J (state_of (run_turns g ts2 s))"
    and any: "\<And>w dn dn2 offs. J (w, dn, offs) \<Longrightarrow> J (w, dn2, offs)"
    and begun: "J (w, 0, [])"
  shows "case state_of (io_halves f g ts ts2 w) of (w2, offs) \<Rightarrow> J (w2, 0, offs)"
proof -
  note first = assms(1) [OF begun]
  show ?thesis
  proof (cases "run_turns f ts (w, 0, [])")
    case (Again s)
    with first any show ?thesis by (auto simp: io_halves_def split: prod.split)
  next
    case (Done e s)
    obtain w3 dn offs where s: "s = (w3, dn, offs)" by (cases s)
    have mid: "J (w3, dn2, offs)" for dn2 using first any by (auto simp: Done s)
    have "J (state_of (run_turns g ts2 (w3, 0, offs)))" by (rule assms(2) [OF mid])
    with mid any show ?thesis by (auto simp: io_halves_def Done s split: option.split prod.split)
  qed
qed

text \<open>
  C30. Random input and output stays inside the file: whatever file size the command asks for, every
  offset is a multiple of 4096 bytes and its block lies inside the file, the bytes counted are 4096
  per counted operation, and no file other than the sparse one changes.
\<close>

theorem runRIOPS_stays_in_file:
  assumes "riops_sizes cmd = Inr (fileSize, ioSize, blocks)"
    and "list_all (block_ok blocks) ts" "list_all (block_ok blocks) ts2"
  shows "let (w2, offs) = state_of (runRIOPS host cmd (None, left) now now2 start start2 ts ts2 w) in
    list_all (\<lambda>off. 0 \<le> off \<and> off + 4096 \<le> fileSize \<and> 4096 dvd off) offs \<and>
    scWriteBytes (wStats w2) - scWriteBytes (wStats w) = 4096 * (scWriteOps (wStats w2) - scWriteOps (wStats w)) \<and>
    scReadBytes (wStats w2) - scReadBytes (wStats w) = 4096 * (scReadOps (wStats w2) - scReadOps (wStats w)) \<and>
    wDisk w2 = AList.update (riops_path host cmd) fileSize (wDisk w)"
proof -
  note sizes = riops_sizes_ok [OF assms(1)]
  let ?w = "write_file (riops_path host cmd) fileSize w"
  have keeps: "io_books fileSize ioSize ?w (state_of (run_turns (io_turn ioSize wr until st rate) us s))"
    if "io_books fileSize ioSize ?w s" "list_all (block_ok blocks) us" for wr until st rate us s
    using that(2) that(1) sizes
    by (intro run_turns_invariant [where J = "io_books fileSize ioSize ?w"] io_books_turn [where blocks = blocks])
      (auto simp: list_all_iff block_ok_def)
  have "case state_of (runRIOPS host cmd (None, left) now now2 start start2 ts ts2 w) of
      (w2, offs) \<Rightarrow> io_books fileSize ioSize ?w (w2, 0, offs)"
    unfolding runRIOPS_def assms(1) sum.case prod.case option.case Let_def
    by (rule io_halves_keep [where J = "io_books fileSize ioSize ?w", unfolded io_halves_def])
      (use assms keeps in \<open>simp_all add: io_books_def\<close>)
  then show ?thesis using sizes by (simp add: io_books_def write_file_def Let_def split: prod.splits)
qed

lemma runRIOPS_stays_in_file_witness:
  "\<exists>w2 offs. state_of (runRIOPS ''h'' (demo_command PhaseRIOPS) (None, None) 0 0 0 0
      [\<lparr>ioNow = 0, ioDone = False, ioClock = 0, ioCut = False, ioBlock = 1, ioOk = True\<rparr>] [] demo_world) = (w2, offs) \<and>
    list_all (\<lambda>off. 0 \<le> off \<and> off + 4096 \<le> 8192 \<and> 4096 dvd off) offs"
proof -
  have "riops_sizes (demo_command PhaseRIOPS) = Inr (8192, 4096, 2)"
    by (simp add: riops_sizes_def demo_command_def Let_def RIOPSIOSize_def directAlign_def sdiv_pos)
  from runRIOPS_stays_in_file [OF this, of
      "[\<lparr>ioNow = 0, ioDone = False, ioClock = 0, ioCut = False, ioBlock = 1, ioOk = True\<rparr>]" "[]" "''h''" None 0 0 0 0 demo_world]
  show ?thesis by (auto simp: block_ok_def Let_def split: prod.splits)
qed

end
