(* ===== verification/Bandwidth.thy ===== *)
theory Bandwidth
  imports Worker
begin

text \<open>
  The bandwidth phases of the worker (\<open>runBandwidth\<close>, \<open>writeFileDirect\<close>, \<open>runReadWrite\<close> in
  \<^verbatim>\<open>internal/client/worker.go\<close>): files are written or read in chunks of one mebibyte,
  paced by the bytes transferred; a file that was written to its end is entered in the ledger for
  the readers.
\<close>

section \<open>State\<close>

lemma smod_pos: "0 \<le> a \<Longrightarrow> 0 < b \<Longrightarrow> a smod b = a mod (b::int)"
  by (cases "a = 0") (simp_all add: signed_modulo_int_def sgn_if)

text \<open>
  \<open>alignedBuffer\<close> (\<^verbatim>\<open>internal/client/aligned.go\<close>): the length allocated at the address \<open>addr\<close>, and
  the bounds of the slice that is handed out.
\<close>

definition alignedBuffer :: "int \<Rightarrow> int \<Rightarrow> int \<times> int \<times> int" where [go_eval]:
  "alignedBuffer addr want =
    (let want = (if want \<le> 0 then directAlign else want);
         off = addr smod directAlign;
         off = (if off \<noteq> 0 then directAlign - off else off)
     in (want + directAlign, off, off + want))"

text \<open>Wherever the allocation lies, the slice is inside it, starts aligned and has the length asked for.\<close>

lemma alignedBuffer_ok:
  assumes "0 \<le> addr" "alignedBuffer addr want = (len, lo, hi)"
  shows "0 \<le> lo \<and> lo \<le> hi \<and> hi \<le> len \<and> directAlign dvd addr + lo \<and> hi - lo = (if want \<le> 0 then 4096 else want)"
proof -
  define r where "r = addr mod 4096"
  have rem: "addr smod 4096 = r" using assms(1) by (simp add: smod_pos r_def)
  have r: "0 \<le> r" "r < 4096" by (simp_all add: r_def)
  have "(4096::int) dvd addr - r" unfolding r_def by (rule dvd_minus_mod)
  then have al: "(4096::int) dvd addr + (if r \<noteq> 0 then 4096 - r else r)"
    using dvd_add [of "4096::int" "addr - r" 4096] by (cases "r = 0") (simp_all add: algebra_simps)
  have "lo = (if r \<noteq> 0 then 4096 - r else r)" "hi = lo + (if want \<le> 0 then 4096 else want)"
    "len = (if want \<le> 0 then 4096 else want) + 4096"
    using assms(2) unfolding alignedBuffer_def directAlign_def rem Let_def by auto
  with al r show ?thesis by (simp add: directAlign_def)
qed

definition BufSize :: int where [go_eval]: "BufSize = 1024 * 1024"

text \<open>The local variables of the loop; \<open>bwFile\<close> is the path of the open file, if any.\<close>

record bw =
  bwReadFiles :: "int list"
  bwReadCursor :: nat
  bwTransferred :: float64
  bwFile :: "string option"
  bwOff :: int
  bwWriting :: bool
  bwActive :: int
  bwOpStart :: "time option"
  bwLastRefresh :: time

definition bw_start :: bw where [go_eval]:
  "bw_start =
    \<lparr>bwReadFiles = [], bwReadCursor = 0, bwTransferred = 0, bwFile = None, bwOff = 0, bwWriting = False,
     bwActive = -1, bwOpStart = None, bwLastRefresh = zero_time\<rparr>"

datatype io_err = NoErr | EndOfFile | OtherErr

text \<open>
  The environment's answers in one turn: the readings of the clock in their order, the context, the
  outcome of opening (directly, and without \<open>O_DIRECT\<close> after the failure), what a failed open leaves,
  whether that is removed, the seeding of a file to read, and the result of one write or read.
\<close>

record bw_tick =
  btNow :: time
  btDone :: bool
  btClock :: time
  btCut :: bool
  btUntil :: time
  btParent :: bool
  btDirect :: bool
  btLeft :: bool
  btRemove :: bool
  btBuffered :: bool
  btOpen :: time
  btSince :: time
  btRefresh :: time
  btSeedWrites :: "(int \<times> bool) list"
  btReadDirect :: bool
  btReadBuffered :: bool
  btN :: int
  btErr :: io_err
  btEnd :: time
  btNow2 :: time
  btDone2 :: bool

definition align_down :: "int \<Rightarrow> int" where [go_eval]:
  "align_down n = (n sdiv directAlign) * directAlign"

definition bw_fileSize :: "PhaseCommand \<Rightarrow> int" where [go_eval]:
  "bw_fileSize cmd =
    (let fileSize = (if pcFileSize cmd \<le> 0 then BandwidthFileSize else pcFileSize cmd)
     in if fileSize smod directAlign \<noteq> 0
        then let fileSize = align_down fileSize in if fileSize = 0 then directAlign else fileSize
        else fileSize)"

text \<open>What \<open>Write\<close> and \<open>Read\<close> report: never more than was asked for, and a write without an error
  wrote all of it.\<close>

definition moved :: "int \<Rightarrow> int \<Rightarrow> int" where [go_eval]:
  "moved chunk n = max 0 (min n chunk)"

definition written_now :: "int \<Rightarrow> int \<Rightarrow> bool \<Rightarrow> int" where [go_eval]:
  "written_now chunk n ok = (if ok then chunk else moved chunk n)"

section \<open>Opening and closing\<close>

definition closeFile :: "bw \<Rightarrow> bw" where [go_eval]:
  "closeFile b = b\<lparr>bwFile := None, bwOff := 0, bwWriting := False, bwActive := -1, bwOpStart := None\<rparr>"

definition refreshReads :: "time \<Rightarrow> world \<Rightarrow> bw \<Rightarrow> bw" where [go_eval]:
  "refreshReads now w b =
    (let b = b\<lparr>bwReadFiles := BWSnapshot (wLedger w), bwLastRefresh := now\<rparr>
     in if bwReadFiles b = [] then b
        else if bwReadCursor b \<ge> length (bwReadFiles b) then b\<lparr>bwReadCursor := 0\<rparr> else b)"

text \<open>Creating a file: exclusively, directly first; a failure may leave an empty file, which is removed
  before the second attempt. The result is whether it is open.\<close>

definition create_exclusive :: "bw_tick \<Rightarrow> string \<Rightarrow> world \<Rightarrow> bool \<times> world" where [go_eval]:
  "create_exclusive t path w =
    (if btDirect t \<and> \<not> on_disk w path then (True, write_file path 0 w)
     else
       let w = (if btLeft t \<and> \<not> on_disk w path then write_file path 0 w else w);
           w = (if btRemove t then remove_file path w else w)
       in if btBuffered t \<and> \<not> on_disk w path then (True, write_file path 0 w) else (False, w))"

definition openNextWrite :: "string \<Rightarrow> PhaseCommand \<Rightarrow> bw_tick \<Rightarrow> world \<Rightarrow> bw \<Rightarrow> bool \<times> world \<times> bw"
where [go_eval]:
  "openNextWrite host cmd t w b =
    (let b = closeFile b;
         (idx, l) = NextIndex (wLedger w);
         w = w\<lparr>wLedger := l\<rparr>;
         path = FilePath (pcPrefix cmd) (pcTestName cmd) host idx
     in if \<not> btParent t then (False, w, b)
        else case create_exclusive t path w of
               (False, w) \<Rightarrow> (False, w, b)
             | (True, w) \<Rightarrow>
                 (True, w, b\<lparr>bwFile := Some path, bwWriting := True, bwActive := idx, bwOpStart := Some (btOpen t)\<rparr>))"

text \<open>The loop of \<open>writeFileDirect\<close>: what was written and whether it succeeded. Without an answer left
  the write fails.\<close>

fun write_loop :: "int \<Rightarrow> (int \<times> bool) list \<Rightarrow> int \<Rightarrow> int \<times> bool" where
  "write_loop want answers written =
    (if written < want then
       let chunk = min BufSize (want - written);
           chunk = (if chunk smod directAlign \<noteq> 0 then align_down chunk else chunk)
       in if chunk = 0 then (written, True)
          else case answers of
                 [] \<Rightarrow> (written, False)
               | (n, ok) # rest \<Rightarrow>
                   let written = written + written_now chunk n ok
                   in if ok then write_loop want rest written else (written, False)
     else (written, True))"

declare write_loop.simps [simp del]

definition writeFileDirect :: "bw_tick \<Rightarrow> string \<Rightarrow> int \<Rightarrow> world \<Rightarrow> bool \<times> world" where [go_eval]:
  "writeFileDirect t path want w =
    (case create_exclusive t path w of
       (False, w) \<Rightarrow> (False, w)
     | (True, w) \<Rightarrow>
         (case write_loop want (btSeedWrites t) 0 of (written, ok) \<Rightarrow> (ok, write_file path written w)))"

definition openNextRead :: "string \<Rightarrow> PhaseCommand \<Rightarrow> bw_tick \<Rightarrow> world \<Rightarrow> bw \<Rightarrow> bool \<times> world \<times> bw"
where [go_eval]:
  "openNextRead host cmd t w b =
    (let b = closeFile b;
         b = (if bwReadFiles b = [] \<or> btSince t - bwLastRefresh b > Second then refreshReads (btRefresh t) w b else b);
         (seeded, w, b) =
           (if bwReadFiles b \<noteq> [] then (True, w, b)
            else
              let (idx, l) = NextIndex (wLedger w);
                  w = w\<lparr>wLedger := l\<rparr>;
                  path = FilePath (pcPrefix cmd) (pcTestName cmd) host idx
              in if \<not> btParent t then (False, w, b)
                 else case writeFileDirect t path (bw_fileSize cmd) w of
                        (False, w) \<Rightarrow> (False, w, b)
                      | (True, w) \<Rightarrow>
                          let w = w\<lparr>wLedger := AddBW idx (wLedger w)\<rparr>
                          in (True, w, refreshReads (btRefresh t) w b))
     in if \<not> seeded \<or> bwReadFiles b = [] then (False, w, b)
        else
          let idx = bwReadFiles b ! (bwReadCursor b mod length (bwReadFiles b));
              b = b\<lparr>bwReadCursor := bwReadCursor b + 1\<rparr>;
              path = FilePath (pcPrefix cmd) (pcTestName cmd) host idx
          in if on_disk w path \<and> (btReadDirect t \<or> btReadBuffered t)
             then (True, w, b\<lparr>bwFile := Some path, bwWriting := False, bwActive := idx, bwOpStart := Some (btOpen t)\<rparr>)
             else (False, w, b))"

section \<open>One turn\<close>

definition finish_write :: "bw_tick \<Rightarrow> world \<Rightarrow> bw \<Rightarrow> world \<times> bw" where [go_eval]:
  "finish_write t w b =
    (let w = (case bwOpStart b of None \<Rightarrow> w
              | Some t0 \<Rightarrow> w\<lparr>wStats := ObserveWrite (btEnd t - t0) (wStats w)\<rparr>);
         w = count WriteOps 1 w;
         w = (if bwActive b \<ge> 0 then w\<lparr>wLedger := AddBW (bwActive b) (wLedger w)\<rparr> else w)
     in (w, closeFile b))"

definition finish_read :: "bw_tick \<Rightarrow> world \<Rightarrow> bw \<Rightarrow> world \<times> bw" where [go_eval]:
  "finish_read t w b =
    (if bwOff b > 0 then
       let w = (case bwOpStart b of None \<Rightarrow> w
                | Some t0 \<Rightarrow> w\<lparr>wStats := ObserveRead (btEnd t - t0) (wStats w)\<rparr>)
       in (count ReadOps 1 w, closeFile b)
     else (w, closeFile b))"

text \<open>The size of the next chunk; 0 when what remains is less than the alignment.\<close>

definition chunk_size :: "int \<Rightarrow> int" where [go_eval]:
  "chunk_size remain =
    (let chunk = (if BufSize > remain then remain else BufSize)
     in if chunk smod directAlign \<noteq> 0 then align_down chunk else chunk)"

definition after_error :: "time \<Rightarrow> bw_tick \<Rightarrow> 's \<Rightarrow> 's turn" where [go_eval]:
  "after_error deadline t s =
    (if btNow2 t > deadline \<or> btDone2 t then (if btDone2 t then Done (Some ErrCtx) s else Done None s)
     else Again s)"

definition write_chunk :: "int \<Rightarrow> time \<Rightarrow> bw_tick \<Rightarrow> world \<Rightarrow> bw \<Rightarrow> (world \<times> bw) turn" where [go_eval]:
  "write_chunk fileSize deadline t w b =
    (let remain = fileSize - bwOff b
     in if remain \<le> 0 then Again (finish_write t w b)
        else
          let chunk = chunk_size remain
          in if chunk = 0 then Again (w, closeFile b)
             else
               let n = written_now chunk (btN t) (btErr t = NoErr);
                   b = (if n > 0 then b\<lparr>bwOff := bwOff b + n, bwTransferred := bwTransferred b + of_int n\<rparr> else b);
                   w = (if n > 0 then count WriteBytes n w else w);
                   w = (case bwFile b of
                          Some p \<Rightarrow> if on_disk w p then write_file p (bwOff b) w else w
                        | None \<Rightarrow> w)
               in if btErr t \<noteq> NoErr then after_error deadline t (w, closeFile b)
                  else if bwOff b \<ge> fileSize then Again (finish_write t w b)
                  else Again (w, b))"

definition read_chunk :: "int \<Rightarrow> time \<Rightarrow> bw_tick \<Rightarrow> world \<Rightarrow> bw \<Rightarrow> (world \<times> bw) turn" where [go_eval]:
  "read_chunk fileSize deadline t w b =
    (let remain = fileSize - bwOff b
     in if remain \<le> 0 then Again (finish_read t w b)
        else
          let chunk = chunk_size remain
          in if chunk = 0 then Again (finish_read t w b)
             else
               let n = moved chunk (btN t);
                   b = (if n > 0 then b\<lparr>bwOff := bwOff b + n, bwTransferred := bwTransferred b + of_int n\<rparr> else b);
                   w = (if n > 0 then count ReadBytes n w else w)
               in if btErr t = EndOfFile \<or> bwOff b \<ge> fileSize then Again (finish_read t w b)
                  else if btErr t \<noteq> NoErr then after_error deadline t (w, closeFile b)
                  else Again (w, b))"

definition bw_turn ::
  "string \<Rightarrow> PhaseCommand \<Rightarrow> bool \<Rightarrow> time \<Rightarrow> time \<Rightarrow> bw_tick \<Rightarrow> world \<times> bw \<Rightarrow> (world \<times> bw) turn"
where [go_eval]:
  "bw_turn host cmd doWrite deadline start t s =
    (case s of (w, b) \<Rightarrow>
      if btNow t > deadline then Done None s
      else if btDone t then Done (Some ErrCtx) s
      else
        let elapsed = (let e = Seconds (btClock t - start) in if e < 1 / 1000 then 1 / 1000 else e)
        in if bwTransferred b \<ge> pcRate cmd * elapsed then wait_turn (btCut t) s
           else if deadline - btUntil t < 20 * Millisecond then Done None s
           else
             case (if bwFile b = None
                   then (if doWrite then openNextWrite host cmd t w b else openNextRead host cmd t w b)
                   else (True, w, b)) of
               (False, w, b) \<Rightarrow> wait_turn (btCut t) (w, b)
             | (True, w, b) \<Rightarrow>
                 if bwWriting b then write_chunk (bw_fileSize cmd) deadline t w b
                 else read_chunk (bw_fileSize cmd) deadline t w b)"

definition runBandwidth ::
  "string \<Rightarrow> PhaseCommand \<Rightarrow> bool \<Rightarrow> time \<Rightarrow> time \<Rightarrow> bool \<Rightarrow> bw_tick list \<Rightarrow> world \<Rightarrow> world turn"
where [go_eval]:
  "runBandwidth host cmd doWrite now start short ts w =
    (if pcRate cmd \<le> 0 then Done (sleepCtx short) w
     else map_turn_state fst (run_turns (bw_turn host cmd doWrite (now + durationOf cmd) start) ts (w, bw_start)))"

section \<open>Reading and writing at once\<close>

text \<open>The command of the reading half, and the result of the two halves in the order they end.\<close>

definition read_half :: "PhaseCommand \<Rightarrow> PhaseCommand" where [go_eval]:
  "read_half cmd =
    (let cmd2 = cmd\<lparr>pcRate := pcReadRate cmd\<rparr>
     in if pcRate cmd2 \<le> 0 then cmd2\<lparr>pcRate := pcRate cmd\<rparr> else cmd2)"

definition readwrite_result :: "run_error option \<Rightarrow> run_error option \<Rightarrow> run_error option" where [go_eval]:
  "readwrite_result e1 e2 =
    (let first = (case e1 of Some e \<Rightarrow> Some e | None \<Rightarrow> e2) in if first = Some ErrCtx then None else first)"

text \<open>The two loops share the world; \<open>True\<close> is a turn of the writer. A half that has ended stays.
  \<open>writer\<close> and \<open>reader\<close> are the deadline and the starting time of the two.\<close>

definition readwrite_turn ::
  "string \<Rightarrow> PhaseCommand \<Rightarrow> time \<times> time \<Rightarrow> time \<times> time \<Rightarrow> bool \<times> bw_tick \<Rightarrow>
   world \<times> (run_error option option \<times> bw) \<times> (run_error option option \<times> bw) \<Rightarrow>
   world \<times> (run_error option option \<times> bw) \<times> (run_error option option \<times> bw)"
where [go_eval]:
  "readwrite_turn host cmd writer reader wt s =
    (case s of (w, (e1, b1), (e2, b2)) \<Rightarrow>
      if fst wt then
        (if e1 \<noteq> None then s
         else case bw_turn host cmd True (fst writer) (snd writer) (snd wt) (w, b1) of
                Again (w, b1) \<Rightarrow> (w, (None, b1), (e2, b2))
              | Done e (w, b1) \<Rightarrow> (w, (Some e, b1), (e2, b2)))
      else
        (if e2 \<noteq> None then s
         else case bw_turn host (read_half cmd) False (fst reader) (snd reader) (snd wt) (w, b2) of
                Again (w, b2) \<Rightarrow> (w, (e1, b1), (None, b2))
              | Done e (w, b2) \<Rightarrow> (w, (e1, b1), (Some e, b2))))"

section \<open>Sizes\<close>

lemma align_down_eq: "0 \<le> n \<Longrightarrow> align_down n = n - n mod 4096"
  by (simp add: align_down_def directAlign_def sdiv_pos minus_mod_eq_div_mult)

lemma bw_fileSize_ok: "0 < bw_fileSize cmd" "4096 dvd bw_fileSize cmd"
proof -
  define fs where "fs = (if pcFileSize cmd \<le> 0 then BandwidthFileSize else pcFileSize cmd)"
  have fs: "0 < fs" by (simp add: fs_def BandwidthFileSize_def)
  have eq: "bw_fileSize cmd = (if fs mod 4096 \<noteq> 0 then let a = fs - fs mod 4096 in if a = 0 then 4096 else a else fs)"
    unfolding bw_fileSize_def fs_def [symmetric] Let_def using fs
    by (simp add: directAlign_def smod_pos align_down_eq)
  have "0 \<le> fs - fs mod 4096" using fs zmod_le_nonneg_dividend [of fs 4096] by simp
  with fs show "0 < bw_fileSize cmd" by (auto simp: eq Let_def)
  show "4096 dvd bw_fileSize cmd" by (auto simp: eq Let_def)
qed

lemma chunk_size_ok:
  assumes "0 < remain"
  shows "0 \<le> chunk_size remain" "chunk_size remain \<le> remain" "chunk_size remain \<le> BufSize"
    "4096 dvd chunk_size remain" "4096 dvd remain \<Longrightarrow> 0 < chunk_size remain"
proof -
  define c where "c = min BufSize remain"
  have c: "0 < c" "c \<le> remain" "c \<le> BufSize" using assms by (simp_all add: c_def BufSize_def)
  have eq: "chunk_size remain = c - c mod 4096"
    using c(1) by (auto simp: chunk_size_def Let_def c_def min_def directAlign_def smod_pos align_down_eq BufSize_def)
  have "0 \<le> c mod 4096" by simp
  then show "0 \<le> chunk_size remain" "chunk_size remain \<le> remain" "chunk_size remain \<le> BufSize"
    using c zmod_le_nonneg_dividend [of c 4096] by (simp_all add: eq)
  show "4096 dvd chunk_size remain" by (simp add: eq)
  show "0 < chunk_size remain" if "4096 dvd remain"
  proof -
    have "4096 dvd BufSize" by (simp add: BufSize_def)
    with that have "4096 dvd c" by (simp add: c_def min_def)
    then show ?thesis using c by (simp add: eq dvd_eq_mod_eq_0)
  qed
qed

lemma written_now_range: "0 \<le> chunk \<Longrightarrow> 0 \<le> written_now chunk n ok \<and> written_now chunk n ok \<le> chunk"
  by (simp add: written_now_def moved_def)

lemma moved_range: "0 \<le> chunk \<Longrightarrow> 0 \<le> moved chunk n \<and> moved chunk n \<le> chunk"
  by (simp add: moved_def)

section \<open>Time and pace\<close>

interpretation bw_time: timed "bw_turn host cmd doWrite deadline start" "\<lambda>t. deadline < btNow t" btDone
  for host cmd doWrite deadline start
  by unfold_locales (simp_all add: bw_turn_def split: prod.split)

lemma transferred_frames [simp]:
  "bwTransferred (closeFile b) = bwTransferred b" "bwTransferred (refreshReads now w b) = bwTransferred b"
  "bwFile (closeFile b) = None" "bwOff (closeFile b) = 0"
  by (simp_all add: closeFile_def refreshReads_def Let_def)

lemma finish_transferred [simp]:
  "bwTransferred (snd (finish_write t w b)) = bwTransferred b"
  "bwTransferred (snd (finish_read t w b)) = bwTransferred b"
  by (simp_all add: finish_write_def finish_read_def Let_def)

lemma after_error_state [simp]: "state_of (after_error deadline t s) = s"
  by (simp add: after_error_def)

lemma write_chunk_transferred:
  "bwTransferred (snd (state_of (write_chunk fs deadline t w b))) \<le> bwTransferred b + of_int BufSize"
proof -
  define n where "n = written_now (chunk_size (fs - bwOff b)) (btN t) (btErr t = NoErr)"
  have n: "n \<le> BufSize" if "\<not> fs - bwOff b \<le> 0"
    using written_now_range [of "chunk_size (fs - bwOff b)" "btN t" "btErr t = NoErr"]
      chunk_size_ok [of "fs - bwOff b"] that by (simp add: n_def)
  show ?thesis
    unfolding write_chunk_def Let_def n_def [symmetric]
    using n by (simp add: BufSize_def)
qed

lemma read_chunk_transferred:
  "bwTransferred (snd (state_of (read_chunk fs deadline t w b))) \<le> bwTransferred b + of_int BufSize"
proof -
  define n where "n = moved (chunk_size (fs - bwOff b)) (btN t)"
  have n: "n \<le> BufSize" if "\<not> fs - bwOff b \<le> 0"
    using moved_range [of "chunk_size (fs - bwOff b)" "btN t"] chunk_size_ok [of "fs - bwOff b"] that
    by (simp add: n_def)
  show ?thesis
    unfolding read_chunk_def Let_def n_def [symmetric]
    using n by (simp add: BufSize_def)
qed

lemma openNextWrite_transferred:
  "bwTransferred (snd (snd (openNextWrite host cmd t w b))) = bwTransferred b"
  by (auto simp: openNextWrite_def Let_def NextIndex_def split: prod.split bool.split)

lemma openNextRead_transferred:
  "bwTransferred (snd (snd (openNextRead host cmd t w b))) = bwTransferred b"
  by (auto simp: openNextRead_def Let_def NextIndex_def split: prod.split bool.split)

text \<open>A turn that gets past the guards: what is opened, if nothing was, and one chunk.\<close>

definition opened ::
  "string \<Rightarrow> PhaseCommand \<Rightarrow> bool \<Rightarrow> bw_tick \<Rightarrow> world \<Rightarrow> bw \<Rightarrow> bool \<times> world \<times> bw" where
  "opened host cmd doWrite t w b =
    (if bwFile b = None
     then (if doWrite then openNextWrite host cmd t w b else openNextRead host cmd t w b)
     else (True, w, b))"

lemma opened_transferred: "bwTransferred (snd (snd (opened host cmd doWrite t w b))) = bwTransferred b"
  by (simp add: opened_def openNextWrite_transferred openNextRead_transferred)

lemma bw_turn_cases:
  obtains "state_of (bw_turn host cmd doWrite deadline start t (w, b)) = (w, b)"
  | w2 b2 where "opened host cmd doWrite t w b = (False, w2, b2)"
      "state_of (bw_turn host cmd doWrite deadline start t (w, b)) = (w2, b2)"
      "bwTransferred b < pcRate cmd * max (1 / 1000) (Seconds (btClock t - start))"
  | w2 b2 where "opened host cmd doWrite t w b = (True, w2, b2)"
      "bw_turn host cmd doWrite deadline start t (w, b) =
        (if bwWriting b2 then write_chunk (bw_fileSize cmd) deadline t w2 b2
         else read_chunk (bw_fileSize cmd) deadline t w2 b2)"
      "bwTransferred b < pcRate cmd * max (1 / 1000) (Seconds (btClock t - start))"
proof -
  define e where "e = max (1 / 1000) (Seconds (btClock t - start))"
  have e: "(if Seconds (btClock t - start) < 1 / 1000 then 1 / 1000 else Seconds (btClock t - start)) = e"
    by (simp add: e_def max_def)
  obtain ok w2 b2 where o: "opened host cmd doWrite t w b = (ok, w2, b2)" by (cases "opened host cmd doWrite t w b")
  have turn: "bw_turn host cmd doWrite deadline start t (w, b) =
     (if btNow t > deadline then Done None (w, b)
      else if btDone t then Done (Some ErrCtx) (w, b)
      else if bwTransferred b \<ge> pcRate cmd * e then wait_turn (btCut t) (w, b)
      else if deadline - btUntil t < 20 * Millisecond then Done None (w, b)
      else case (ok, w2, b2) of
             (False, w, b) \<Rightarrow> wait_turn (btCut t) (w, b)
           | (True, w, b) \<Rightarrow>
               if bwWriting b then write_chunk (bw_fileSize cmd) deadline t w b
               else read_chunk (bw_fileSize cmd) deadline t w b)"
    unfolding o [symmetric] opened_def bw_turn_def Let_def e prod.case ..
  show ?thesis
  proof (cases "btNow t > deadline \<or> btDone t \<or> bwTransferred b \<ge> pcRate cmd * e \<or> deadline - btUntil t < 20 * Millisecond")
    case True
    then show ?thesis by (intro that(1)) (auto simp: turn)
  next
    case False
    show ?thesis
    proof (cases ok)
      case True
      with False o show ?thesis by (intro that(3)) (simp_all add: turn e_def [symmetric])
    next
      case no: False
      with False o show ?thesis by (intro that(2)) (simp_all add: turn e_def [symmetric])
    qed
  qed
qed

interpretation bw_pace: paced "bw_turn host cmd doWrite deadline start" "\<lambda>s. bwTransferred (snd s)"
  "\<lambda>t. max (1 / 1000) (Seconds (btClock t - start))" "\<lambda>t. True" "pcRate cmd" "of_int BufSize"
  for host cmd doWrite deadline start
proof unfold_locales
  fix t :: bw_tick and s :: "world \<times> bw"
  obtain w b where s: "s = (w, b)" by (cases s)
  note cases = bw_turn_cases [of host cmd doWrite deadline start t w b]
  {
    assume ahead: "pcRate cmd * max (1 / 1000) (Seconds (btClock t - start)) \<le> bwTransferred (snd s)"
    show "bwTransferred (snd (state_of (bw_turn host cmd doWrite deadline start t s))) = bwTransferred (snd s)"
      unfolding s by (rule cases) (use ahead s in auto)
  }
  show "bwTransferred (snd (state_of (bw_turn host cmd doWrite deadline start t s))) \<le> bwTransferred (snd s) + of_int BufSize"
    unfolding s
  proof (rule cases)
    fix w2 b2
    assume "opened host cmd doWrite t w b = (False, w2, b2)"
      "state_of (bw_turn host cmd doWrite deadline start t (w, b)) = (w2, b2)"
    moreover have "0 \<le> BufSize" by (simp add: BufSize_def)
    ultimately show "bwTransferred (snd (state_of (bw_turn host cmd doWrite deadline start t (w, b)))) \<le>
        bwTransferred (snd (w, b)) + of_int BufSize"
      using opened_transferred [of host cmd doWrite t w b] by simp
  next
    fix w2 b2
    assume o: "opened host cmd doWrite t w b = (True, w2, b2)"
      "bw_turn host cmd doWrite deadline start t (w, b) =
        (if bwWriting b2 then write_chunk (bw_fileSize cmd) deadline t w2 b2
         else read_chunk (bw_fileSize cmd) deadline t w2 b2)"
    have "bwTransferred b2 = bwTransferred b" using opened_transferred [of host cmd doWrite t w b] o(1) by simp
    then show "bwTransferred (snd (state_of (bw_turn host cmd doWrite deadline start t (w, b)))) \<le>
        bwTransferred (snd (w, b)) + of_int BufSize"
      using write_chunk_transferred [of "bw_fileSize cmd" deadline t w2 b2]
        read_chunk_transferred [of "bw_fileSize cmd" deadline t w2 b2] unfolding o(2) by simp
  qed (simp add: BufSize_def)
qed

section \<open>Confinement\<close>

lemma create_exclusive_frame:
  assumes "create_exclusive t p w = (ok, w2)"
  shows "wLedger w2 = wLedger w" "wStats w2 = wStats w" "q \<noteq> p \<Longrightarrow> map_of (wDisk w2) q = map_of (wDisk w) q"
    "ok \<Longrightarrow> map_of (wDisk w2) p = Some 0"
  using assms by (auto simp: create_exclusive_def Let_def split: if_splits)

definition bw_confined :: "string \<Rightarrow> world \<Rightarrow> world \<times> bw \<Rightarrow> bool" where
  "bw_confined base w0 s \<longleftrightarrow>
    same_outside base w0 (fst s) \<and> (\<forall>p. bwFile (snd s) = Some p \<longrightarrow> under base p)"

lemma exclusive_outside:
  assumes "create_exclusive t p w = (ok, w2)" "under base p" "same_outside base w0 w"
  shows "same_outside base w0 w2"
  using create_exclusive_frame(3) [OF assms(1)] assms(2,3) by (metis same_outside_def)

lemma openNextWrite_confined:
  assumes "bw_confined (HostRoot (pcPrefix cmd) (pcTestName cmd) host) w0 (w, b)"
    and "openNextWrite host cmd t w b = (ok, w2, b2)"
  shows "bw_confined (HostRoot (pcPrefix cmd) (pcTestName cmd) host) w0 (w2, b2)"
proof -
  let ?p = "FilePath (pcPrefix cmd) (pcTestName cmd) host (flNext (wLedger w))"
  let ?w = "w\<lparr>wLedger := snd (NextIndex (wLedger w))\<rparr>"
  obtain opened w3 where c: "create_exclusive t ?p ?w = (opened, w3)" by fastforce
  have "same_outside (HostRoot (pcPrefix cmd) (pcTestName cmd) host) w0 w3"
    using exclusive_outside [OF c FilePath_under] assms(1) by (simp add: bw_confined_def)
  with assms c show ?thesis
    by (cases opened) (auto simp: bw_confined_def openNextWrite_def Let_def NextIndex_def FilePath_under split: if_splits)
qed

lemma write_chunk_confined:
  assumes "bw_confined base w0 (w, b)"
  shows "bw_confined base w0 (state_of (write_chunk fs deadline t w b))"
proof (cases "fs - bwOff b \<le> 0 \<or> chunk_size (fs - bwOff b) = 0")
  case True
  with assms show ?thesis
    by (auto simp: bw_confined_def write_chunk_def Let_def finish_write_def split: option.split)
next
  case False
  define n where "n = written_now (chunk_size (fs - bwOff b)) (btN t) (btErr t = NoErr)"
  define b2 where "b2 = (if n > 0 then b\<lparr>bwOff := bwOff b + n, bwTransferred := bwTransferred b + of_int n\<rparr> else b)"
  define w1 where "w1 = (if n > 0 then count WriteBytes n w else w)"
  define w2 where "w2 = (case bwFile b2 of Some p \<Rightarrow> if on_disk w1 p then write_file p (bwOff b2) w1 else w1 | None \<Rightarrow> w1)"
  have turn: "write_chunk fs deadline t w b =
      (if btErr t \<noteq> NoErr then after_error deadline t (w2, closeFile b2)
       else if bwOff b2 \<ge> fs then Again (finish_write t w2 b2) else Again (w2, b2))"
    using False unfolding write_chunk_def Let_def n_def [symmetric] b2_def [symmetric] w1_def [symmetric]
      w2_def [symmetric] by simp
  have "bwFile b2 = bwFile b" "same_outside base w0 w1" using assms by (simp_all add: b2_def w1_def bw_confined_def)
  moreover from this have "same_outside base w0 w2"
    using assms by (auto simp: w2_def bw_confined_def same_outside_write split: option.split)
  ultimately show ?thesis
    using assms by (auto simp: turn bw_confined_def finish_write_def Let_def split: option.split)
qed

lemma read_chunk_confined:
  assumes "bw_confined base w0 (w, b)"
  shows "bw_confined base w0 (state_of (read_chunk fs deadline t w b))"
  using assms unfolding read_chunk_def Let_def
  by (auto simp: bw_confined_def finish_read_def Let_def split: option.split)

lemma openNextRead_confined:
  assumes "bw_confined (HostRoot (pcPrefix cmd) (pcTestName cmd) host) w0 (w, b)"
    and "openNextRead host cmd t w b = (ok, w2, b2)"
  shows "bw_confined (HostRoot (pcPrefix cmd) (pcTestName cmd) host) w0 (w2, b2)"
proof -
  let ?base = "HostRoot (pcPrefix cmd) (pcTestName cmd) host"
  let ?p = "FilePath (pcPrefix cmd) (pcTestName cmd) host (flNext (wLedger w))"
  let ?w = "w\<lparr>wLedger := snd (NextIndex (wLedger w))\<rparr>"
  obtain seeded w3 where c: "writeFileDirect t ?p (bw_fileSize cmd) ?w = (seeded, w3)" by fastforce
  have w3: "same_outside ?base w0 w3"
  proof -
    obtain opened w4 where x: "create_exclusive t ?p ?w = (opened, w4)" by fastforce
    have "same_outside ?base w0 w4"
      using exclusive_outside [OF x FilePath_under] assms(1) by (simp add: bw_confined_def)
    with c x show ?thesis
      by (cases opened) (auto simp: writeFileDirect_def same_outside_write FilePath_under split: prod.splits)
  qed
  have no: "bwFile (refreshReads now v (closeFile b)) = None" "bwFile (refreshReads now v (refreshReads n2 u (closeFile b))) = None"
    for now v n2 u by (simp_all add: refreshReads_def Let_def)
  have upd: "bwFile (x\<lparr>bwReadCursor := k\<rparr>) = bwFile x" for x k by simp
  show ?thesis
    using assms c w3 unfolding openNextRead_def Let_def
    by (auto simp: bw_confined_def NextIndex_def FilePath_under no split: if_splits prod.splits bool.splits)
qed

lemma bw_turn_confined:
  assumes "bw_confined (HostRoot (pcPrefix cmd) (pcTestName cmd) host) w0 s"
  shows "bw_confined (HostRoot (pcPrefix cmd) (pcTestName cmd) host) w0
    (state_of (bw_turn host cmd doWrite deadline start t s))"
proof -
  obtain w b where s: "s = (w, b)" by (cases s)
  have after: "bw_confined (HostRoot (pcPrefix cmd) (pcTestName cmd) host) w0 (w2, b2)"
    if "opened host cmd doWrite t w b = (ok, w2, b2)" for ok w2 b2
    using that assms unfolding s opened_def
    by (auto split: if_splits intro: openNextWrite_confined openNextRead_confined)
  show ?thesis unfolding s
  proof (rule bw_turn_cases [of host cmd doWrite deadline start t w b], goal_cases)
    case 1
    with assms show ?case by (simp add: s)
  next
    case (2 w2 b2)
    with after [OF 2(1)] show ?case by simp
  next
    case (3 w2 b2)
    with after [OF 3(1)] show ?case by (simp add: write_chunk_confined read_chunk_confined)
  qed
qed

section \<open>The books of the writer\<close>

text \<open>
  Since the phase started from \<open>w0\<close>: the files entered in the ledger are complete on the disk and
  counted once, the bytes counted are the bytes transferred, and the open file is a new one that is
  as long as the offset says.
\<close>

definition write_books :: "string \<Rightarrow> PhaseCommand \<Rightarrow> world \<Rightarrow> int list \<Rightarrow> int \<Rightarrow> world \<times> bw \<Rightarrow> bool" where
  "write_books host cmd w0 new bytes s \<longleftrightarrow>
    (case s of (w, b) \<Rightarrow>
      ledger_ok (wLedger w) \<and>
      flIndices (wLedger w) = flIndices (wLedger w0) @ new \<and>
      flBwIndices (wLedger w) = flBwIndices (wLedger w0) @ new \<and>
      (\<forall>i \<in> set new. map_of (wDisk w) (FilePath (pcPrefix cmd) (pcTestName cmd) host i) = Some (bw_fileSize cmd)) \<and>
      scWriteOps (wStats w) = scWriteOps (wStats w0) + of_nat (length new) \<and>
      Total (Write (scLatencies (wStats w))) = Total (Write (scLatencies (wStats w0))) + of_nat (length new) \<and>
      scWriteBytes (wStats w) = scWriteBytes (wStats w0) + of_int bytes \<and>
      bwTransferred b = of_int bytes)"

definition open_ok :: "string \<Rightarrow> PhaseCommand \<Rightarrow> world \<times> bw \<Rightarrow> bool" where
  "open_ok host cmd s \<longleftrightarrow>
    (case s of (w, b) \<Rightarrow>
      bwFile b = None \<or>
      (bwWriting b \<and> bwFile b = Some (FilePath (pcPrefix cmd) (pcTestName cmd) host (bwActive b)) \<and>
       0 \<le> bwActive b \<and> bwActive b < flNext (wLedger w) \<and> bwActive b \<notin> set (flIndices (wLedger w)) \<and>
       map_of (wDisk w) (FilePath (pcPrefix cmd) (pcTestName cmd) host (bwActive b)) = Some (bwOff b) \<and>
       0 \<le> bwOff b \<and> bwOff b < bw_fileSize cmd \<and> 4096 dvd bwOff b \<and> bwOpStart b \<noteq> None))"

lemma open_ok_closed [simp]: "open_ok host cmd (w, closeFile b)"
  by (simp add: open_ok_def)

lemma write_books_closed [simp]: "write_books host cmd w0 new bytes (w, closeFile b) = write_books host cmd w0 new bytes (w, b)"
  by (simp add: write_books_def)

text \<open>A path given out before is not the path of the next index.\<close>

lemma fresh_path:
  assumes "ledger_ok l" "i \<in> set (flIndices l)"
  shows "FilePath ps tn host i \<noteq> FilePath ps tn host (flNext l)"
  using assms FilePath_inj [of i "flNext l" ps tn host] by (auto simp: ledger_ok_def)

lemma openNextWrite_books:
  assumes "write_books host cmd w0 new bytes (w, b)" "openNextWrite host cmd t w b = (ok, w2, b2)"
  shows "write_books host cmd w0 new bytes (w2, b2) \<and> open_ok host cmd (w2, b2) \<and> (ok \<longrightarrow> bwFile b2 \<noteq> None)"
proof -
  let ?path = "FilePath (pcPrefix cmd) (pcTestName cmd) host"
  define idx where "idx = flNext (wLedger w)"
  let ?w = "w\<lparr>wLedger := snd (NextIndex (wLedger w))\<rparr>"
  have ok: "ledger_ok (wLedger w)" and new: "set new \<subseteq> set (flIndices (wLedger w))"
    using assms(1) by (auto simp: write_books_def)
  obtain opened w3 where c: "create_exclusive t (?path idx) ?w = (opened, w3)" by fastforce
  note frame = create_exclusive_frame [OF c]
  have other: "map_of (wDisk w3) (?path i) = map_of (wDisk w) (?path i)" if "i \<in> set new" for i
    using frame(3) [of "?path i"] fresh_path [OF ok, of i] new that by (auto simp: idx_def)
  have led: "wLedger w3 = snd (NextIndex (wLedger w))" "wStats w3 = wStats w" using frame(1,2) by simp_all
  have books: "write_books host cmd w0 new bytes (?w, b)" "write_books host cmd w0 new bytes (w3, b)"
    using assms(1) ledger_ok_Next [OF ok] other by (simp_all add: write_books_def led) (simp_all add: NextIndex_def)
  have idx: "0 \<le> idx" "idx \<notin> set (flIndices (wLedger w))" using ok by (auto simp: ledger_ok_def idx_def)
  show ?thesis
  proof (cases "btParent t \<and> opened")
    case True
    then have w2: "ok" "w2 = w3" "b2 = (closeFile b)\<lparr>bwFile := Some (?path idx), bwWriting := True, bwActive := idx,
        bwOpStart := Some (btOpen t)\<rparr>"
      using assms(2) c by (auto simp: openNextWrite_def Let_def NextIndex_def idx_def)
    have "write_books host cmd w0 new bytes (w2, b2)"
      using books(2) by (simp add: w2 write_books_def)
    moreover have "open_ok host cmd (w2, b2)"
      using idx frame(4) True bw_fileSize_ok(1) [of cmd]
      by (simp add: open_ok_def w2 led NextIndex_def idx_def)
    ultimately show ?thesis by (simp add: w2)
  next
    case False
    then have "\<not> ok" "b2 = closeFile b" "w2 = ?w \<or> w2 = w3"
      using assms(2) c by (auto simp: openNextWrite_def Let_def NextIndex_def idx_def split: if_splits bool.splits)
    with books show ?thesis by auto
  qed
qed

lemma finish_write_books:
  assumes "write_books host cmd w0 new bytes (w, b)" "bwFile b \<noteq> None"
    and "0 \<le> bwActive b" "bwActive b < flNext (wLedger w)" "bwActive b \<notin> set (flIndices (wLedger w))"
    and "map_of (wDisk w) (FilePath (pcPrefix cmd) (pcTestName cmd) host (bwActive b)) = Some (bw_fileSize cmd)"
    and "bwOpStart b = Some begun"
  shows "write_books host cmd w0 (new @ [bwActive b]) bytes (finish_write t w b)"
proof -
  have "ledger_ok (AddBW (bwActive b) (wLedger w))"
    using assms(1,3,5) by (intro ok_intros) (auto simp: write_books_def)
  then show ?thesis
    using assms by (auto simp: write_books_def finish_write_def Let_def AddBW_def ObserveWrite_def Total_ObserveUs)
qed

lemma write_chunk_books:
  assumes books: "write_books host cmd w0 new bytes (w, b)" and o: "open_ok host cmd (w, b)" and f: "bwFile b \<noteq> None"
  shows "\<exists>new bytes. write_books host cmd w0 new bytes (state_of (write_chunk (bw_fileSize cmd) deadline t w b)) \<and>
    open_ok host cmd (state_of (write_chunk (bw_fileSize cmd) deadline t w b))"
proof -
  let ?fs = "bw_fileSize cmd"
  let ?path = "FilePath (pcPrefix cmd) (pcTestName cmd) host"
  have b: "bwWriting b" "bwFile b = Some (?path (bwActive b))" "0 \<le> bwActive b" "bwActive b < flNext (wLedger w)"
    "bwActive b \<notin> set (flIndices (wLedger w))" "map_of (wDisk w) (?path (bwActive b)) = Some (bwOff b)"
    "0 \<le> bwOff b" "bwOff b < ?fs" "4096 dvd bwOff b"
    using o f by (auto simp: open_ok_def)
  obtain t0 where t0: "bwOpStart b = Some t0" using o f by (auto simp: open_ok_def)
  define chunk where "chunk = chunk_size (?fs - bwOff b)"
  have "4096 dvd ?fs - bwOff b" using b(9) bw_fileSize_ok(2) by simp
  then have chunk: "0 < chunk" "chunk \<le> ?fs - bwOff b" "4096 dvd chunk"
    using chunk_size_ok [of "?fs - bwOff b"] b(8) by (simp_all add: chunk_def)
  define n where "n = written_now chunk (btN t) (btErr t = NoErr)"
  have n: "0 \<le> n" "n \<le> chunk" "btErr t = NoErr \<Longrightarrow> n = chunk"
    using written_now_range [of chunk "btN t" "btErr t = NoErr"] chunk(1) by (simp_all add: n_def written_now_def)
  define b2 where "b2 = b\<lparr>bwOff := bwOff b + n, bwTransferred := bwTransferred b + of_int n\<rparr>"
  define w1 where "w1 = (if n > 0 then count WriteBytes n w else w)"
  define w2 where "w2 = write_file (?path (bwActive b)) (bwOff b + n) w1"
  have turn: "write_chunk ?fs deadline t w b =
      (if btErr t \<noteq> NoErr then after_error deadline t (w2, closeFile b2)
       else if bwOff b2 \<ge> ?fs then Again (finish_write t w2 b2) else Again (w2, b2))"
  proof -
    have "b2 = (if n > 0 then b\<lparr>bwOff := bwOff b + n, bwTransferred := bwTransferred b + of_int n\<rparr> else b)"
      using n(1) by (cases "n = 0") (simp_all add: b2_def)
    moreover have "on_disk w1 (?path (bwActive b))" using b(6) by (simp add: on_disk_def w1_def)
    ultimately show ?thesis
      using b(2,8) chunk(1) n(1) unfolding write_chunk_def Let_def chunk_def [symmetric] n_def [symmetric] w1_def [symmetric]
      by (cases "n = 0") (simp_all add: w2_def b2_def)
  qed
  have other: "?path i \<noteq> ?path (bwActive b)" if "i \<in> set new" for i
  proof -
    have "i \<in> set (flIndices (wLedger w))" "ledger_ok (wLedger w)" using that books by (auto simp: write_books_def)
    then have "0 \<le> i" "i \<noteq> bwActive b" using b(5) by (auto simp: ledger_ok_def)
    then show ?thesis using FilePath_inj [of i "bwActive b"] b(3) by auto
  qed
  have books2: "write_books host cmd w0 new (bytes + n) (w2, b2)"
    using books other n(1) by (auto simp: write_books_def w2_def w1_def b2_def)
  have led: "wLedger w2 = wLedger w" "wLedger w1 = wLedger w" by (simp_all add: w2_def w1_def)
  show ?thesis
  proof (cases "btErr t = NoErr")
    case False
    with books2 show ?thesis by (intro exI [of _ new] exI [of _ "bytes + n"]) (simp add: turn)
  next
    case True
    note ok = this n(3) [OF this]
    show ?thesis
    proof (cases "?fs \<le> bwOff b2")
      case True
      with ok(2) chunk(2) have "bwOff b + n = ?fs" by (simp add: b2_def)
      then have "write_books host cmd w0 (new @ [bwActive b2]) (bytes + n) (finish_write t w2 b2)"
        using b t0 by (intro finish_write_books [where begun = t0] books2) (simp_all add: b2_def w2_def led(2))
      moreover have "open_ok host cmd (finish_write t w2 b2)" by (simp add: finish_write_def Let_def)
      moreover have "state_of (write_chunk ?fs deadline t w b) = finish_write t w2 b2" using ok True by (simp add: turn)
      ultimately show ?thesis by metis
    next
      case False
      have "open_ok host cmd (w2, b2)"
        using b t0 False ok(2) chunk n(1) unfolding open_ok_def by (simp add: b2_def w2_def led(2))
      with books2 show ?thesis
        using ok False by (intro exI [of _ new] exI [of _ "bytes + n"]) (simp add: turn)
    qed
  qed
qed

lemma bw_turn_books:
  assumes "\<exists>new bytes. write_books host cmd w0 new bytes s \<and> open_ok host cmd s"
  shows "\<exists>new bytes. write_books host cmd w0 new bytes (state_of (bw_turn host cmd True deadline start t s)) \<and>
    open_ok host cmd (state_of (bw_turn host cmd True deadline start t s))"
proof -
  obtain w b where s: "s = (w, b)" by (cases s)
  obtain new bytes where books: "write_books host cmd w0 new bytes (w, b)" and o: "open_ok host cmd (w, b)"
    using assms s by blast
  have after: "write_books host cmd w0 new bytes (w2, b2) \<and> open_ok host cmd (w2, b2) \<and> (ok \<longrightarrow> bwFile b2 \<noteq> None)"
    if "opened host cmd True t w b = (ok, w2, b2)" for ok w2 b2
    using that openNextWrite_books [OF books] books o by (auto simp: opened_def split: if_splits)
  show ?thesis unfolding s
  proof (rule bw_turn_cases [of host cmd True deadline start t w b], goal_cases)
    case 1
    with books o show ?case by auto
  next
    case (2 w2 b2)
    with after [OF 2(1)] show ?case by auto
  next
    case (3 w2 b2)
    note ok = after [OF 3(1)]
    then have "bwWriting b2" by (auto simp: open_ok_def)
    with 3(2) ok write_chunk_books [of host cmd w0 new bytes w2 b2] show ?case by simp
  qed
qed


definition demo_bw_tick :: "time \<Rightarrow> io_err \<Rightarrow> bw_tick" where [go_eval]:
  "demo_bw_tick now err =
    \<lparr>btNow = now, btDone = False, btClock = now, btCut = False, btUntil = now, btParent = True, btDirect = True,
     btLeft = False, btRemove = False, btBuffered = True, btOpen = now, btSince = now, btRefresh = now,
     btSeedWrites = [], btReadDirect = True, btReadBuffered = True, btN = 0, btErr = err, btEnd = now,
     btNow2 = now, btDone2 = False\<rparr>"


end
