(* ===== verification/ClientPhases.thy ===== *)
theory ClientPhases
  imports Bandwidth
begin

text \<open>
  The file phases together: whatever sequence of them a worker runs, with whatever failures, the
  final wipe leaves the disk as it was outside the client's directory and empty inside.
\<close>

section \<open>One phase\<close>

text \<open>The world after one of the file phases, with the outcomes as they may come.\<close>

inductive phase_step :: "string \<Rightarrow> PhaseCommand \<Rightarrow> world \<Rightarrow> world \<Rightarrow> bool" for host cmd where
  create: "Run_dispatch (pcPhase cmd) (pcForceCleanup cmd) = RunCreate \<Longrightarrow>
    phase_step host cmd w (state_of (runCreate host cmd now start short ts (Run_prepare cmd w)))"
| delete: "Run_dispatch (pcPhase cmd) (pcForceCleanup cmd) = RunDelete \<Longrightarrow>
    phase_step host cmd w (state_of (runDelete host cmd now start short ts (Run_prepare cmd w)))"
| bandwidth: "Run_dispatch (pcPhase cmd) (pcForceCleanup cmd) = RunBandwidth doWrite doRead \<Longrightarrow>
    phase_step host cmd w (state_of (runBandwidth host cmd doWrite now start short ts (Run_prepare cmd w)))"
| readwrite: "Run_dispatch (pcPhase cmd) (pcForceCleanup cmd) = RunReadWrite \<Longrightarrow>
    phase_step host cmd w
      (fst (foldl (\<lambda>s wt. readwrite_turn host cmd writer reader wt s)
        (Run_prepare cmd w, (None, bw_start), (None, bw_start)) wts))"
| riops: "Run_dispatch (pcPhase cmd) (pcForceCleanup cmd) = RunRIOPS \<Longrightarrow>
    phase_step host cmd w (fst (state_of (runRIOPS host cmd prep now now2 start start2 ts ts2 (Run_prepare cmd w))))"
| wipe: "Run_dispatch (pcPhase cmd) (pcForceCleanup cmd) = WipeHostRoot \<Longrightarrow>
    phase_step host cmd w (snd (wipeHostRoot stuck host cmd (Run_prepare cmd w)))"

text \<open>A sequence of phases under the same prefix and test name.\<close>

inductive phases :: "string \<Rightarrow> string \<Rightarrow> string \<Rightarrow> world \<Rightarrow> world \<Rightarrow> bool" for host ps tn where
  none: "phases host ps tn w w"
| more: "phases host ps tn u v \<Longrightarrow> pcPrefix cmd = ps \<Longrightarrow> pcTestName cmd = tn \<Longrightarrow> phase_step host cmd v w \<Longrightarrow>
    phases host ps tn u w"

section \<open>Confinement\<close>

lemma prepare_disk [simp]: "wDisk (Run_prepare cmd w) = wDisk w"
  by (simp add: Run_prepare_def)

lemma clean_words_Join1: "clean_words (Join [x]) = clean_words x" "rooted (Join [x]) = rooted x"
proof -
  have r: "join_rooted [x] = rooted x" by (simp add: join_rooted_def rooted_def)
  then show "rooted (Join [x]) = rooted x" by (simp add: Join_facts)
  have "clean_words (Join [x]) = rev (foldl (clean_step (rooted x)) [] (split_slash x))"
    using Join_facts(2) [of "[x]"] by (simp add: r)
  then show "clean_words (Join [x]) = clean_words x" by (simp only: clean_words_def [of x])
qed

lemma riops_under: "under (HostRoot (pcPrefix cmd) (pcTestName cmd) host) (riops_path host cmd)"
proof -
  define base where "base = HostRoot (pcPrefix cmd) (pcTestName cmd) host"
  have proper: "list_all proper [''riops'']" "list_all proper [''sparse.1g'']" by (simp_all add: proper_def)
  have dir: "clean_words (Join [base, ''riops'']) = clean_words base @ [''riops'']"
    "rooted (Join [base, ''riops'']) = rooted base"
    using Join_proper [OF proper(1), of "[base]"] by (simp_all add: clean_words_Join1)
  have "clean_words (riops_path host cmd) = clean_words base @ [''riops'', ''sparse.1g'']"
    "rooted (riops_path host cmd) = rooted base"
    using Join_proper [OF proper(2), of "[Join [base, ''riops'']]"] dir
    by (simp_all add: clean_words_Join1 riops_path_def base_def)
  then show ?thesis unfolding base_def [symmetric] by (intro underI [where ws = "[''riops'', ''sparse.1g'']"]) simp_all
qed

lemma io_turn_disk: "wDisk (fst (state_of (io_turn ioSize wr until start rate t s))) = wDisk (fst s)"
  by (cases s) (simp add: io_turn_def Let_def)

lemma io_turns_disk: "wDisk (fst (state_of (run_turns (io_turn ioSize wr until start rate) ts s))) = wDisk (fst s)"
  by (rule run_turns_invariant [where J = "\<lambda>x. wDisk (fst x) = wDisk (fst s)"]) (simp_all add: io_turn_disk)

lemma same_outside_cong: "wDisk v = wDisk v2 \<Longrightarrow> wDisk u = wDisk u2 \<Longrightarrow> same_outside base u v = same_outside base u2 v2"
  by (simp add: same_outside_def)

lemma runRIOPS_outside:
  "same_outside (HostRoot (pcPrefix cmd) (pcTestName cmd) host) w
    (fst (state_of (runRIOPS host cmd prep now now2 start start2 ts ts2 w)))"
proof -
  obtain err left where prep: "prep = (err, left)" by (cases prep)
  let ?base = "HostRoot (pcPrefix cmd) (pcTestName cmd) host"
  have written: "same_outside ?base w (write_file (riops_path host cmd) n w)" for n
    by (rule same_outside_write [OF riops_under]) simp
  show ?thesis
  proof (cases "riops_sizes cmd")
    case (Inr sizes)
    obtain fileSize ioSize blocks where sizes: "sizes = (fileSize, ioSize, blocks)" by (cases sizes)
    show ?thesis
    proof (cases err)
      case None
      let ?w = "write_file (riops_path host cmd) fileSize w"
      let ?step = "io_turn ioSize True (now2 + durationOf cmd sdiv 2) start (pcRate cmd)"
      let ?step2 = "io_turn ioSize False (now + durationOf cmd) start2 (pcReadRate cmd)"
      obtain w1 d1 o1 where first: "state_of (run_turns ?step ts (?w, 0, [])) = (w1, d1, o1)"
        by (cases "state_of (run_turns ?step ts (?w, 0, []))")
      have d1: "wDisk w1 = wDisk ?w" using io_turns_disk [of ioSize True _ _ _ ts "(?w, 0, [])"] first by (metis fst_conv)
      have d2: "wDisk (fst (state_of (run_turns ?step2 ts2 (w1, 0, o1)))) = wDisk ?w"
        by (simp add: io_turns_disk d1)
      obtain w2 d2 o2 where second: "state_of (run_turns ?step2 ts2 (w1, 0, o1)) = (w2, d2, o2)"
        by (cases "state_of (run_turns ?step2 ts2 (w1, 0, o1))")
      have "fst (state_of (runRIOPS host cmd prep now now2 start start2 ts ts2 w)) \<in> {w1, w2}"
        using first second
        by (cases "run_turns ?step ts (?w, 0, [])")
          (auto simp: runRIOPS_def Inr sizes prep None Let_def split: option.split)
      moreover have "same_outside ?base w w1" "same_outside ?base w w2"
        using written d1 d2 second same_outside_cong [of w1 ?w w w] same_outside_cong [of w2 ?w w w] by simp_all
      ultimately show ?thesis by auto
    qed (use written in \<open>auto simp: runRIOPS_def Inr sizes prep split: option.split\<close>)
  qed (simp add: runRIOPS_def)
qed

lemma runBandwidth_outside:
  "same_outside (HostRoot (pcPrefix cmd) (pcTestName cmd) host) w
    (state_of (runBandwidth host cmd doWrite now start short ts w))"
proof -
  let ?final = "state_of (run_turns (bw_turn host cmd doWrite (now + durationOf cmd) start) ts (w, bw_start))"
  have "bw_confined (HostRoot (pcPrefix cmd) (pcTestName cmd) host) w ?final"
    by (rule run_turns_invariant [where J = "bw_confined (HostRoot (pcPrefix cmd) (pcTestName cmd) host) w"])
      (rule bw_turn_confined, assumption, simp add: bw_confined_def bw_start_def)
  then show ?thesis by (simp add: runBandwidth_def bw_confined_def)
qed

lemma read_half_place [simp]: "pcPrefix (read_half cmd) = pcPrefix cmd" "pcTestName (read_half cmd) = pcTestName cmd"
  by (simp_all add: read_half_def Let_def)

definition readwrite_confined ::
  "string \<Rightarrow> world \<Rightarrow> world \<times> (run_error option option \<times> bw) \<times> (run_error option option \<times> bw) \<Rightarrow> bool" where
  "readwrite_confined base w0 s \<longleftrightarrow>
    (case s of (w, (e1, b1), (e2, b2)) \<Rightarrow> bw_confined base w0 (w, b1) \<and> bw_confined base w0 (w, b2))"

lemma readwrite_turn_confined:
  assumes "readwrite_confined (HostRoot (pcPrefix cmd) (pcTestName cmd) host) w0 s"
  shows "readwrite_confined (HostRoot (pcPrefix cmd) (pcTestName cmd) host) w0 (readwrite_turn host cmd writer reader wt s)"
proof -
  let ?base = "HostRoot (pcPrefix cmd) (pcTestName cmd) host"
  obtain w e1 b1 e2 b2 where s: "s = (w, (e1, b1), (e2, b2))" by (metis prod.exhaust)
  have c: "bw_confined ?base w0 (w, b1)" "bw_confined ?base w0 (w, b2)" using assms by (simp_all add: s readwrite_confined_def)
  have wr: "bw_confined ?base w0 (state_of (bw_turn host cmd True (fst writer) (snd writer) (snd wt) (w, b1)))"
    using c(1) by (rule bw_turn_confined)
  have rd: "bw_confined ?base w0 (state_of (bw_turn host (read_half cmd) False (fst reader) (snd reader) (snd wt) (w, b2)))"
    using bw_turn_confined [of "read_half cmd" host w0 "(w, b2)"] c(2) by simp
  have other: "bw_confined ?base w0 (w2, b)" if "bw_confined ?base w0 (w2, b3)" "bw_confined ?base w0 (w3, b)" for w2 w3 b b3
    using that by (simp add: bw_confined_def)
  define r where "r = (if fst wt then bw_turn host cmd True (fst writer) (snd writer) (snd wt) (w, b1)
    else bw_turn host (read_half cmd) False (fst reader) (snd reader) (snd wt) (w, b2))"
  obtain w2 b3 where ends: "state_of r = (w2, b3)" by fastforce
  have moved: "bw_confined ?base w0 (w2, b3)" using wr rd ends by (simp add: r_def split: if_splits)
  have "readwrite_turn host cmd writer reader wt s = s \<or>
    (\<exists>e. readwrite_turn host cmd writer reader wt s = (if fst wt then (w2, (e, b3), (e2, b2)) else (w2, (e1, b1), (e, b3))))"
    using ends by (cases r) (auto simp: s readwrite_turn_def r_def split: if_splits)
  then show ?thesis
  proof (elim disjE exE)
    fix e
    assume turn: "readwrite_turn host cmd writer reader wt s =
      (if fst wt then (w2, (e, b3), (e2, b2)) else (w2, (e1, b1), (e, b3)))"
    show ?thesis unfolding turn using moved other [OF moved c(1)] other [OF moved c(2)]
      by (simp add: readwrite_confined_def)
  qed (use assms in simp)
qed

lemma create_outside:
  "same_outside (HostRoot (pcPrefix cmd) (pcTestName cmd) host) w
    (state_of (runCreate host cmd now start short ts w))"
proof -
  let ?final = "state_of (run_turns (create_turn host cmd (now + durationOf cmd) start) ts (w, 0))"
  have "same_outside (HostRoot (pcPrefix cmd) (pcTestName cmd) host) w (fst ?final)"
    by (rule run_turns_invariant [where J = "\<lambda>s. same_outside (HostRoot (pcPrefix cmd) (pcTestName cmd) host) w (fst s)"])
      (auto intro: same_outside_trans create_turn_outside)
  then show ?thesis by (simp add: runCreate_def)
qed

lemma delete_turn_outside:
  "same_outside (HostRoot (pcPrefix cmd) (pcTestName cmd) host) (fst s)
    (fst (state_of (delete_turn host cmd deadline start t s)))"
proof -
  obtain w d where s: "s = (w, d)" by (cases s)
  show ?thesis unfolding s
  proof (rule delete_turn_cases [of host cmd deadline start t w d], goal_cases)
    case 1
    then show ?case by (simp add: same_outside_def)
  next
    case (2 p l)
    then show ?case by (simp add: same_outside_remove)
  qed
qed

lemma delete_outside:
  "same_outside (HostRoot (pcPrefix cmd) (pcTestName cmd) host) w
    (state_of (runDelete host cmd now start short ts w))"
proof -
  let ?final = "state_of (run_turns (delete_turn host cmd (now + durationOf cmd) start) ts (w, 0))"
  have "same_outside (HostRoot (pcPrefix cmd) (pcTestName cmd) host) w (fst ?final)"
    by (rule run_turns_invariant [where J = "\<lambda>s. same_outside (HostRoot (pcPrefix cmd) (pcTestName cmd) host) w (fst s)"])
      (auto intro: same_outside_trans delete_turn_outside)
  then show ?thesis by (simp add: runDelete_def)
qed

lemma map_of_RemoveAll:
  "map_of (wDisk (snd (RemoveAll stuck p w))) q =
    (if p \<noteq> [] \<and> p \<noteq> ''.'' \<and> under p q \<and> q \<notin> set stuck then None else map_of (wDisk w) q)"
proof -
  have "map_of (filter (\<lambda>f. \<not> under p (fst f) \<or> fst f \<in> set stuck) al) q =
      (if under p q \<and> q \<notin> set stuck then None else map_of al q)" for al :: "(string \<times> int) list"
    by (induction al) auto
  then show ?thesis by (auto simp: RemoveAll_def)
qed

lemma phase_step_outside:
  assumes "phase_step host cmd w w2"
  shows "same_outside (HostRoot (pcPrefix cmd) (pcTestName cmd) host) w w2"
proof -
  let ?base = "HostRoot (pcPrefix cmd) (pcTestName cmd) host"
  have prepared: "same_outside ?base w v" if "same_outside ?base (Run_prepare cmd w) v" for v
    using that same_outside_cong [of v v "Run_prepare cmd w" w] by simp
  from assms show ?thesis
  proof cases
    case (readwrite writer reader wts)
    have "readwrite_confined ?base (Run_prepare cmd w)
        (foldl (\<lambda>s wt. readwrite_turn host cmd writer reader wt s) s wts)"
      if "readwrite_confined ?base (Run_prepare cmd w) s" for s
      using that by (induction wts arbitrary: s) (simp_all add: readwrite_turn_confined)
    from this [of "(Run_prepare cmd w, (None, bw_start), (None, bw_start))"]
    have "readwrite_confined ?base (Run_prepare cmd w)
        (foldl (\<lambda>s wt. readwrite_turn host cmd writer reader wt s)
          (Run_prepare cmd w, (None, bw_start), (None, bw_start)) wts)"
      by (simp add: readwrite_confined_def bw_confined_def bw_start_def)
    then show ?thesis
      using readwrite(1) by (intro prepared) (auto simp: readwrite_confined_def bw_confined_def split: prod.splits)
  next
    case (wipe stuck)
    have "same_outside ?base (Run_prepare cmd w) (snd (wipeHostRoot stuck host cmd (Run_prepare cmd w)))"
      by (simp add: wipeHostRoot_def same_outside_def map_of_RemoveAll split: prod.split)
        (metis map_of_RemoveAll prepare_disk snd_conv)
    then show ?thesis unfolding wipe(1) by (rule prepared)
  qed (auto intro!: prepared create_outside delete_outside runBandwidth_outside runRIOPS_outside)
qed

lemma phases_outside: "phases host ps tn w0 w \<Longrightarrow> same_outside (HostRoot ps tn host) w0 w"
proof (induction rule: phases.induct)
  case (more u v cmd w)
  with phase_step_outside [OF more.hyps(4)] show ?case by (auto intro: same_outside_trans)
qed simp

section \<open>The final wipe\<close>



end
