(* ===== verification/Unpack.thy ===== *)
theory Unpack
  imports Paths
begin

text \<open>
  Extracting an archive (\<^verbatim>\<open>internal/software/unpack.go\<close>): the lexical check of the entry names,
  and what the system calls then do on a file system with symbolic links. Decompression and the
  parsing of the archive are done by the standard library; their results are the list of headers.
\<close>

section \<open>Where an entry goes\<close>

datatype entry_target = Skipped | Escapes | Target string

definition entry_path :: "string \<Rightarrow> string \<Rightarrow> entry_target" where [go_eval]:
  "entry_path dest hdrName =
    (let name = Clean hdrName
     in if name = ''.'' \<or> name = ''..'' \<or> take 3 name = ''../'' then Skipped
        else
          let target = Join [dest, name]
          in case Rel (Clean dest) target of
               None \<Rightarrow> Escapes
             | Some rel \<Rightarrow> if take 2 rel = ''..'' then Escapes else Target target)"

text \<open>An entry name that passes the first test has no dot-dot left.\<close>

lemma kept_name_proper:
  assumes "Clean n \<noteq> ''..''" "take 3 (Clean n) \<noteq> ''../''"
  shows "list_all proper (clean_words n)"
proof -
  obtain ps k where ps: "rev (clean_words n) = ps @ replicate k ''..''" "list_all proper ps" "rooted n \<longrightarrow> k = 0"
    using clean_words_stack [of n] unfolding clean_stack_def by blast
  have words: "clean_words n = replicate k ''..'' @ rev ps" using arg_cong [OF ps(1), of rev] by simp
  have "k = 0"
  proof (rule ccontr)
    assume "k \<noteq> 0"
    then obtain j where k: "k = Suc j" by (cases k) auto
    with ps(3) have r: "\<not> rooted n" by simp
    define ws where "ws = replicate j ''..'' @ rev ps"
    have "Clean n = join_slash (''..'' # ws)" using r by (simp add: Clean_def render_def words k ws_def)
    then show False using assms by (cases ws) auto
  qed
  with words ps(2) show ?thesis by (simp add: list_all_iff)
qed

lemma entry_path_kept:
  assumes "entry_path dest name = Target t" "dest \<noteq> []"
  shows "under dest t" "list_all proper (clean_words name)" "clean_words t = clean_words dest @ clean_words name"
    "t = render (rooted dest) (clean_words dest @ clean_words name)"
proof -
  have kept: "Clean name \<noteq> ''..''" "take 3 (Clean name) \<noteq> ''../''" and t: "t = Join [dest, Clean name]"
    using assms(1) by (simp_all add: entry_path_def Let_def split: if_splits option.splits)
  have proper: "list_all proper (clean_words name)" using kept by (rule kept_name_proper)
  have r: "join_rooted [dest, Clean name] = rooted dest"
    using assms(2) by (simp add: join_rooted_def)
  have "split_slash (Clean name) = (if rooted name then [] # (if clean_words name = [] then [[]] else clean_words name)
       else if clean_words name = [] then [''.''] else clean_words name)"
    unfolding Clean_def by (rule render_words(3)) (rule clean_words_stack)
  then have push: "foldl (clean_step b) st (split_slash (Clean name)) = rev (clean_words name) @ st" for b st
    using proper by (simp add: clean_fold_proper clean_step_def [of _ _ "[]"] clean_step_def [of _ _ "''.''"])
  have words: "clean_words t = clean_words dest @ clean_words name"
    unfolding t Join_facts r by (simp add: push) (simp add: clean_words_def)
  moreover have rt: "rooted t = rooted dest" unfolding t Join_facts(1) by (rule r)
  moreover have "''..'' \<notin> set (clean_words name)" using proper by (auto simp: list_all_iff proper_def)
  ultimately show "under dest t" using underI [of t dest "clean_words name"] by simp
  show "list_all proper (clean_words name)" "clean_words t = clean_words dest @ clean_words name"
    by (rule proper, rule words)
  have "Clean t = t" unfolding t by (rule Clean_Join) (use assms(2) in simp)
  then show "t = render (rooted dest) (clean_words dest @ clean_words name)"
    unfolding Clean_def words rt by simp
qed

text \<open>
  A name that is accepted lies below the destination, whatever the archive says: as long as the
  path is not led elsewhere by a symbolic link, no entry is written outside.
\<close>

theorem entry_path_stays_inside:
  assumes "entry_path dest name = Target t" "dest \<noteq> []"
  shows "under dest t \<and> clean_words t = clean_words dest @ clean_words name \<and> ''..'' \<notin> set (clean_words name)"
  using entry_path_kept [OF assms] by (auto simp: list_all_iff proper_def)

lemma entry_path_stays_inside_witness:
  "under ''/p/t/software'' ''/p/t/software/etc/passwd'' \<and>
   entry_path ''/p/t/software'' ''x/../../etc'' = Skipped \<and>
   entry_path ''/p/t/software'' ''/../etc/passwd'' = Target ''/p/t/software/etc/passwd''"
proof -
  have "entry_path ''/p/t/software'' ''/../etc/passwd'' = Target ''/p/t/software/etc/passwd''" by code_simp
  moreover from entry_path_stays_inside [OF this] have "under ''/p/t/software'' ''/p/t/software/etc/passwd''" by simp
  moreover have "entry_path ''/p/t/software'' ''x/../../etc'' = Skipped" by code_simp
  ultimately show ?thesis by blast
qed

text \<open>A harmless name that begins with two dots is taken for an escape, and the whole extraction
  fails.\<close>

lemma dotted_name_rejected: "entry_path ''/p/t/software'' ''..data/f'' = Escapes"
  by code_simp

section \<open>A file system with symbolic links\<close>

datatype fsnode = FDir | FFile | FLink string

text \<open>Nodes by the words of their absolute path; the root directory is always there.\<close>

type_synonym fsys = "(string list \<times> fsnode) list"

definition node_at :: "fsys \<Rightarrow> string list \<Rightarrow> fsnode option" where [go_eval]:
  "node_at fs p = (if p = [] then Some FDir else map_of fs p)"

text \<open>Path resolution from a directory, at most \<open>k\<close> links on the way. The last word need not exist;
  a link there is followed when asked to.\<close>

function walk :: "bool \<Rightarrow> fsys \<Rightarrow> nat \<Rightarrow> string list \<Rightarrow> string list \<Rightarrow> string list option" where
  "walk follow fs k cur [] = Some cur"
| "walk follow fs k cur (w # ws) =
    (if w = [] \<or> w = ''.'' then walk follow fs k cur ws
     else if w = ''..'' then walk follow fs k (butlast cur) ws
     else
       let p = cur @ [w]
       in case node_at fs p of
            None \<Rightarrow> if ws = [] then Some p else None
          | Some FFile \<Rightarrow> if ws = [] then Some p else None
          | Some FDir \<Rightarrow> walk follow fs k p ws
          | Some (FLink l) \<Rightarrow>
              if ws = [] \<and> \<not> follow then Some p
              else (case k of
                      0 \<Rightarrow> None
                    | Suc j \<Rightarrow> walk follow fs j (if rooted l then [] else cur) (split_slash l @ ws)))"
  by pat_completeness auto
termination
  by (relation "inv_image (less_than <*lex*> less_than) (\<lambda>(follow, fs, k, cur, ws). (k, length ws))") auto

definition linkLimit :: nat where [go_eval]: "linkLimit = 40"

definition resolve :: "bool \<Rightarrow> fsys \<Rightarrow> string list \<Rightarrow> string \<Rightarrow> string list option" where [go_eval]:
  "resolve follow fs cwd p = walk follow fs linkLimit (if rooted p then [] else cwd) (split_slash p)"

text \<open>\<open>os.MkdirAll\<close>, \<open>os.OpenFile\<close> with create and truncate, \<open>os.Remove\<close> and \<open>os.Symlink\<close>; \<open>None\<close> is
  an error. Errors other than those of the tree itself are not modelled here.\<close>

fun mkdirs :: "fsys \<Rightarrow> string list \<Rightarrow> string list \<Rightarrow> bool \<times> fsys" where
  "mkdirs fs cur [] = (True, fs)"
| "mkdirs fs cur (w # ws) =
    (if w = [] \<or> w = ''.'' then mkdirs fs cur ws
     else if w = ''..'' then mkdirs fs (butlast cur) ws
     else
       let p = cur @ [w]
       in case node_at fs p of
            None \<Rightarrow> mkdirs ((p, FDir) # fs) p ws
          | Some FDir \<Rightarrow> mkdirs fs p ws
          | Some FFile \<Rightarrow> (False, fs)
          | Some (FLink l) \<Rightarrow>
              (case walk True fs linkLimit cur [w] of
                 None \<Rightarrow> (False, fs)
               | Some q \<Rightarrow> if node_at fs q = Some FDir then mkdirs fs q ws else (False, fs)))"

definition MkdirAll :: "string list \<Rightarrow> string \<Rightarrow> fsys \<Rightarrow> bool \<times> fsys" where [go_eval]:
  "MkdirAll cwd p fs = mkdirs fs (if rooted p then [] else cwd) (split_slash p)"

definition open_trunc :: "string list \<Rightarrow> string \<Rightarrow> fsys \<Rightarrow> fsys option" where [go_eval]:
  "open_trunc cwd p fs =
    (case resolve True fs cwd p of
       None \<Rightarrow> None
     | Some q \<Rightarrow> if node_at fs q = Some FDir then None else Some (AList.update q FFile fs))"

definition remove_node :: "string list \<Rightarrow> string \<Rightarrow> fsys \<Rightarrow> fsys" where [go_eval]:
  "remove_node cwd p fs =
    (case resolve False fs cwd p of
       None \<Rightarrow> fs
     | Some q \<Rightarrow>
         if node_at fs q = Some FDir \<and> list_ex (\<lambda>n. fst n \<noteq> q \<and> take (length q) (fst n) = q) fs then fs
         else filter (\<lambda>n. fst n \<noteq> q) fs)"

definition make_symlink :: "string list \<Rightarrow> string \<Rightarrow> string \<Rightarrow> fsys \<Rightarrow> fsys option" where [go_eval]:
  "make_symlink cwd l p fs =
    (case resolve False fs cwd p of
       None \<Rightarrow> None
     | Some q \<Rightarrow> if node_at fs q \<noteq> None then None else Some ((q, FLink l) # fs))"

section \<open>Extraction\<close>

datatype typeflag = TypeDir | TypeReg | TypeRegA | TypeSymlink | TypeOther char

record tarHeader =
  thName :: string
  thType :: typeflag
  thLinkname :: string

datatype extract_error = ErrEscapes string | ErrFS | ErrCtxDone | ErrGzip | ErrTar | ErrOpen

text \<open>\<open>copyOk\<close> is the outcome of copying the contents.\<close>

definition extractTarEntry :: "string list \<Rightarrow> string \<Rightarrow> tarHeader \<Rightarrow> bool \<Rightarrow> fsys \<Rightarrow> extract_error option \<times> fsys"
where [go_eval]:
  "extractTarEntry cwd dest hdr copyOk fs =
    (case entry_path dest (thName hdr) of
       Skipped \<Rightarrow> (None, fs)
     | Escapes \<Rightarrow> (Some (ErrEscapes (thName hdr)), fs)
     | Target target \<Rightarrow>
         (case thType hdr of
            TypeDir \<Rightarrow> (case MkdirAll cwd target fs of (ok, fs) \<Rightarrow> (if ok then None else Some ErrFS, fs))
          | TypeSymlink \<Rightarrow>
              (case MkdirAll cwd (Dir target) fs of
                 (False, fs) \<Rightarrow> (Some ErrFS, fs)
               | (True, fs) \<Rightarrow>
                   let fs = remove_node cwd target fs
                   in case make_symlink cwd (thLinkname hdr) target fs of
                        None \<Rightarrow> (Some ErrFS, fs)
                      | Some fs \<Rightarrow> (None, fs))
          | TypeOther c \<Rightarrow> (None, fs)
          | _ \<Rightarrow>
              (case MkdirAll cwd (Dir target) fs of
                 (False, fs) \<Rightarrow> (Some ErrFS, fs)
               | (True, fs) \<Rightarrow>
                   (case open_trunc cwd target fs of
                      None \<Rightarrow> (Some ErrFS, fs)
                    | Some fs \<Rightarrow> (if copyOk then None else Some ErrFS, fs)))))"

text \<open>What \<open>tr.Next\<close> gives: an entry with the outcome of its copy, a damaged archive, and before each
  whether the context is done. The end of the list is the end of the archive.\<close>

datatype tar_event = CtxDone | Damaged | Entry tarHeader bool

fun extract_entries :: "string list \<Rightarrow> string \<Rightarrow> tar_event list \<Rightarrow> fsys \<Rightarrow> extract_error option \<times> fsys" where
  "extract_entries cwd dest [] fs = (None, fs)"
| "extract_entries cwd dest (CtxDone # es) fs = (Some ErrCtxDone, fs)"
| "extract_entries cwd dest (Damaged # es) fs = (Some ErrTar, fs)"
| "extract_entries cwd dest (Entry hdr copyOk # es) fs =
    (case extractTarEntry cwd dest hdr copyOk fs of
       (None, fs) \<Rightarrow> extract_entries cwd dest es fs
     | (Some e, fs) \<Rightarrow> (Some e, fs))"

definition ExtractTarGz ::
  "string list \<Rightarrow> bool \<Rightarrow> bool \<Rightarrow> string \<Rightarrow> tar_event list \<Rightarrow> fsys \<Rightarrow> extract_error option \<times> fsys"
where [go_eval]:
  "ExtractTarGz cwd openOk gzipOk dest es fs =
    (if \<not> openOk then (Some ErrOpen, fs) else if \<not> gzipOk then (Some ErrGzip, fs)
     else extract_entries cwd dest es fs)"

text \<open>
  A symbolic link in the archive defeats the check of the names: an entry that links to a
  directory outside, followed by an entry below the link, writes outside the destination, and the
  extraction reports success.
\<close>

theorem symlink_entry_escapes:
  "case ExtractTarGz [] True True ''/p/t/software''
      [Entry \<lparr>thName = ''a'', thType = TypeSymlink, thLinkname = ''/home''\<rparr> True,
       Entry \<lparr>thName = ''a/f'', thType = TypeReg, thLinkname = []\<rparr> True]
      [([''home''], FDir), ([''p''], FDir), ([''p'', ''t''], FDir), ([''p'', ''t'', ''software''], FDir)] of
    (e, fs) \<Rightarrow> e = None \<and> node_at fs [''home'', ''f''] = Some FFile"
  by code_simp

section \<open>Without links the destination is not left\<close>

definition link_free :: "fsys \<Rightarrow> bool" where [go_eval]:
  "link_free fs \<longleftrightarrow> list_all (\<lambda>n. case snd n of FLink l \<Rightarrow> False | _ \<Rightarrow> True) fs"

text \<open>The destination and all directories above it exist.\<close>

definition dirs_exist :: "fsys \<Rightarrow> string list \<Rightarrow> bool" where [go_eval]:
  "dirs_exist fs d \<longleftrightarrow> list_all (\<lambda>i. node_at fs (take i d) = Some FDir) [0..<length d + 1]"

definition same_above :: "string list \<Rightarrow> fsys \<Rightarrow> fsys \<Rightarrow> bool" where
  "same_above d fs fs2 \<longleftrightarrow> (\<forall>q. take (length d) q \<noteq> d \<or> q = d \<longrightarrow> node_at fs2 q = node_at fs q)"

lemma link_free_node: "link_free fs \<Longrightarrow> node_at fs p \<noteq> Some (FLink l)"
  unfolding node_at_def link_free_def list_all_iff by (auto dest!: map_of_SomeD split: fsnode.splits)

lemma link_free_add: "link_free fs \<Longrightarrow> link_free ((p, FDir) # fs)"
  by (simp add: link_free_def)

lemma link_free_file: "link_free fs \<Longrightarrow> link_free (AList.update p FFile fs)"
  unfolding link_free_def by (induction fs) auto

lemma node_at_add: "q \<noteq> [] \<Longrightarrow> node_at ((q, x) # fs) p = (if p = q then Some x else node_at fs p)"
  by (simp add: node_at_def)

lemma node_at_file: "q \<noteq> [] \<Longrightarrow> node_at (AList.update q x fs) p = (if p = q then Some x else node_at fs p)"
  by (simp add: node_at_def update_conv)

lemma proper_wordD: "proper w \<Longrightarrow> w \<noteq> [] \<and> w \<noteq> ''.'' \<and> w \<noteq> ''..''"
  by (simp add: proper_def)

lemma walk_link_free:
  assumes "link_free fs" "list_all proper ws" "walk follow fs k cur ws = Some q"
  shows "q = cur @ ws"
  using assms(2,3)
proof (induction ws arbitrary: cur)
  case (Cons w ws)
  have w: "\<not> (w = [] \<or> w = ''.'')" "w \<noteq> ''..''" using Cons.prems(1) by (auto dest: proper_wordD)
  have ws: "list_all proper ws" using Cons.prems(1) by simp
  show ?case
  proof (cases "node_at fs (cur @ [w])")
    case None
    with Cons.prems(2) w show ?thesis by (simp add: Let_def split: if_splits)
  next
    case (Some x)
    with assms(1) have x: "x = FDir \<or> x = FFile" by (cases x) (auto dest: link_free_node)
    show ?thesis
    proof (cases "x = FDir")
      case True
      with Some w Cons.prems(2) have "walk follow fs k (cur @ [w]) ws = Some q" by (simp add: Let_def)
      from Cons.IH [OF ws this] show ?thesis by simp
    next
      case False
      with x Some w Cons.prems(2) show ?thesis by (simp add: Let_def split: if_splits)
    qed
  qed
qed simp

text \<open>Two paths one of which leads to the other.\<close>

definition comparable :: "'a list \<Rightarrow> 'a list \<Rightarrow> bool" where
  "comparable xs d \<longleftrightarrow> take (min (length xs) (length d)) xs = take (min (length xs) (length d)) d"

lemma comparable_prefix: "comparable (xs @ ys) d \<Longrightarrow> comparable xs d"
proof -
  assume c: "comparable (xs @ ys) d"
  let ?n = "min (length xs) (length d)" and ?m = "min (length (xs @ ys)) (length d)"
  have "?n \<le> ?m" by simp
  have "take ?n xs = take ?n (take ?m (xs @ ys))" by (simp add: min_def)
  also have "\<dots> = take ?n (take ?m d)" using c by (simp only: comparable_def)
  also have "\<dots> = take ?n d" using \<open>?n \<le> ?m\<close> by (simp only: take_take min_absorb1)
  finally show ?thesis by (simp only: comparable_def)
qed

lemma comparable_cases: "comparable xs d \<Longrightarrow> xs = take (length xs) d \<and> length xs \<le> length d \<or> take (length d) xs = d"
  unfolding comparable_def by (cases "length xs \<le> length d") simp_all

text \<open>Making the directories down to a path below or above the destination.\<close>

lemma mkdirs_below:
  assumes "link_free fs" "list_all proper ws" "dirs_exist fs d" "comparable (cur @ ws) d"
    and "mkdirs fs cur ws = (ok, fs2)"
  shows "link_free fs2 \<and> same_above d fs fs2"
  using assms
proof (induction ws arbitrary: fs cur)
  case Nil
  then show ?case by (simp add: same_above_def)
next
  case (Cons w ws)
  have w: "\<not> (w = [] \<or> w = ''.'')" "w \<noteq> ''..''" using Cons.prems(2) by (auto dest: proper_wordD)
  have ws: "list_all proper ws" "comparable ((cur @ [w]) @ ws) d" using Cons.prems(2,4) by simp_all
  note pos = comparable_cases [OF comparable_prefix [OF ws(2)]]
  have exists: "node_at fs (take i d) = Some FDir" if "i \<le> length d" for i
    using Cons.prems(3) that by (cases "i = length d") (simp_all add: dirs_exist_def list_all_iff)
  show ?case
  proof (cases "node_at fs (cur @ [w])")
    case None
    let ?fs = "(cur @ [w], FDir) # fs"
    have "\<not> (cur @ [w] = take (length (cur @ [w])) d \<and> length (cur @ [w]) \<le> length d)"
      using exists [of "length (cur @ [w])"] None by auto
    then have below: "take (length d) (cur @ [w]) = d" "cur @ [w] \<noteq> d"
      using pos None exists [of "length d"] by auto
    have other: "node_at ?fs q = node_at fs q" if "take (length d) q \<noteq> d \<or> q = d" for q
      using that below by (auto simp: node_at_def)
    have "dirs_exist ?fs d"
      unfolding dirs_exist_def list_all_iff
    proof
      fix i
      assume "i \<in> set [0..<length d + 1]"
      then have "take (length d) (take i d) \<noteq> d \<or> take i d = d" "i \<le> length d"
        by auto
      then show "node_at ?fs (take i d) = Some FDir" using other exists by simp
    qed
    moreover have "mkdirs ?fs (cur @ [w]) ws = (ok, fs2)" using Cons.prems(5) None w by (simp add: Let_def)
    ultimately have "link_free fs2 \<and> same_above d ?fs fs2"
      using Cons.IH [OF link_free_add [OF Cons.prems(1)] ws(1) _ ws(2)] by blast
    with other show ?thesis by (simp add: same_above_def)
  next
    case (Some x)
    with Cons.prems(1) consider "x = FDir" | "x = FFile" by (cases x) (auto dest: link_free_node)
    then show ?thesis
    proof cases
      case 1
      with Some w Cons.prems(5) have "mkdirs fs (cur @ [w]) ws = (ok, fs2)" by (simp add: Let_def)
      then show ?thesis using Cons.IH [OF Cons.prems(1) ws(1) Cons.prems(3) ws(2)] by blast
    next
      case 2
      with Some w Cons.prems(1,5) show ?thesis by (auto simp: Let_def same_above_def)
    qed
  qed
qed

lemma same_above_dirs: "same_above d fs fs2 \<Longrightarrow> dirs_exist fs d \<Longrightarrow> dirs_exist fs2 d"
proof -
  assume same: "same_above d fs fs2" and dirs: "dirs_exist fs d"
  have "node_at fs2 (take i d) = node_at fs (take i d)" if "i \<le> length d" for i
  proof -
    have "take (length d) (take i d) \<noteq> d \<or> take i d = d" using that by auto
    with same show ?thesis by (simp add: same_above_def)
  qed
  from dirs this this [of "length d"] show ?thesis by (simp add: dirs_exist_def list_all_iff)
qed

lemma same_above_trans: "same_above d u v \<Longrightarrow> same_above d v w \<Longrightarrow> same_above d u w"
  by (simp add: same_above_def)

lemma mkdirs_skip: "mkdirs fs cur ([] # ws) = mkdirs fs cur ws" "walk follow fs k cur ([] # ws) = walk follow fs k cur ws"
  by simp_all

lemma stack_of_proper: "list_all proper ws \<Longrightarrow> clean_stack r (rev ws)"
  unfolding clean_stack_def by (intro exI [of _ "rev ws"] exI [of _ 0]) (simp add: list_all_iff)

lemma MkdirAll_below:
  assumes "link_free fs" "dirs_exist fs d" "list_all proper ws" "comparable ws d"
    and "MkdirAll cwd (render True ws) fs = (ok, fs2)"
  shows "link_free fs2 \<and> same_above d fs fs2"
proof (cases "ws = []")
  case True
  then have "fs2 = fs" using assms(5) by (simp add: MkdirAll_def render_def rooted_def)
  with assms(1) show ?thesis by (simp add: same_above_def)
next
  case False
  have "mkdirs fs [] ws = (ok, fs2)"
    using assms(5) False render_words [OF stack_of_proper [OF assms(3)]] by (simp add: MkdirAll_def)
  from mkdirs_below [OF assms(1) assms(3) assms(2) _ this] assms(4) show ?thesis by simp
qed

lemma open_trunc_below:
  assumes "link_free fs" "dirs_exist fs d" "list_all proper (d @ ws)"
    and "open_trunc cwd (render True (d @ ws)) fs = Some fs2"
  shows "link_free fs2 \<and> same_above d fs fs2"
proof -
  note stack = stack_of_proper [OF assms(3)]
  obtain q where q: "resolve True fs cwd (render True (d @ ws)) = Some q" "node_at fs q \<noteq> Some FDir"
    "fs2 = AList.update q FFile fs"
    using assms(4) by (auto simp: open_trunc_def split: option.splits if_splits)
  have "q = d @ ws"
  proof (cases "d @ ws = []")
    case True
    then have "resolve True fs cwd (render True (d @ ws)) = Some []"
      by (simp add: resolve_def render_def rooted_def)
    with q(1) True show ?thesis by simp
  next
    case False
    then have "walk True fs linkLimit [] (d @ ws) = Some q"
      using q(1) unfolding resolve_def render_words [OF stack] by (simp add: False del: append_is_Nil_conv)
    from walk_link_free [OF assms(1,3) this] show ?thesis by simp
  qed
  moreover have "node_at fs d = Some FDir" using assms(2) by (simp add: dirs_exist_def)
  ultimately have "q \<noteq> d" "take (length d) q = d" using q(2) by (cases ws; simp)+
  moreover from q(2) have "q \<noteq> []" by (auto simp: node_at_def)
  ultimately show ?thesis
    using assms(1) by (auto simp: q(3) link_free_file same_above_def node_at_file)
qed

lemma Dir_render:
  assumes "list_all proper (ws @ [w])"
  shows "Dir (render True (ws @ [w])) = render True ws"
proof -
  define p where "p = render True (ws @ [w])"
  have split: "split_slash p = [] # ws @ [w]" using render_words(3) [OF stack_of_proper [OF assms]] by (simp add: p_def)
  have "\<exists>x. join_slash (ws @ [w]) = x @ w \<and> (ws = [] \<longrightarrow> x = []) \<and> (ws \<noteq> [] \<longrightarrow> (\<exists>y. x = y @ ''/''))"
    by (induction ws rule: join_slash.induct) auto
  then obtain x where x: "p = x @ CHR ''/'' # w"
    unfolding p_def render_def by (cases "ws = []") (auto intro: that [of "[]"])
  have w: "CHR ''/'' \<notin> set w" using assms by (simp add: proper_def)
  have "split_slash x @ [w] = ([] # ws) @ [w]" using split by (simp add: x split_slash_word [OF w])
  then have sx: "split_slash x = [] # ws" by (simp only: append_same_eq)
  have "take (length p - length (last (split_slash p))) p = x @ [CHR ''/'']" by (simp add: split) (simp add: x)
  moreover have "split_slash (x @ [CHR ''/'']) = [] # ws @ [[]]" using split_slash_append [of x "[]"] sx by simp
  moreover have "rooted (x @ [CHR ''/''])"
  proof (cases x)
    case (Cons c cs)
    with sx have "c = CHR ''/''" by (auto split: if_splits list.splits)
    with Cons show ?thesis by (simp add: rooted_def)
  qed (simp add: rooted_def)
  ultimately have "Dir p = render True (clean_words (x @ [CHR ''/'']))" by (simp add: Dir_def Clean_def)
  moreover have "clean_words (x @ [CHR ''/'']) = ws"
    using assms \<open>split_slash (x @ [CHR ''/'']) = [] # ws @ [[]]\<close>
    by (simp add: clean_words_def clean_fold_proper clean_step_def [of _ _ "[]"])
  ultimately show ?thesis by (simp only: p_def)
qed

lemma Dir_proper:
  assumes "list_all proper ws"
  shows "Dir (render True ws) = render True (butlast ws)"
proof (cases ws rule: rev_cases)
  case Nil
  have "Dir ''/'' = ''/''" by code_simp
  then show ?thesis by (simp add: Nil render_def)
qed (use assms Dir_render in simp)

lemma comparable_below: "comparable (d @ ws) d" "comparable (butlast (d @ ws)) d"
proof -
  show c: "comparable (d @ ws) d" by (simp add: comparable_def)
  show "comparable (butlast (d @ ws)) d"
    using c comparable_prefix [of "butlast (d @ ws)" "[last (d @ ws)]" d] by (cases "d @ ws = []") simp_all
qed

text \<open>A regular file: its directory is made, then the file is opened for writing.\<close>

lemma extract_file_below:
  assumes "link_free fs" "dirs_exist fs d" "list_all proper (d @ ws)"
    and type: "thType hdr = TypeReg \<or> thType hdr = TypeRegA"
    and path: "entry_path dest (thName hdr) = Target (render True (d @ ws))"
    and run: "extractTarEntry cwd dest hdr ok fs = (err, fs2)"
  shows "link_free fs2 \<and> same_above d fs fs2"
proof -
  let ?t = "render True (d @ ws)"
  have proper: "list_all proper (butlast (d @ ws))" using assms(3) by (meson in_set_butlastD list_all_iff)
  obtain made fs3 where mk: "MkdirAll cwd (render True (butlast (d @ ws))) fs = (made, fs3)" by fastforce
  have fs3: "link_free fs3 \<and> same_above d fs fs3"
    by (rule MkdirAll_below [OF assms(1,2) proper comparable_below(2) mk])
  note unfold = extractTarEntry_def path Dir_proper [OF assms(3)]
  show ?thesis
  proof (cases "open_trunc cwd ?t fs3")
    case None
    have "fs2 = fs3" using run type mk None by (cases "thType hdr") (auto simp: unfold split: bool.splits)
    with fs3 show ?thesis by simp
  next
    case (Some fs4)
    have "fs2 = fs3 \<or> fs2 = fs4" using run type mk Some by (cases "thType hdr") (auto simp: unfold split: bool.splits)
    moreover have "link_free fs4 \<and> same_above d fs3 fs4"
      using open_trunc_below [OF _ _ assms(3) Some] fs3 same_above_dirs [of d fs fs3] assms(2) by simp
    ultimately show ?thesis using fs3 same_above_trans by blast
  qed
qed

lemma extract_entry_below:
  assumes "link_free fs" "rooted dest" "list_all proper (clean_words dest)" "dirs_exist fs (clean_words dest)"
    and "thType hdr \<noteq> TypeSymlink"
    and run: "extractTarEntry cwd dest hdr ok fs = (err, fs2)"
  shows "link_free fs2 \<and> same_above (clean_words dest) fs fs2"
proof (cases "entry_path dest (thName hdr)")
  case (Target t)
  let ?d = "clean_words dest" and ?ws = "clean_words (thName hdr)"
  have "dest \<noteq> []" using assms(2) by (auto simp: rooted_def)
  note inside = entry_path_kept [OF Target this]
  have proper: "list_all proper (?d @ ?ws)" using assms(3) inside(2) by simp
  have path: "entry_path dest (thName hdr) = Target (render True (?d @ ?ws))"
    using inside(4) assms(2) Target by simp
  consider "thType hdr = TypeReg \<or> thType hdr = TypeRegA" | "thType hdr = TypeDir" | c where "thType hdr = TypeOther c"
    using assms(5) by (cases "thType hdr") auto
  then show ?thesis
  proof cases
    case 1
    show ?thesis by (rule extract_file_below [OF assms(1,4) proper 1 path run])
  next
    case 2
    obtain made fs3 where mk: "MkdirAll cwd (render True (?d @ ?ws)) fs = (made, fs3)" by fastforce
    have "fs2 = fs3" using run 2 mk by (simp add: extractTarEntry_def path)
    with MkdirAll_below [OF assms(1,4) proper comparable_below(1) mk] show ?thesis by simp
  next
    case 3
    then have "fs2 = fs" using run by (simp add: extractTarEntry_def path)
    with assms(1) show ?thesis by (simp add: same_above_def)
  qed
qed (use run assms(1) in \<open>simp_all add: extractTarEntry_def same_above_def\<close>)

lemma extract_entries_below:
  assumes "extract_entries cwd dest es fs = (err, fs2)" "link_free fs" "rooted dest"
    "list_all proper (clean_words dest)" "dirs_exist fs (clean_words dest)"
    "list_all (\<lambda>e. case e of Entry hdr ok \<Rightarrow> thType hdr \<noteq> TypeSymlink | _ \<Rightarrow> True) es"
  shows "same_above (clean_words dest) fs fs2"
  using assms
proof (induction es arbitrary: fs)
  case (Cons e es)
  show ?case
  proof (cases e)
    case (Entry hdr ok)
    obtain err1 fs1 where one: "extractTarEntry cwd dest hdr ok fs = (err1, fs1)" by fastforce
    have ok1: "link_free fs1 \<and> same_above (clean_words dest) fs fs1"
      using extract_entry_below [OF Cons.prems(2-5) _ one] Cons.prems(6) by (simp add: Entry)
    show ?thesis
    proof (cases err1)
      case None
      then have "extract_entries cwd dest es fs1 = (err, fs2)" using Cons.prems(1) one by (simp add: Entry)
      then have "same_above (clean_words dest) fs1 fs2"
        using Cons.IH ok1 same_above_dirs [of "clean_words dest" fs fs1] Cons.prems(3-6) by simp
      with ok1 same_above_trans show ?thesis by blast
    next
      case (Some x)
      then have "fs2 = fs1" using Cons.prems(1) one by (simp add: Entry)
      with ok1 show ?thesis by simp
    qed
  qed (use Cons.prems in \<open>simp_all add: same_above_def\<close>)
qed (simp add: same_above_def)



end
