(* ===== verification/Software.thy ===== *)
theory Software
  imports Unpack
begin

text \<open>
  The shared artifacts of the software phases (\<^verbatim>\<open>internal/software/shared.go\<close>, the rest of
  \<^verbatim>\<open>internal/software/unpack.go\<close>): their names and places, and the installation into every
  prefix. Downloading, git and copying only succeed or fail.
\<close>

section \<open>The path of a URL\<close>

text \<open>
  \<open>Parse\<close> of Go's \<open>net/url\<close>, as far as the path is concerned; \<open>None\<close> is an error. Whether the
  authority part is well formed is the parameter \<open>authority_ok\<close>.
\<close>

definition hex_digit :: "char \<Rightarrow> nat option" where [go_eval]:
  "hex_digit c =
    (let n = of_char c :: nat
     in if 48 \<le> n \<and> n \<le> 57 then Some (n - 48)
        else if 97 \<le> n \<and> n \<le> 102 then Some (n - 87)
        else if 65 \<le> n \<and> n \<le> 70 then Some (n - 55) else None)"

fun url_unescape :: "string \<Rightarrow> string option" where
  "url_unescape [] = Some []"
| "url_unescape (c # cs) =
    (if c = CHR ''%'' then
       (case cs of
          a # b # rest \<Rightarrow>
            (case (hex_digit a, hex_digit b) of
               (Some x, Some y) \<Rightarrow> map_option ((#) (char_of (16 * x + y))) (url_unescape rest)
             | _ \<Rightarrow> None)
        | _ \<Rightarrow> None)
     else map_option ((#) c) (url_unescape cs))"

definition before_char :: "char \<Rightarrow> string \<Rightarrow> string" where [go_eval]:
  "before_char c s = takeWhile (\<lambda>d. d \<noteq> c) s"

definition after_char :: "char \<Rightarrow> string \<Rightarrow> string" where [go_eval]:
  "after_char c s = drop 1 (dropWhile (\<lambda>d. d \<noteq> c) s)"

definition has_prefix :: "string \<Rightarrow> string \<Rightarrow> bool" where [go_eval]:
  "has_prefix ps s \<longleftrightarrow> take (length ps) s = ps"

definition has_suffix :: "string \<Rightarrow> string \<Rightarrow> bool" where [go_eval]:
  "has_suffix ss s \<longleftrightarrow> length ss \<le> length s \<and> drop (length s - length ss) s = ss"

definition letter :: "char \<Rightarrow> bool" where [go_eval]:
  "letter c \<longleftrightarrow> (let n = of_char c :: nat in 65 \<le> n \<and> n \<le> 90 \<or> 97 \<le> n \<and> n \<le> 122)"

definition scheme_char :: "char \<Rightarrow> bool" where [go_eval]:
  "scheme_char c \<longleftrightarrow> (let n = of_char c :: nat in 48 \<le> n \<and> n \<le> 57) \<or> c \<in> set ''+-.''"

text \<open>\<open>getScheme\<close>: the scheme and the rest; a colon at the very start is an error.\<close>

fun scan_scheme :: "string \<Rightarrow> string \<Rightarrow> string \<Rightarrow> (string \<times> string) option" where
  "scan_scheme raw seen [] = Some ([], raw)"
| "scan_scheme raw seen (c # cs) =
    (if letter c then scan_scheme raw (seen @ [c]) cs
     else if scheme_char c then (if seen = [] then Some ([], raw) else scan_scheme raw (seen @ [c]) cs)
     else if c = CHR '':'' then (if seen = [] then None else Some (seen, cs))
     else Some ([], raw))"

definition url_parse :: "(string \<Rightarrow> bool) \<Rightarrow> string \<Rightarrow> string option" where [go_eval]:
  "url_parse authority_ok raw =
    (if list_ex (\<lambda>c. (of_char c :: nat) < 32 \<or> (of_char c :: nat) = 127) raw then None
     else if raw = ''*'' then Some ''*''
     else case scan_scheme raw [] raw of
            None \<Rightarrow> None
          | Some (scheme, rest) \<Rightarrow>
              let rest = before_char (CHR ''?'') rest
              in if \<not> has_prefix ''/'' rest \<and> scheme \<noteq> [] then Some []
                 else if \<not> has_prefix ''/'' rest \<and> CHR '':'' \<in> set (before_char (CHR ''/'') rest) then None
                 else if (scheme \<noteq> [] \<or> \<not> has_prefix ''///'' rest) \<and> has_prefix ''//'' rest then
                   let authority = before_char (CHR ''/'') (drop 2 rest);
                       path = dropWhile (\<lambda>c. c \<noteq> CHR ''/'') (drop 2 rest)
                   in if authority_ok authority then url_unescape path else None
                 else url_unescape rest)"

definition url_path :: "(string \<Rightarrow> bool) \<Rightarrow> string \<Rightarrow> string option" where [go_eval]:
  "url_path authority_ok raw =
    (case url_parse authority_ok (before_char (CHR ''#'') raw) of
       None \<Rightarrow> None
     | Some path \<Rightarrow> if url_unescape (after_char (CHR ''#'') raw) = None then None else Some path)"

section \<open>Names and places\<close>

definition GitBundleFileName :: string where [go_eval]: "GitBundleFileName = ''repo.bundle''"

definition GitBundlePath :: "string \<Rightarrow> string \<Rightarrow> string" where [go_eval]:
  "GitBundlePath ps testName = Join [software_Dir ps testName, GitBundleFileName]"

definition ArchiveSuffix :: "string \<Rightarrow> string" where [go_eval]:
  "ArchiveSuffix rawURL =
    (let u = ToLower rawURL
     in if has_suffix ''.tar.gz'' u \<or> has_suffix ''.tgz'' u then ''.tar.gz''
        else if has_suffix ''.tar.bz2'' u \<or> has_suffix ''.tbz2'' u then ''.tar.bz2''
        else if has_suffix ''.tar.xz'' u \<or> has_suffix ''.txz'' u then ''.tar.xz''
        else if has_suffix ''.tar'' u then ''.tar''
        else ''.tar.gz'')"

definition UntarArchiveName :: "(string \<Rightarrow> bool) \<Rightarrow> string \<Rightarrow> string" where [go_eval]:
  "UntarArchiveName authority_ok rawURL =
    (let u = TrimSpace rawURL;
         u = (case url_path authority_ok u of None \<Rightarrow> u | Some path \<Rightarrow> if path \<noteq> [] then path else u);
         base = Base u
     in if base = [] \<or> base = ''.'' \<or> base = ''/'' then ''archive'' @ ArchiveSuffix rawURL else base)"

definition UntarArchivePath :: "(string \<Rightarrow> bool) \<Rightarrow> string \<Rightarrow> string \<Rightarrow> string \<Rightarrow> string" where [go_eval]:
  "UntarArchivePath authority_ok ps testName rawURL =
    Join [software_Dir ps testName, UntarArchiveName authority_ok rawURL]"

lemma Base_no_slash: "CHR ''/'' \<notin> set (Base p) \<or> Base p = ''/''"
proof -
  have "CHR ''/'' \<notin> set (last (split_slash q))" for q
    using split_slash_words [of "last (split_slash q)" q] by (metis last_in_set split_slash_not_Nil)
  then show ?thesis by (auto simp: Base_def Let_def)
qed

lemma ArchiveSuffix_no_slash: "CHR ''/'' \<notin> set (ArchiveSuffix u)"
  by (simp add: ArchiveSuffix_def Let_def)

text \<open>
  The shared archive gets a file name of its own directly in the software directory, whatever
  the URL, unless the last element of its path is dot-dot; then the name leads out of the directory.
\<close>

theorem UntarArchivePath_in_software_dir:
  "CHR ''/'' \<notin> set (UntarArchiveName ok url) \<and> UntarArchiveName ok url \<noteq> [] \<and>
   (if UntarArchiveName ok url = ''..''
    then clean_words (UntarArchivePath ok ps tn url) = clean_words (Join [ps, tn])
    else clean_words (UntarArchivePath ok ps tn url) =
      clean_words (Join [ps, tn]) @ [''software'', UntarArchiveName ok url])"
proof -
  let ?name = "UntarArchiveName ok url"
  define u where "u = (case url_path ok (TrimSpace url) of None \<Rightarrow> TrimSpace url
    | Some path \<Rightarrow> if path \<noteq> [] then path else TrimSpace url)"
  have name: "?name = (if Base u = [] \<or> Base u = ''.'' \<or> Base u = ''/'' then ''archive'' @ ArchiveSuffix url else Base u)"
    by (simp add: UntarArchiveName_def u_def Let_def)
  have slash: "CHR ''/'' \<notin> set ?name" and ne: "?name \<noteq> []" "?name \<noteq> ''.''"
    using Base_no_slash [of u] ArchiveSuffix_no_slash [of url] by (auto simp: name)
  have sw: "list_all proper [''software'']" by (simp add: proper_def)
  have dir: "clean_words (software_Dir ps tn) = clean_words (Join [ps, tn]) @ [''software'']"
    using Join_proper(1) [OF sw, of "[ps, tn]"] by (simp add: software_Dir_def)
  have words: "clean_words (UntarArchivePath ok ps tn url) =
      rev (clean_step (join_rooted [software_Dir ps tn, ?name])
        (foldl (clean_step (join_rooted [software_Dir ps tn, ?name])) [] (split_slash (software_Dir ps tn))) ?name)"
    unfolding UntarArchivePath_def Join_facts(2) by (simp add: split_slash_word [OF slash])
  have "software_Dir ps tn \<noteq> []"
  proof
    assume "software_Dir ps tn = []"
    then have "clean_words (software_Dir ps tn) = []" by (simp add: clean_words_def clean_step_def)
    with dir show False by simp
  qed
  then have r: "join_rooted [software_Dir ps tn, ?name] = rooted (software_Dir ps tn)"
    by (simp add: join_rooted_def)
  have fold: "foldl (clean_step (rooted (software_Dir ps tn))) [] (split_slash (software_Dir ps tn)) =
      ''software'' # rev (clean_words (Join [ps, tn]))"
    using arg_cong [OF dir, of rev] by (simp add: clean_words_def [of "software_Dir ps tn"])
  note words = words [unfolded r fold]
  show ?thesis
  proof (cases "?name = ''..''")
    case True
    have "clean_words (UntarArchivePath ok ps tn url) = clean_words (Join [ps, tn])"
      unfolding words True by (simp add: clean_step_def)
    then show ?thesis using slash ne(1) True by simp
  next
    case False
    then have "proper ?name" using slash ne by (simp add: proper_def)
    then show ?thesis using slash ne(1) words False by (simp add: clean_step_proper)
  qed
qed

section \<open>Installing into every prefix\<close>

datatype install_error =
    ErrEmptyURL | ErrNoPrefixes | ErrTemp | ErrDownload | ErrGitClone | ErrGitBundle
  | ErrClear string | ErrMkdir string | ErrInstall string

text \<open>How the calls for one prefix end.\<close>

datatype install_result = Installed | ClearFails | MkdirFails | InstallFails

text \<open>The loop over the prefixes: blank ones are skipped, the first failure ends it. The result has the
  places installed so far; \<open>res i\<close> is the outcome for the prefix at position \<open>i\<close>.\<close>

fun install_loop ::
  "(string \<Rightarrow> string) \<Rightarrow> (string \<Rightarrow> string) \<Rightarrow> (nat \<Rightarrow> install_result) \<Rightarrow> nat \<Rightarrow> string list \<Rightarrow>
   install_error option \<times> string list"
where
  "install_loop dir dest res i [] = (None, [])"
| "install_loop dir dest res i (p # ps) =
    (let p = TrimSpace p
     in if p = [] then install_loop dir dest res (i + 1) ps
        else case res i of
               ClearFails \<Rightarrow> (Some (ErrClear (dir p)), [])
             | MkdirFails \<Rightarrow> (Some (ErrMkdir (dir p)), [])
             | InstallFails \<Rightarrow> (Some (ErrInstall (dest p)), [])
             | Installed \<Rightarrow>
                 (case install_loop dir dest res (i + 1) ps of (e, placed) \<Rightarrow> (e, dest p # placed)))"

definition UnpackToPrefixes ::
  "bool \<Rightarrow> bool \<Rightarrow> (nat \<Rightarrow> install_result) \<Rightarrow> string \<Rightarrow> string list \<Rightarrow> string \<Rightarrow> install_error option \<times> string list"
where [go_eval]:
  "UnpackToPrefixes tempOk downloadOk res packageURL pss testName =
    (if TrimSpace packageURL = [] then (Some ErrEmptyURL, [])
     else if pss = [] then (Some ErrNoPrefixes, [])
     else if \<not> tempOk then (Some ErrTemp, [])
     else if \<not> downloadOk then (Some ErrDownload, [])
     else install_loop (\<lambda>p. software_Dir p testName) (\<lambda>p. software_Dir p testName) res 0 pss)"

definition BundleToPrefixes ::
  "bool \<Rightarrow> bool \<Rightarrow> bool \<Rightarrow> (nat \<Rightarrow> install_result) \<Rightarrow> string \<Rightarrow> string list \<Rightarrow> string \<Rightarrow>
   install_error option \<times> string list"
where [go_eval]:
  "BundleToPrefixes tempOk cloneOk bundleOk res gitURL pss testName =
    (if TrimSpace gitURL = [] then (Some ErrEmptyURL, [])
     else if pss = [] then (Some ErrNoPrefixes, [])
     else if \<not> tempOk then (Some ErrTemp, [])
     else if \<not> cloneOk then (Some ErrGitClone, [])
     else if \<not> bundleOk then (Some ErrGitBundle, [])
     else install_loop (\<lambda>p. software_Dir p testName) (\<lambda>p. GitBundlePath p testName) res 0 pss)"

definition DownloadUntarToPrefixes ::
  "(string \<Rightarrow> bool) \<Rightarrow> bool \<Rightarrow> bool \<Rightarrow> (nat \<Rightarrow> install_result) \<Rightarrow> string \<Rightarrow> string list \<Rightarrow> string \<Rightarrow>
   install_error option \<times> string list"
where [go_eval]:
  "DownloadUntarToPrefixes authority_ok tempOk downloadOk res archiveURL pss testName =
    (let archiveURL = TrimSpace archiveURL
     in if archiveURL = [] then (Some ErrEmptyURL, [])
        else if pss = [] then (Some ErrNoPrefixes, [])
        else if \<not> tempOk then (Some ErrTemp, [])
        else if \<not> downloadOk then (Some ErrDownload, [])
        else install_loop (\<lambda>p. software_Dir p testName) (\<lambda>p. UntarArchivePath authority_ok p testName archiveURL) res 0 pss)"

text \<open>The prefixes that are tried, with their positions.\<close>

definition tried :: "nat \<Rightarrow> string list \<Rightarrow> (nat \<times> string) list" where
  "tried i ps = filter (\<lambda>ip. snd ip \<noteq> []) (zip [i..<i + length ps] (map TrimSpace ps))"

lemma tried_Cons:
  "tried i (p # ps) = (if TrimSpace p = [] then tried (i + 1) ps else (i, TrimSpace p) # tried (i + 1) ps)"
proof -
  have "[i..<i + length (p # ps)] = i # [i + 1..<(i + 1) + length ps]" by (simp add: upt_rec)
  then show ?thesis by (simp add: tried_def del: upt_Suc)
qed

lemma install_loop_eq:
  "install_loop dir dest res i ps =
    (let good = takeWhile (\<lambda>ip. res (fst ip) = Installed) (tried i ps);
         rest = dropWhile (\<lambda>ip. res (fst ip) = Installed) (tried i ps)
     in (case rest of [] \<Rightarrow> None
         | (k, p) # _ \<Rightarrow>
             (case res k of ClearFails \<Rightarrow> Some (ErrClear (dir p)) | MkdirFails \<Rightarrow> Some (ErrMkdir (dir p))
              | _ \<Rightarrow> Some (ErrInstall (dest p))),
         map (\<lambda>ip. dest (snd ip)) good))"
proof (induction ps arbitrary: i)
  case (Cons p ps)
  show ?case
  proof (cases "TrimSpace p = []")
    case True
    then show ?thesis by (simp add: tried_Cons Cons.IH)
  next
    case False
    then show ?thesis
      by (cases "res i") (simp_all add: tried_Cons Cons.IH [of "Suc i"] Let_def)
  qed
qed (simp add: tried_def)

text \<open>
  An artifact reaches every prefix or the run hears of it: installing succeeds exactly when no
  prefix that is not blank fails, and has then installed into each of them, in order; otherwise the
  error names the first prefix that failed and everything before it is installed.
\<close>

theorem UnpackToPrefixes_all_or_first_error:
  assumes "TrimSpace url \<noteq> []" "pss \<noteq> []"
  shows "(fst (UnpackToPrefixes True True res url pss tn) = None) =
      list_all (\<lambda>ip. res (fst ip) = Installed) (tried 0 pss) \<and>
    snd (UnpackToPrefixes True True res url pss tn) =
      map (\<lambda>ip. software_Dir (snd ip) tn) (takeWhile (\<lambda>ip. res (fst ip) = Installed) (tried 0 pss)) \<and>
    (fst (UnpackToPrefixes True True res url pss tn) = None \<longrightarrow>
      snd (UnpackToPrefixes True True res url pss tn) =
        map (\<lambda>p. software_Dir p tn) (filter (\<lambda>p. p \<noteq> []) (map TrimSpace pss)))"
proof -
  let ?t = "tried 0 pss"
  have run: "UnpackToPrefixes True True res url pss tn =
      install_loop (\<lambda>p. software_Dir p tn) (\<lambda>p. software_Dir p tn) res 0 pss"
    using assms by (simp add: UnpackToPrefixes_def)
  have all: "(dropWhile (\<lambda>ip. res (fst ip) = Installed) ?t = []) = list_all (\<lambda>ip. res (fst ip) = Installed) ?t"
    by (simp add: list_all_iff)
  have ok: "(fst (UnpackToPrefixes True True res url pss tn) = None) = list_all (\<lambda>ip. res (fst ip) = Installed) ?t"
  proof -
    have "((case rest of [] \<Rightarrow> None
        | (k, p) # _ \<Rightarrow> (case res k of ClearFails \<Rightarrow> Some (ErrClear (software_Dir p tn))
            | MkdirFails \<Rightarrow> Some (ErrMkdir (software_Dir p tn)) | _ \<Rightarrow> Some (ErrInstall (software_Dir p tn)))) = None) =
        (rest = [])" for rest
      by (cases rest) (auto split: install_result.split)
    then show ?thesis unfolding run install_loop_eq Let_def all [symmetric] fst_conv .
  qed
  have snd: "snd (UnpackToPrefixes True True res url pss tn) =
      map (\<lambda>ip. software_Dir (snd ip) tn) (takeWhile (\<lambda>ip. res (fst ip) = Installed) ?t)"
    by (simp add: run install_loop_eq)
  have snds: "map snd (tried i ps) = filter (\<lambda>p. p \<noteq> []) (map TrimSpace ps)" for i ps
    by (induction ps arbitrary: i) (simp_all add: tried_Cons, simp add: tried_def)
  have "map (\<lambda>ip. software_Dir (snd ip) tn) ?t = map (\<lambda>p. software_Dir p tn) (map snd ?t)"
    by (simp add: comp_def)
  then have "map (\<lambda>ip. software_Dir (snd ip) tn) ?t =
      map (\<lambda>p. software_Dir p tn) (filter (\<lambda>p. p \<noteq> []) (map TrimSpace pss))"
    by (simp only: snds)
  moreover have "takeWhile (\<lambda>ip. res (fst ip) = Installed) ?t = ?t" if "list_all (\<lambda>ip. res (fst ip) = Installed) ?t"
    using that by (simp add: takeWhile_eq_all_conv list_all_iff)
  ultimately show ?thesis unfolding ok snd by (metis (no_types, lifting))
qed

lemma UnpackToPrefixes_all_or_first_error_witness:
  "snd (UnpackToPrefixes True True (\<lambda>i. if i = 2 then MkdirFails else Installed) ''u'' [''a'', '' '', ''b'', ''c''] ''t'') = [''a/t/software'']"
proof -
  have "TrimSpace ''u'' \<noteq> []" by code_simp
  from UnpackToPrefixes_all_or_first_error [OF this, of "[''a'', '' '', ''b'', ''c'']"
      "\<lambda>i. if i = 2 then MkdirFails else Installed" "''t''"]
  have "snd (UnpackToPrefixes True True (\<lambda>i. if i = 2 then MkdirFails else Installed) ''u'' [''a'', '' '', ''b'', ''c''] ''t'') =
      map (\<lambda>ip. software_Dir (snd ip) ''t'')
        (takeWhile (\<lambda>ip. (if fst ip = 2 then MkdirFails else Installed) = Installed) (tried 0 [''a'', '' '', ''b'', ''c'']))"
    by simp
  also have "\<dots> = [''a/t/software'']" by code_simp
  finally show ?thesis .
qed

end
