(* ===== verification/ClientSoftware.thy ===== *)
theory ClientSoftware
  imports Worker Software
begin

text \<open>
  The software phases of the worker (\<^verbatim>\<open>internal/client/software.go\<close>): starting the shared
  package, cloning the shared bundle, unpacking the shared archive. The shell is outside: a command
  ends with an error or not, after some time, and leaves some disk.
\<close>

section \<open>Quoting for the shell\<close>

text \<open>\<open>strings.ReplaceAll\<close> of the single quote.\<close>

definition shellQuote :: "string \<Rightarrow> string" where [go_eval]:
  "shellQuote s =
    [CHR 0x27] @ concat (map (\<lambda>c. if c = CHR 0x27 then [CHR 0x27, CHR 0x22, CHR 0x27, CHR 0x22, CHR 0x27] else [c]) s) @
    [CHR 0x27]"

text \<open>
  How a shell reads one word: bare characters, single quotes (everything is literal), double quotes
  (literal but for dollar, backquote and backslash, which are not read here). \<open>None\<close>: the word is not
  complete, ends before the input does, or has one of these or another special character.
\<close>

datatype quoting = Bare | Single | Double

definition shell_special :: "char \<Rightarrow> bool" where [go_eval]:
  "shell_special c \<longleftrightarrow> (of_char c :: nat) \<le> 32 \<or> c \<in> set ''$`|&;<>()*?[]#~=%!{}'' \<or> c = CHR 0x5C"

fun shell_word :: "quoting \<Rightarrow> string \<Rightarrow> string option" where
  "shell_word Bare [] = Some []"
| "shell_word Single [] = None"
| "shell_word Double [] = None"
| "shell_word Bare (c # cs) =
    (if c = CHR 0x27 then shell_word Single cs else if c = CHR 0x22 then shell_word Double cs
     else if shell_special c then None else map_option ((#) c) (shell_word Bare cs))"
| "shell_word Single (c # cs) =
    (if c = CHR 0x27 then shell_word Bare cs else map_option ((#) c) (shell_word Single cs))"
| "shell_word Double (c # cs) =
    (if c = CHR 0x22 then shell_word Bare cs
     else if c \<in> set ''$`'' \<or> c = CHR 0x5C then None else map_option ((#) c) (shell_word Double cs))"

text \<open>
  C40. The shell reads a quoted path back as it is, whatever characters it holds: nothing in a bundle
  or archive name can end the quotes or be expanded.
\<close>

theorem shellQuote_roundtrip: "shell_word Bare (shellQuote s) = Some s"
proof -
  have "shell_word Single (concat (map (\<lambda>c. if c = CHR 0x27
      then [CHR 0x27, CHR 0x22, CHR 0x27, CHR 0x22, CHR 0x27] else [c]) s) @ [CHR 0x27]) = Some s"
    by (induction s) simp_all
  then show ?thesis by (simp add: shellQuote_def)
qed

section \<open>Running\<close>

text \<open>What the environment answers: the artifact is there (a directory for the package, a file for the
  others), the working directory could be cleared and made, how the command ended, how long it took,
  the disk it left, the number of regular files it made, and what could not be removed.\<close>

record sw_env =
  seArtifact :: bool
  seClear :: bool
  seMkdir :: bool
  seRunOk :: bool
  seElapsed :: duration
  seDisk :: "(string \<times> int) list"
  seFiles :: int
  seStuck :: "string list"

definition startup_failure :: "bool \<Rightarrow> Stats \<Rightarrow> Stats" where [go_eval]:
  "startup_failure cold s = (if cold then ObserveStartupColdFailure s else ObserveStartupWarmFailure s)"

definition startup_timeout :: "PhaseCommand \<Rightarrow> bool \<Rightarrow> duration" where [go_eval]:
  "startup_timeout cmd cold =
    (let timeout = secs_to_duration (pcDuration cmd)
     in if timeout \<le> 0 then (if cold then SoftwareStartupColdTimeout else SoftwareStartupWarmTimeout)
        else timeout)"

definition runSoftwareStartup :: "PhaseCommand \<Rightarrow> bool \<Rightarrow> sw_env \<Rightarrow> world \<Rightarrow> run_error option \<times> world"
where [go_eval]:
  "runSoftwareStartup cmd cold env w =
    (let dir = software_Dir (pcPrefix cmd) (pcTestName cmd)
     in if \<not> seArtifact env then (Some (ErrMissing dir), w\<lparr>wStats := startup_failure cold (wStats w)\<rparr>)
        else
          let startup = TrimSpace (pcStartupCommand cmd)
          in if startup = [] then (Some ErrNoCommand, w\<lparr>wStats := startup_failure cold (wStats w)\<rparr>)
             else
               let w = w\<lparr>wDisk := seDisk env\<rparr>
               in if \<not> seRunOk env then
                    (Some (ErrCommand (seElapsed env)), w\<lparr>wStats := startup_failure cold (wStats w)\<rparr>)
                  else
                    (None, w\<lparr>wStats := (if cold then ObserveStartupCold (seElapsed env) (wStats w)
                                        else ObserveStartupWarm (seElapsed env) (wStats w))\<rparr>))"

text \<open>\<open>prepareHostWorkDir\<close>: the directory, or the error.\<close>

definition prepareHostWorkDir :: "string \<Rightarrow> PhaseCommand \<Rightarrow> string \<Rightarrow> sw_env \<Rightarrow> world \<Rightarrow> (run_error + string) \<times> world"
where [go_eval]:
  "prepareHostWorkDir host cmd sub env w =
    (let dir = Join [HostRoot (pcPrefix cmd) (pcTestName cmd) host, sub];
         (err, w) = RemoveAll (seStuck env) dir w
     in if \<not> seClear env \<or> err \<noteq> None then (Inl ErrIO, w)
        else if \<not> seMkdir env then (Inl ErrIO, w)
        else (Inr dir, w))"

definition clone_command :: "string \<Rightarrow> string" where [go_eval]:
  "clone_command bundle = ''git clone '' @ shellQuote bundle @ '' repo''"

definition tar_command :: "string \<Rightarrow> string" where [go_eval]:
  "tar_command archive = ''tar xvf '' @ shellQuote archive"

definition runGitClone :: "string \<Rightarrow> PhaseCommand \<Rightarrow> sw_env \<Rightarrow> world \<Rightarrow> run_error option \<times> world"
where [go_eval]:
  "runGitClone host cmd env w =
    (let bundle = GitBundlePath (pcPrefix cmd) (pcTestName cmd)
     in if \<not> seArtifact env then (Some (ErrMissing bundle), w\<lparr>wStats := ObserveGitCloneFailure (wStats w)\<rparr>)
        else
          case prepareHostWorkDir host cmd ''git'' env w of
            (Inl e, w) \<Rightarrow> (Some e, w\<lparr>wStats := ObserveGitCloneFailure (wStats w)\<rparr>)
          | (Inr dir, w) \<Rightarrow>
              let w = w\<lparr>wDisk := seDisk env\<rparr>;
                  files = (if seRunOk env then seFiles env else 0);
                  w = snd (RemoveAll (seStuck env) dir w)
              in if \<not> seRunOk env then
                   (Some (ErrCommand (seElapsed env)), w\<lparr>wStats := ObserveGitCloneFailure (wStats w)\<rparr>)
                 else
                   let w = count GitFiles files w
                   in (None, w\<lparr>wStats := ObserveGitClone (seElapsed env) (wStats w)\<rparr>))"

definition runUntar :: "(string \<Rightarrow> bool) \<Rightarrow> string \<Rightarrow> PhaseCommand \<Rightarrow> sw_env \<Rightarrow> world \<Rightarrow> run_error option \<times> world"
where [go_eval]:
  "runUntar authority_ok host cmd env w =
    (let url = TrimSpace (pcUntarURL cmd)
     in if url = [] then (Some ErrNoCommand, w\<lparr>wStats := ObserveUntarFailure (wStats w)\<rparr>)
        else
          let archive = UntarArchivePath authority_ok (pcPrefix cmd) (pcTestName cmd) url
          in if \<not> seArtifact env then (Some (ErrMissing archive), w\<lparr>wStats := ObserveUntarFailure (wStats w)\<rparr>)
             else
               case prepareHostWorkDir host cmd ''untar'' env w of
                 (Inl e, w) \<Rightarrow> (Some e, w\<lparr>wStats := ObserveUntarFailure (wStats w)\<rparr>)
               | (Inr dir, w) \<Rightarrow>
                   let w = w\<lparr>wDisk := seDisk env\<rparr>;
                       files = (if seRunOk env then seFiles env else 0);
                       w = snd (RemoveAll (seStuck env) dir w)
                   in if \<not> seRunOk env then
                        (Some (ErrCommand (seElapsed env)), w\<lparr>wStats := ObserveUntarFailure (wStats w)\<rparr>)
                      else
                        let w = count UntarFiles files w
                        in (None, w\<lparr>wStats := ObserveUntar (seElapsed env) (wStats w)\<rparr>))"

text \<open>The message \<open>runShellCommand\<close> adds to an error: the output, cut to 512 bytes and an ellipsis.\<close>

definition shell_error_text :: "string \<Rightarrow> string" where [go_eval]:
  "shell_error_text out =
    (let msg = TrimSpace out
     in if length msg > 512 then take 512 msg @ [CHR 0xE2, CHR 0x80, CHR 0xA6] else msg)"

section \<open>Every attempt is accounted for\<close>

definition attempts :: "LatencyHistogram \<Rightarrow> uint64" where
  "attempts h = Total h + Failures h"

lemma Failures_ObserveUs: "Failures (ObserveUs h us) = Failures h"
  by (simp add: ObserveUs_def ensureCounts_def Let_def)

lemma attempts_observe [simp]:
  "attempts (ObserveUs h us) = attempts h + 1" "attempts (ObserveFailure h) = attempts h + 1"
  by (simp_all add: attempts_def Total_ObserveUs Failures_ObserveUs) (simp add: ObserveFailure_def)

lemma Total_Failure [simp]: "Total (ObserveFailure h) = Total h"
  by (simp add: ObserveFailure_def)

lemmas observe_defs =
  ObserveStartupCold_def ObserveStartupColdFailure_def ObserveStartupWarm_def ObserveStartupWarmFailure_def
  ObserveGitClone_def ObserveGitCloneFailure_def ObserveUntar_def ObserveUntarFailure_def startup_failure_def

lemma RemoveAll_stats [simp]: "wStats (snd (RemoveAll stuck p w)) = wStats w"
  by (simp add: RemoveAll_def)

lemma prepare_stats: "prepareHostWorkDir host cmd sub env w = (r, w2) \<Longrightarrow> wStats w2 = wStats w"
  by (auto simp: prepareHostWorkDir_def Let_def split: prod.splits if_splits)
    (metis RemoveAll_stats snd_conv)+

text \<open>
  Every attempt of a software phase is counted exactly once, on every path through it: as one
  latency sample when it succeeded, as one failure when it returns an error, and files are counted
  for successful attempts only.
\<close>

theorem software_attempts_accounted:
  assumes "runGitClone host cmd env w = (r, w2)" "runUntar ok host cmd env w = (r3, w3)"
    and "runSoftwareStartup cmd True env w = (r4, w4)"
  shows "attempts (GitClone (scLatencies (wStats w2))) = attempts (GitClone (scLatencies (wStats w))) + 1 \<and>
    Total (GitClone (scLatencies (wStats w2))) = Total (GitClone (scLatencies (wStats w))) + (if r = None then 1 else 0) \<and>
    scGitFiles (wStats w2) = scGitFiles (wStats w) + (if r = None then of_int (seFiles env) else 0) \<and>
    attempts (Untar (scLatencies (wStats w3))) = attempts (Untar (scLatencies (wStats w))) + 1 \<and>
    Total (Untar (scLatencies (wStats w3))) = Total (Untar (scLatencies (wStats w))) + (if r3 = None then 1 else 0) \<and>
    scUntarFiles (wStats w3) = scUntarFiles (wStats w) + (if r3 = None then of_int (seFiles env) else 0) \<and>
    attempts (StartupCold (scLatencies (wStats w4))) = attempts (StartupCold (scLatencies (wStats w))) + 1 \<and>
    Total (StartupCold (scLatencies (wStats w4))) =
      Total (StartupCold (scLatencies (wStats w))) + (if r4 = None then 1 else 0)"
proof -
  have git: "attempts (GitClone (scLatencies (wStats w2))) = attempts (GitClone (scLatencies (wStats w))) + 1"
    "Total (GitClone (scLatencies (wStats w2))) = Total (GitClone (scLatencies (wStats w))) + (if r = None then 1 else 0)"
    "scGitFiles (wStats w2) = scGitFiles (wStats w) + (if r = None then of_int (seFiles env) else 0)"
    using assms(1) unfolding runGitClone_def Let_def
    by (auto simp: observe_defs Total_ObserveUs dest!: prepare_stats split: if_splits prod.splits sum.splits)
  have untar: "attempts (Untar (scLatencies (wStats w3))) = attempts (Untar (scLatencies (wStats w))) + 1"
    "Total (Untar (scLatencies (wStats w3))) = Total (Untar (scLatencies (wStats w))) + (if r3 = None then 1 else 0)"
    "scUntarFiles (wStats w3) = scUntarFiles (wStats w) + (if r3 = None then of_int (seFiles env) else 0)"
    using assms(2) unfolding runUntar_def Let_def
    by (auto simp: observe_defs Total_ObserveUs dest!: prepare_stats split: if_splits prod.splits sum.splits)
  have start: "attempts (StartupCold (scLatencies (wStats w4))) = attempts (StartupCold (scLatencies (wStats w))) + 1"
    "Total (StartupCold (scLatencies (wStats w4))) =
      Total (StartupCold (scLatencies (wStats w))) + (if r4 = None then 1 else 0)"
    using assms(3) unfolding runSoftwareStartup_def Let_def
    by (auto simp: observe_defs Total_ObserveUs split: if_splits)
  show ?thesis using git untar start by blast
qed

lemma software_attempts_accounted_witness:
  "attempts (GitClone (scLatencies (wStats (snd (runGitClone ''h'' (demo_command PhaseGitClone)
     \<lparr>seArtifact = True, seClear = True, seMkdir = True, seRunOk = False, seElapsed = 5, seDisk = [], seFiles = 7,
      seStuck = []\<rparr> demo_world))))) = attempts (GitClone (scLatencies (wStats demo_world))) + 1"
proof -
  let ?env = "\<lparr>seArtifact = True, seClear = True, seMkdir = True, seRunOk = False, seElapsed = 5, seDisk = [], seFiles = 7,
      seStuck = []\<rparr>"
  let ?cmd = "demo_command PhaseGitClone"
  obtain r w2 where a: "runGitClone ''h'' ?cmd ?env demo_world = (r, w2)" by fastforce
  obtain r3 w3 where b: "runUntar (\<lambda>a. True) ''h'' ?cmd ?env demo_world = (r3, w3)" by fastforce
  obtain r4 w4 where c: "runSoftwareStartup ?cmd True ?env demo_world = (r4, w4)" by fastforce
  from software_attempts_accounted [OF a b c] show ?thesis by (simp add: a)
qed

end
