(* ===== verification/Queues.thy ===== *)
theory Queues
  imports Prelude
begin

text \<open>
  Bounded queues that drop their oldest entry to make room for a new one, as the controller keeps
  one for each client (\<open>enqueue\<close> in \<^verbatim>\<open>internal/controller/server.go\<close>) and the agent two
  (commands and reporting intervals, \<^verbatim>\<open>internal/client/agent.go\<close>). A buffered channel is the
  list of its contents; a \<open>select\<close> with a \<open>default\<close> branch does not wait. Each has one sender at a
  time, so the steps of one insertion are one function.
\<close>

section \<open>The three insertions\<close>

definition try_send :: "nat \<Rightarrow> 'a \<Rightarrow> 'a list \<Rightarrow> 'a list option" where [go_eval]:
  "try_send cap x q = (if length q < cap then Some (q @ [x]) else None)"

definition clientSendQueue :: nat where [go_eval]: "clientSendQueue = 64"

text \<open>\<open>enqueue\<close>: the message is given up (and logged) when even the second attempt fails.\<close>

definition enqueue :: "'a \<Rightarrow> 'a list \<Rightarrow> 'a list" where [go_eval]:
  "enqueue raw q =
    (case try_send clientSendQueue raw q of
       Some q2 \<Rightarrow> q2
     | None \<Rightarrow>
         let q = tl q
         in case try_send clientSendQueue raw q of Some q2 \<Rightarrow> q2 | None \<Rightarrow> q)"

definition cmdQueue :: nat where [go_eval]: "cmdQueue = 8"

text \<open>The command queue: after the drop the send waits for room. \<open>None\<close> would be a send that waits.\<close>

definition queue_command :: "'a \<Rightarrow> 'a list \<Rightarrow> 'a list option" where [go_eval]:
  "queue_command cmd q =
    (case try_send cmdQueue cmd q of
       Some q2 \<Rightarrow> Some q2
     | None \<Rightarrow> try_send cmdQueue cmd (tl q))"

definition intervalQueue :: nat where [go_eval]: "intervalQueue = 4"

definition queue_interval :: "'a \<Rightarrow> 'a list \<Rightarrow> 'a list" where [go_eval]:
  "queue_interval d q =
    (case try_send intervalQueue d q of
       Some q2 \<Rightarrow> q2
     | None \<Rightarrow>
         let q = tl q
         in case try_send intervalQueue d q of Some q2 \<Rightarrow> q2 | None \<Rightarrow> q)"

section \<open>What they have in common\<close>

locale newest_queue =
  fixes cap :: nat
    and push :: "'a \<Rightarrow> 'a list \<Rightarrow> 'a list"
  assumes cap_pos: "0 < cap"
    and room: "length q < cap \<Longrightarrow> push x q = q @ [x]"
    and full: "length q = cap \<Longrightarrow> push x q = tl q @ [x]"
begin

definition push_all :: "'a list \<Rightarrow> 'a list \<Rightarrow> 'a list" where
  "push_all xs q = foldl (\<lambda>q x. push x q) q xs"

lemma push_length: "length q \<le> cap \<Longrightarrow> length (push x q) \<le> cap"
  using cap_pos by (cases "length q = cap") (simp_all add: room full)

lemma push_last: "length q \<le> cap \<Longrightarrow> push x q \<noteq> [] \<and> last (push x q) = x"
  by (cases "length q = cap") (simp_all add: room full)

lemma push_newest: "length q \<le> cap \<Longrightarrow> push x q = drop (length q + 1 - cap) (q @ [x])"
  using cap_pos by (cases "length q = cap"; cases q) (simp_all add: room full)

text \<open>After any number of insertions the queue holds the newest entries, as many as fit, in order.\<close>

lemma push_all_newest: "length q \<le> cap \<Longrightarrow> push_all xs q = drop (length q + length xs - cap) (q @ xs)"
proof (induction xs rule: rev_induct)
  case (snoc x xs)
  define r where "r = push_all xs q"
  have r: "r = drop (length q + length xs - cap) (q @ xs)" using snoc by (simp add: r_def)
  have len: "length r = min cap (length q + length xs)" using snoc.prems by (simp add: r)
  have "push_all (xs @ [x]) q = push x r" by (simp add: push_all_def r_def)
  also have "\<dots> = drop (length r + 1 - cap) (r @ [x])" using len by (intro push_newest) simp
  also have "\<dots> = drop (length q + length (xs @ [x]) - cap) (q @ xs @ [x])"
  proof (cases "length q + length xs < cap")
    case False
    define k where "k = length q + length xs - cap"
    have "r @ [x] = drop k (q @ xs @ [x])" using False by (simp add: r k_def)
    moreover have "length r + 1 - cap = 1" using False len by simp
    moreover have "length q + length (xs @ [x]) - cap = 1 + k" using False by (simp add: k_def)
    ultimately show ?thesis by (simp only: drop_drop)
  qed (use len r in simp)
  finally show ?case .
qed (simp add: push_all_def)

end

interpretation client_queue: newest_queue clientSendQueue enqueue
  by unfold_locales (auto simp: clientSendQueue_def enqueue_def try_send_def Let_def)

interpretation command_queue: newest_queue cmdQueue "\<lambda>x q. case queue_command x q of Some q2 \<Rightarrow> q2 | None \<Rightarrow> q"
  by unfold_locales (auto simp: cmdQueue_def queue_command_def try_send_def)

interpretation interval_queue: newest_queue intervalQueue queue_interval
  by unfold_locales (auto simp: intervalQueue_def queue_interval_def try_send_def Let_def)

text \<open>A send of a command never has to wait.\<close>

lemma queue_command_returns: "length q \<le> cmdQueue \<Longrightarrow> queue_command x q \<noteq> None"
  by (auto simp: cmdQueue_def queue_command_def try_send_def)



end
