(* ===== verification/Agent.thy ===== *)
theory Agent
  imports ClientSoftware Queues Messages HostPrefix
begin

text \<open>
  The agent (\<^verbatim>\<open>internal/client/agent.go\<close>): it registers with the controller, handles its
  messages, runs one command after the other, and reports the counters. Its goroutines are steps on
  one state: the reader of messages, the command loop (taking a command, and the end of its run) and
  the metrics loop. What a running worker does to the disk and the counters is a step of its own,
  which gives the world it leaves. A context is a number.
\<close>

section \<open>State\<close>

text \<open>\<open>agWorker\<close> is the prefix of the worker, once there is one. \<open>agBusy\<close> is the command the command
  loop is running and its context. \<open>agStale\<close> are the command loops of ended sessions that have not
  returned, each with what it is running. \<open>agTicker\<close> is the period of the metrics loop, \<open>agSent\<close> what was
  handed to the connections.\<close>

record Agent =
  agHostname :: string
  agConn :: bool
  agClientID :: string
  agPrefix :: string
  agConfig :: Config
  agWorld :: world
  agWorker :: "string option"
  agMetricsInterval :: duration
  agRunCancel :: "nat option"
  agCmdCh :: "PhaseCommand list"
  agIntervalCh :: "duration list"
  agCancelled :: "nat list"
  agNext :: nat
  agBusy :: "(nat \<times> PhaseCommand) option"
  agStale :: "(nat \<times> PhaseCommand) option list"
  agTicker :: duration
  agSent :: "Envelope list"

definition zero_Config :: Config where [go_eval]:
  "zero_Config =
    \<lparr>TestName = [], Prefixes = [], FileCreationRate = 0, FileDeletionRate = 0, FileWriteBandwidth = 0,
     FileReadBandwidth = 0, PhaseStepSeconds = 0, RandomWriteIOPS = 0, RandomReadIOPS = 0, PackageURL = [],
     StartupCommand = [], GitCloneURL = [], UntarURL = [], DisabledPhases = []\<rparr>"

definition NewAgent :: "string \<Rightarrow> string \<Rightarrow> Agent" where [go_eval]:
  "NewAgent hostname osHostname =
    \<lparr>agHostname = (if hostname = [] then osHostname else hostname), agConn = False, agClientID = [],
     agPrefix = [], agConfig = zero_Config,
     agWorld = \<lparr>wLedger = NewFileLedger, wStats = NewStats, wDisk = []\<rparr>, agWorker = None,
     agMetricsInterval = MetricsInterval, agRunCancel = None, agCmdCh = [], agIntervalCh = [],
     agCancelled = [], agNext = 0, agBusy = None, agStale = [], agTicker = MetricsInterval, agSent = []\<rparr>"

definition agent_send :: "Envelope \<Rightarrow> Agent \<Rightarrow> Agent" where [go_eval]:
  "agent_send env a = a\<lparr>agSent := agSent a @ [env]\<rparr>"

definition status_envelope :: "string \<Rightarrow> string \<Rightarrow> phase \<Rightarrow> int \<Rightarrow> string \<Rightarrow> int \<Rightarrow> Envelope" where [go_eval]:
  "status_envelope cid status ph percent detail files =
    zero_Envelope\<lparr>envType := ''status'',
      envStatus := Some \<lparr>smClientID = cid, smStatus = status, smPhase = ph, smPercent = percent,
        smDetail = detail, smFiles = of_int files\<rparr>\<rparr>"

definition sendStatus :: "string \<Rightarrow> phase \<Rightarrow> int \<Rightarrow> string \<Rightarrow> int \<Rightarrow> Agent \<Rightarrow> Agent" where [go_eval]:
  "sendStatus status ph percent detail files a =
    (if \<not> agConn a \<or> agClientID a = [] then a
     else agent_send (status_envelope (agClientID a) status ph percent detail files) a)"

definition stopWork :: "Agent \<Rightarrow> Agent" where [go_eval]:
  "stopWork a =
    a\<lparr>agRunCancel := None,
      agCancelled := (case agRunCancel a of None \<Rightarrow> agCancelled a | Some c \<Rightarrow> c # agCancelled a)\<rparr>"

section \<open>Reporting interval\<close>

definition clamp_interval :: "float64 \<Rightarrow> duration" where [go_eval]:
  "clamp_interval sec =
    (if sec > 0 then
       let d = secs_to_duration sec;
           d = (if d < MetricsInterval then MetricsInterval else d)
       in if d > MetricsIntervalMax then MetricsIntervalMax else d
     else MetricsInterval)"

definition setMetricsInterval :: "float64 \<Rightarrow> Agent \<Rightarrow> Agent" where [go_eval]:
  "setMetricsInterval sec a =
    (let d = clamp_interval sec;
         prev = agMetricsInterval a;
         a = a\<lparr>agMetricsInterval := d\<rparr>
     in if prev = d then a else a\<lparr>agIntervalCh := queue_interval d (agIntervalCh a)\<rparr>)"

text \<open>The metrics loop: its start, the branch that takes a new interval, and the tick.\<close>

definition metrics_start :: "Agent \<Rightarrow> Agent" where [go_eval]:
  "metrics_start a =
    a\<lparr>agTicker := (if agMetricsInterval a \<le> 0 then MetricsInterval else agMetricsInterval a)\<rparr>"

definition metrics_interval_step :: "Agent \<Rightarrow> Agent" where [go_eval]:
  "metrics_interval_step a =
    (case agIntervalCh a of
       [] \<Rightarrow> a
     | d # ds \<Rightarrow> a\<lparr>agIntervalCh := ds, agTicker := (if d \<le> 0 then MetricsInterval else d)\<rparr>)"

definition metrics_envelope :: "MetricSample \<Rightarrow> Envelope" where [go_eval]:
  "metrics_envelope sample = zero_Envelope\<lparr>envType := ''metrics'', envMetrics := Some sample\<rparr>"

text \<open>A report that cannot be written is lost; the counters have been reset.\<close>

definition metrics_tick :: "time \<Rightarrow> bool \<Rightarrow> Agent \<Rightarrow> Agent" where [go_eval]:
  "metrics_tick now writeOk a =
    (case SnapshotAndReset now (wStats (agWorld a)) of
       (sample, st) \<Rightarrow>
         let a = a\<lparr>agWorld := (agWorld a)\<lparr>wStats := st\<rparr>\<rparr>;
             sample = sample\<lparr>msClientID := agClientID a, msIntervalSec := Seconds (agMetricsInterval a)\<rparr>
         in if msClientID sample = [] then a
            else
              let sample = (if msIntervalSec sample \<le> 0 then sample\<lparr>msIntervalSec := Seconds (agTicker a)\<rparr> else sample)
              in if writeOk then agent_send (metrics_envelope sample) a else a)"

section \<open>Messages\<close>

definition on_welcome :: "WelcomeMsg \<Rightarrow> Agent \<Rightarrow> Agent" where [go_eval]:
  "on_welcome m a =
    (let a = a\<lparr>agClientID := wmClientID m, agPrefix := wmPrefix m, agConfig := wmConfig m,
               agWorker := Some (wmPrefix m)\<rparr>;
         a = setMetricsInterval (wmMetricsIntervalSec m) a
     in sendStatus ''registered'' PhaseIdle 0 ''ready'' (ledger_Count (wLedger (agWorld a))) a)"

definition on_config :: "Config \<Rightarrow> Agent \<Rightarrow> Agent" where [go_eval]:
  "on_config cfg a =
    (let p = SelectPrefix (agHostname a) (Prefixes cfg)
     in a\<lparr>agConfig := cfg, agPrefix := p, agWorker := Some p\<rparr>)"

definition on_command :: "PhaseCommand \<Rightarrow> Agent \<Rightarrow> Agent" where [go_eval]:
  "on_command cmd a =
    (let cmd = (if agPrefix a \<noteq> [] then cmd\<lparr>pcPrefix := agPrefix a\<rparr> else cmd)
     in case queue_command cmd (agCmdCh a) of None \<Rightarrow> a | Some q \<Rightarrow> a\<lparr>agCmdCh := q\<rparr>)"

text \<open>\<open>stuck\<close> is what the cleanup cannot remove.\<close>

definition on_stop :: "string list \<Rightarrow> StopMsg option \<Rightarrow> Agent \<Rightarrow> Agent" where [go_eval]:
  "on_stop stuck st a =
    (let a = stopWork a;
         cleanup = (case st of None \<Rightarrow> True | Some m \<Rightarrow> stCleanup m);
         a = (if cleanup \<and> agWorker a \<noteq> None
              then a\<lparr>agWorld := snd (Cleanup stuck (agHostname a) (agPrefix a) (TestName (agConfig a)) (agWorld a))\<rparr>
              else a)
     in sendStatus ''stopped'' PhaseStopped 0 ''cleaned up'' 0 a)"

text \<open>The reader's switch; a message without its part, or of another type, is ignored.\<close>

definition handle_message :: "string list \<Rightarrow> Envelope \<Rightarrow> Agent \<Rightarrow> Agent" where [go_eval]:
  "handle_message stuck env a =
    (if envType env = ''welcome'' then (case envWelcome env of None \<Rightarrow> a | Some m \<Rightarrow> on_welcome m a)
     else if envType env = ''config'' then (case envConfig env of None \<Rightarrow> a | Some c \<Rightarrow> on_config c a)
     else if envType env = ''metrics_interval'' then setMetricsInterval (envMetricsIntervalSec env) a
     else if envType env = ''command'' then (case envCommand env of None \<Rightarrow> a | Some c \<Rightarrow> on_command c a)
     else if envType env = ''stop'' then on_stop stuck (envStop env) a
     else a)"

section \<open>The command loop\<close>

text \<open>
  Taking a command, under the context of the session: \<open>dead\<close> is that it is cancelled, and then the
  context derived from it is too. The second component is the run that begins. A loop whose session
  has ended and that finds a command waiting may take it: \<open>select\<close> chooses between the two.
\<close>

definition command_take :: "bool \<Rightarrow> Agent \<Rightarrow> Agent \<times> (nat \<times> PhaseCommand) option" where [go_eval]:
  "command_take dead a =
    (case agCmdCh a of
       [] \<Rightarrow> (a, None)
     | cmd # rest \<Rightarrow>
         let a = stopWork (a\<lparr>agCmdCh := rest\<rparr>);
             c = agNext a;
             a = a\<lparr>agNext := c + 1, agCancelled := (if dead then c # agCancelled a else agCancelled a)\<rparr>;
             a = a\<lparr>agRunCancel := Some c\<rparr>
         in if agWorker a = None then (a\<lparr>agCancelled := c # agCancelled a\<rparr>, None)
            else
              (sendStatus ''running'' (pcPhase cmd) (pcPercent cmd) ''executing''
                 (ledger_Count (wLedger (agWorld a))) a, Some (c, cmd)))"

text \<open>The end of \<open>Run\<close>.\<close>

definition command_done :: "nat \<times> PhaseCommand \<Rightarrow> Agent \<Rightarrow> Agent" where [go_eval]:
  "command_done run a =
    (case run of (c, cmd) \<Rightarrow>
       if c \<in> set (agCancelled a) then a
       else sendStatus ''idle'' (pcPhase cmd) (pcPercent cmd) ''step done''
              (ledger_Count (wLedger (agWorld a))) a)"

text \<open>The loop of the session, and the loops of earlier ones.\<close>

definition loop_take :: "Agent \<Rightarrow> Agent" where [go_eval]:
  "loop_take a =
    (if agBusy a = None then (case command_take False a of (a, run) \<Rightarrow> a\<lparr>agBusy := run\<rparr>) else a)"

definition loop_done :: "Agent \<Rightarrow> Agent" where [go_eval]:
  "loop_done a =
    (case agBusy a of None \<Rightarrow> a | Some run \<Rightarrow> (command_done run a)\<lparr>agBusy := None\<rparr>)"

definition stale_take :: "nat \<Rightarrow> Agent \<Rightarrow> Agent" where [go_eval]:
  "stale_take i a =
    (if i < length (agStale a) \<and> agStale a ! i = None
     then (case command_take True a of (a, run) \<Rightarrow> a\<lparr>agStale := (agStale a)[i := run]\<rparr>) else a)"

definition stale_done :: "nat \<Rightarrow> Agent \<Rightarrow> Agent" where [go_eval]:
  "stale_done i a =
    (if i < length (agStale a) then
       (case agStale a ! i of
          None \<Rightarrow> a
        | Some run \<Rightarrow> (command_done run a)\<lparr>agStale := (agStale a)[i := None]\<rparr>)
     else a)"

definition stale_return :: "nat \<Rightarrow> Agent \<Rightarrow> Agent" where [go_eval]:
  "stale_return i a =
    (if i < length (agStale a) \<and> agStale a ! i = None
     then a\<lparr>agStale := take i (agStale a) @ drop (Suc i) (agStale a)\<rparr> else a)"

definition runs :: "Agent \<Rightarrow> (nat \<times> PhaseCommand) set" where
  "runs a = {run. agBusy a = Some run \<or> Some run \<in> set (agStale a)}"

definition works :: "world \<Rightarrow> Agent \<Rightarrow> Agent" where [go_eval]:
  "works w a = (if agBusy a = None \<and> list_all Option.is_none (agStale a) then a else a\<lparr>agWorld := w\<rparr>)"

section \<open>Sessions\<close>

definition register_envelope :: "Agent \<Rightarrow> Envelope" where [go_eval]:
  "register_envelope a =
    zero_Envelope\<lparr>envType := ''register'', envRegister := Some \<lparr>rmHostname = agHostname a, rmID = agClientID a\<rparr>\<rparr>"

definition session_start :: "Agent \<Rightarrow> Agent" where [go_eval]:
  "session_start a = metrics_start (agent_send (register_envelope a) (a\<lparr>agConn := True\<rparr>))"

text \<open>The end of a session: the contexts derived from it are cancelled, the work is stopped, and its
  command loop is left to return.\<close>

definition session_end :: "Agent \<Rightarrow> Agent" where [go_eval]:
  "session_end a =
    (let a = (case agBusy a of None \<Rightarrow> a | Some (c, cmd) \<Rightarrow> a\<lparr>agCancelled := c # agCancelled a\<rparr>);
         a = a\<lparr>agStale := agStale a @ [agBusy a], agBusy := None\<rparr>
     in (stopWork a)\<lparr>agConn := False\<rparr>)"

text \<open>\<open>Run\<close>: the scheme of the URL the agent dials; \<open>None\<close> is the error.\<close>

definition ws_scheme :: "string \<Rightarrow> string option" where [go_eval]:
  "ws_scheme s =
    (if s = ''http'' then Some ''ws'' else if s = ''https'' then Some ''wss''
     else if s = ''ws'' \<or> s = ''wss'' then Some s else None)"

section \<open>Steps\<close>

datatype agent_event =
    GotMessage "string list" Envelope
  | TakeCommand
  | RunEnds
  | Works world
  | StaleTake nat
  | StaleEnds nat
  | StaleReturns nat
  | TakeInterval
  | Tick time bool
  | SessionStart
  | SessionEnd

fun agent_step :: "Agent \<Rightarrow> agent_event \<Rightarrow> Agent" where
  "agent_step a (GotMessage stuck env) = (if agConn a then handle_message stuck env a else a)"
| "agent_step a TakeCommand = (if agConn a then loop_take a else a)"
| "agent_step a RunEnds = loop_done a"
| "agent_step a (Works w) = works w a"
| "agent_step a (StaleTake i) = stale_take i a"
| "agent_step a (StaleEnds i) = stale_done i a"
| "agent_step a (StaleReturns i) = stale_return i a"
| "agent_step a TakeInterval = (if agConn a then metrics_interval_step a else a)"
| "agent_step a (Tick now ok) = (if agConn a then metrics_tick now ok a else a)"
| "agent_step a SessionStart = (if agConn a then a else session_start a)"
| "agent_step a SessionEnd = (if agConn a then session_end a else a)"

definition agent_run :: "agent_event list \<Rightarrow> Agent \<Rightarrow> Agent" where [go_eval]:
  "agent_run es a = foldl agent_step a es"

lemma agent_run_invariant:
  assumes "\<And>a e. J a \<Longrightarrow> J (agent_step a e)" "J a"
  shows "J (agent_run es a)"
  unfolding agent_run_def using assms by (induction es arbitrary: a) simp_all

lemma sendStatus_frame [simp]:
  "agConn (sendStatus st ph pct d n a) = agConn a" "agBusy (sendStatus st ph pct d n a) = agBusy a"
  "agRunCancel (sendStatus st ph pct d n a) = agRunCancel a" "agCancelled (sendStatus st ph pct d n a) = agCancelled a"
  "agCmdCh (sendStatus st ph pct d n a) = agCmdCh a" "agIntervalCh (sendStatus st ph pct d n a) = agIntervalCh a"
  "agMetricsInterval (sendStatus st ph pct d n a) = agMetricsInterval a" "agTicker (sendStatus st ph pct d n a) = agTicker a"
  "agWorker (sendStatus st ph pct d n a) = agWorker a" "agNext (sendStatus st ph pct d n a) = agNext a"
  "agWorld (sendStatus st ph pct d n a) = agWorld a" "agStale (sendStatus st ph pct d n a) = agStale a"
  by (simp_all add: sendStatus_def agent_send_def)

lemma stopWork_frame [simp]:
  "agConn (stopWork a) = agConn a" "agMetricsInterval (stopWork a) = agMetricsInterval a"
  "agTicker (stopWork a) = agTicker a" "agIntervalCh (stopWork a) = agIntervalCh a"
  "agBusy (stopWork a) = agBusy a" "agStale (stopWork a) = agStale a" "agNext (stopWork a) = agNext a"
  "agCmdCh (stopWork a) = agCmdCh a" "agRunCancel (stopWork a) = None"
  "set (agCancelled (stopWork a)) = set (agCancelled a) \<union> set_option (agRunCancel a)"
  by (simp_all add: stopWork_def split: option.split)

text \<open>The messages other than a stop leave the runs and their contexts alone.\<close>

lemma handlers_frame [simp]:
  "agBusy (on_config c a) = agBusy a" "agStale (on_config c a) = agStale a"
  "agRunCancel (on_config c a) = agRunCancel a" "agCancelled (on_config c a) = agCancelled a"
  "agBusy (on_command k a) = agBusy a" "agStale (on_command k a) = agStale a"
  "agRunCancel (on_command k a) = agRunCancel a" "agCancelled (on_command k a) = agCancelled a"
  "agBusy (setMetricsInterval sec a) = agBusy a" "agStale (setMetricsInterval sec a) = agStale a"
  "agRunCancel (setMetricsInterval sec a) = agRunCancel a" "agCancelled (setMetricsInterval sec a) = agCancelled a"
  "agBusy (on_welcome m a) = agBusy a" "agStale (on_welcome m a) = agStale a"
  "agRunCancel (on_welcome m a) = agRunCancel a" "agCancelled (on_welcome m a) = agCancelled a"
  "agBusy (on_stop stuck st a) = agBusy a" "agStale (on_stop stuck st a) = agStale a"
  "agRunCancel (on_stop stuck st a) = None"
  "set (agCancelled (on_stop stuck st a)) = set (agCancelled a) \<union> set_option (agRunCancel a)"
  by (simp_all add: on_config_def on_command_def on_welcome_def on_stop_def setMetricsInterval_def Let_def
      split: option.split)

lemma loop_frame [simp]:
  "agConn (command_done run a) = agConn a" "agMetricsInterval (command_done run a) = agMetricsInterval a"
  "agTicker (command_done run a) = agTicker a" "agIntervalCh (command_done run a) = agIntervalCh a"
  "agBusy (command_done run a) = agBusy a" "agStale (command_done run a) = agStale a"
  "agRunCancel (command_done run a) = agRunCancel a" "agCancelled (command_done run a) = agCancelled a"
  "agConn (fst (command_take dead a)) = agConn a" "agMetricsInterval (fst (command_take dead a)) = agMetricsInterval a"
  "agTicker (fst (command_take dead a)) = agTicker a" "agIntervalCh (fst (command_take dead a)) = agIntervalCh a"
  "agBusy (fst (command_take dead a)) = agBusy a" "agStale (fst (command_take dead a)) = agStale a"
  by (simp_all add: command_done_def command_take_def Let_def split: prod.split list.split)

section \<open>Example messages\<close>

text \<open>What the agent said, in short: a status by its status, any other message by its type.\<close>

definition said :: "Agent \<Rightarrow> string list" where [go_eval]:
  "said a = map (\<lambda>env. case envStatus env of None \<Rightarrow> envType env | Some m \<Rightarrow> smStatus m) (agSent a)"

definition demo_welcome :: Envelope where [go_eval]:
  "demo_welcome =
    zero_Envelope\<lparr>envType := ''welcome'',
      envWelcome := Some \<lparr>wmClientID = ''c1'', wmPrefix = ''p'', wmConfig = zero_Config\<lparr>TestName := ''t''\<rparr>,
        wmMetricsIntervalSec = 5\<rparr>\<rparr>"

definition demo_order :: "phase \<Rightarrow> Envelope" where [go_eval]:
  "demo_order ph = zero_Envelope\<lparr>envType := ''command'', envCommand := Some (demo_command ph)\<rparr>"

definition demo_stop :: Envelope where [go_eval]: "demo_stop = zero_Envelope\<lparr>envType := ''stop''\<rparr>"

definition demo_session :: "agent_event list" where [go_eval]:
  "demo_session =
    [SessionStart, GotMessage [] demo_welcome, GotMessage [] (demo_order PhaseCreate), TakeCommand,
     GotMessage [] (demo_order PhaseDelete)]"

section \<open>The reporting interval settles\<close>

text \<open>What the fields of the interval say, whatever the others hold.\<close>

fun interval_inv :: "bool \<Rightarrow> duration \<Rightarrow> duration \<Rightarrow> duration list \<Rightarrow> bool" where
  "interval_inv conn d ticker q \<longleftrightarrow>
    MetricsInterval \<le> d \<and> d \<le> MetricsIntervalMax \<and> length q \<le> intervalQueue \<and>
    (\<forall>x \<in> set q. MetricsInterval \<le> x) \<and>
    (if q = [] then conn \<longrightarrow> ticker = d else last q = d)"

definition interval_ok :: "Agent \<Rightarrow> bool" where
  "interval_ok a \<longleftrightarrow> interval_inv (agConn a) (agMetricsInterval a) (agTicker a) (agIntervalCh a)"

lemma clamp_range: "MetricsInterval \<le> clamp_interval sec \<and> clamp_interval sec \<le> MetricsIntervalMax"
  by (simp add: clamp_interval_def Let_def MetricsInterval_def MetricsIntervalMax_def Second_def)

lemma queue_interval_set: "length q \<le> intervalQueue \<Longrightarrow> set (queue_interval d q) \<subseteq> insert d (set q)"
  using interval_queue.push_newest [of q d] by (auto dest: in_set_dropD)

lemma setMetricsInterval_ok: "interval_ok a \<Longrightarrow> interval_ok (setMetricsInterval sec a)"
proof -
  assume a: "interval_ok a"
  then have q: "length (agIntervalCh a) \<le> intervalQueue" by (simp add: interval_ok_def)
  define d where "d = clamp_interval sec"
  have d: "MetricsInterval \<le> d" "d \<le> MetricsIntervalMax" using clamp_range [of sec] by (simp_all add: d_def)
  show ?thesis
  proof (cases "agMetricsInterval a = d")
    case True
    with a show ?thesis by (simp add: setMetricsInterval_def Let_def d_def interval_ok_def)
  next
    case False
    then show ?thesis
      using a d interval_queue.push_last [OF q, of d] interval_queue.push_length [OF q, of d] queue_interval_set [OF q, of d]
      by (auto simp: setMetricsInterval_def Let_def d_def [symmetric] interval_ok_def)
  qed
qed

lemma interval_ok_cong:
  "agConn b = agConn a \<Longrightarrow> agMetricsInterval b = agMetricsInterval a \<Longrightarrow> agTicker b = agTicker a \<Longrightarrow>
   agIntervalCh b = agIntervalCh a \<Longrightarrow> interval_ok b = interval_ok a"
  by (simp add: interval_ok_def)

lemma interval_fields [simp]:
  "agConn (on_config c a) = agConn a" "agMetricsInterval (on_config c a) = agMetricsInterval a"
  "agTicker (on_config c a) = agTicker a" "agIntervalCh (on_config c a) = agIntervalCh a"
  "agConn (on_command k a) = agConn a" "agMetricsInterval (on_command k a) = agMetricsInterval a"
  "agTicker (on_command k a) = agTicker a" "agIntervalCh (on_command k a) = agIntervalCh a"
  "agConn (on_stop stuck st a) = agConn a" "agMetricsInterval (on_stop stuck st a) = agMetricsInterval a"
  "agTicker (on_stop stuck st a) = agTicker a" "agIntervalCh (on_stop stuck st a) = agIntervalCh a"
  by (simp_all add: on_config_def on_command_def on_stop_def Let_def split: option.split)

lemma interval_ok_handle: "interval_ok a \<Longrightarrow> interval_ok (handle_message stuck env a)"
proof -
  assume a: "interval_ok a"
  have greet: "interval_ok (on_welcome m a)" for m
  proof -
    let ?a = "a\<lparr>agClientID := wmClientID m, agPrefix := wmPrefix m, agConfig := wmConfig m, agWorker := Some (wmPrefix m)\<rparr>"
    have "interval_ok ?a" using a by (simp add: interval_ok_def)
    then have "interval_ok (setMetricsInterval (wmMetricsIntervalSec m) ?a)" by (rule setMetricsInterval_ok)
    then show ?thesis by (simp add: on_welcome_def Let_def interval_ok_def)
  qed
  have rest: "interval_ok (on_config c a)" "interval_ok (on_command k a)" "interval_ok (on_stop stuck st a)" for c k st
    using a by (simp_all add: interval_ok_def)
  show ?thesis
    using a greet rest setMetricsInterval_ok [OF a] by (simp add: handle_message_def split: option.split)
qed

lemma interval_ok_step: "interval_ok a \<Longrightarrow> interval_ok (agent_step a e)"
proof (cases e)
  case (GotMessage stuck env)
  assume "interval_ok a"
  then show ?thesis using interval_ok_handle by (simp add: GotMessage)
next
  case TakeInterval
  assume "interval_ok a"
  then show ?thesis
    by (auto simp: TakeInterval metrics_interval_step_def interval_ok_def MetricsInterval_def Second_def split: list.split)
next
  case SessionStart
  assume "interval_ok a"
  then show ?thesis
    by (auto simp: SessionStart session_start_def metrics_start_def agent_send_def interval_ok_def MetricsInterval_def Second_def)
next
  case SessionEnd
  assume "interval_ok a"
  then show ?thesis
    by (auto simp: SessionEnd session_end_def Let_def interval_ok_def split: option.split)
next
  case (Tick now ok)
  assume a: "interval_ok a"
  have "interval_ok (metrics_tick now ok a) = interval_ok a"
    by (rule interval_ok_cong) (simp_all add: metrics_tick_def Let_def agent_send_def split: prod.split)
  with a show ?thesis by (simp add: Tick)
qed (auto simp: interval_ok_def loop_take_def loop_done_def stale_take_def stale_done_def stale_return_def works_def
       case_prod_beta split: option.split)

text \<open>
  C32. However the controller changes the reporting interval and whenever the loop gets to see it,
  the interval stays between one second and a minute, and once no announced interval is waiting the
  loop of a live session ticks with exactly the interval announced last.
\<close>

theorem reporting_interval_settles:
  fixes es hostname osHostname
  defines "a \<equiv> agent_run es (NewAgent hostname osHostname)"
  shows "Second \<le> agMetricsInterval a \<and> agMetricsInterval a \<le> 60 * Second \<and> length (agIntervalCh a) \<le> 4 \<and>
    (if agIntervalCh a = [] then agConn a \<longrightarrow> agTicker a = agMetricsInterval a
     else last (agIntervalCh a) = agMetricsInterval a)"
proof -
  have "interval_ok (NewAgent hostname osHostname)"
    by (simp add: NewAgent_def interval_ok_def MetricsInterval_def MetricsIntervalMax_def Second_def)
  then have "interval_ok a" unfolding a_def by (rule agent_run_invariant [rotated]) (rule interval_ok_step)
  then show ?thesis
    by (simp add: interval_ok_def MetricsInterval_def MetricsIntervalMax_def intervalQueue_def split: if_splits)
qed

lemma reporting_interval_settles_witness:
  "agTicker (agent_run [SessionStart, GotMessage [] demo_welcome, TakeInterval] (NewAgent ''h'' [])) = 5 * Second"
proof -
  let ?a = "agent_run [SessionStart, GotMessage [] demo_welcome, TakeInterval] (NewAgent ''h'' [])"
  have "agIntervalCh ?a = []" "agConn ?a" "agMetricsInterval ?a = 5 * Second" by code_simp+
  with reporting_interval_settles
      [of "[SessionStart, GotMessage [] demo_welcome, TakeInterval]" "''h''" "[]"]
  show ?thesis by simp
qed

section \<open>A stop ends all work\<close>

text \<open>Every run but the one whose cancellation the agent holds is cancelled.\<close>

definition work_ok :: "Agent \<Rightarrow> bool" where
  "work_ok a \<longleftrightarrow> (\<forall>run \<in> runs a. fst run \<in> set (agCancelled a) \<or> agRunCancel a = Some (fst run))"

lemma runs_frame: "agBusy b = agBusy a \<Longrightarrow> agStale b = agStale a \<Longrightarrow> runs b = runs a"
  by (simp add: runs_def)

lemma command_take_ctx:
  assumes "command_take dead a = (b, run)"
  shows "set (agCancelled a) \<subseteq> set (agCancelled b)"
    and "agRunCancel a = Some c \<Longrightarrow> c \<in> set (agCancelled b) \<or> agRunCancel b = Some c"
    and "run = Some r \<Longrightarrow> agRunCancel b = Some (fst r)"
    and "agBusy b = agBusy a" and "agStale b = agStale a"
  using assms by (auto simp: command_take_def Let_def split: list.splits if_splits)

lemma metrics_tick_ctx [simp]:
  "agBusy (metrics_tick now ok a) = agBusy a" "agStale (metrics_tick now ok a) = agStale a"
  "agRunCancel (metrics_tick now ok a) = agRunCancel a" "agCancelled (metrics_tick now ok a) = agCancelled a"
  by (simp_all add: metrics_tick_def Let_def agent_send_def split: prod.split)

lemma handle_message_ctx [simp]:
  "agBusy (handle_message stuck env a) = agBusy a" "agStale (handle_message stuck env a) = agStale a"
  by (simp_all add: handle_message_def split: option.split)

lemma handle_message_cancel:
  "set (agCancelled a) \<subseteq> set (agCancelled (handle_message stuck env a))"
  "agRunCancel a = Some c \<Longrightarrow>
   c \<in> set (agCancelled (handle_message stuck env a)) \<or> agRunCancel (handle_message stuck env a) = Some c"
  by (auto simp: handle_message_def split: option.split)

lemma work_ok_take:
  assumes "work_ok a" "command_take dead a = (b, run)"
    and "runs x \<subseteq> runs a \<union> set_option run" "agCancelled x = agCancelled b" "agRunCancel x = agRunCancel b"
  shows "work_ok x"
  unfolding work_ok_def
proof
  fix r assume "r \<in> runs x"
  then consider "r \<in> runs a" | "run = Some r" using assms(3) by auto
  then show "fst r \<in> set (agCancelled x) \<or> agRunCancel x = Some (fst r)"
  proof cases
    case 1
    with assms(1) show ?thesis using command_take_ctx(1,2) [OF assms(2)] by (auto simp: work_ok_def assms(4,5))
  next
    case 2
    then show ?thesis using command_take_ctx(3) [OF assms(2)] by (simp add: assms(5))
  qed
qed

text \<open>Fewer runs and more cancelled contexts keep it.\<close>

lemma work_ok_mono:
  assumes "work_ok a" "runs b \<subseteq> runs a" "set (agCancelled a) \<subseteq> set (agCancelled b)"
    and "\<And>c. agRunCancel a = Some c \<Longrightarrow> c \<in> set (agCancelled b) \<or> agRunCancel b = Some c"
  shows "work_ok b"
  using assms by (auto simp: work_ok_def subset_iff)

lemma work_ok_step: "work_ok a \<Longrightarrow> work_ok (agent_step a e)"
proof (cases e)
  case TakeCommand
  assume a: "work_ok a"
  obtain b run where t: "command_take False a = (b, run)" by fastforce
  have "agBusy a = None \<Longrightarrow> work_ok (b\<lparr>agBusy := run\<rparr>)"
    by (rule work_ok_take [OF a t]) (auto simp: runs_def command_take_ctx [OF t])
  with a t show ?thesis by (simp add: TakeCommand loop_take_def)
next
  case (StaleTake i)
  assume a: "work_ok a"
  obtain b run where t: "command_take True a = (b, run)" by fastforce
  have "work_ok (b\<lparr>agStale := (agStale b)[i := run]\<rparr>)"
    by (rule work_ok_take [OF a t])
      (auto simp: runs_def command_take_ctx [OF t] dest: set_update_subset_insert [THEN subsetD])
  with a t show ?thesis by (simp add: StaleTake stale_take_def)
next
  case (GotMessage stuck env)
  assume a: "work_ok a"
  have "work_ok (handle_message stuck env a)"
    by (rule work_ok_mono [OF a]) (use handle_message_cancel in \<open>auto simp: runs_def\<close>)
  with a show ?thesis by (simp add: GotMessage)
next
  case SessionEnd
  assume a: "work_ok a"
  have "work_ok (session_end a)"
    by (rule work_ok_mono [OF a]) (auto simp: runs_def session_end_def Let_def split: option.split)
  with a show ?thesis by (simp add: SessionEnd)
next
  case (StaleEnds i)
  assume a: "work_ok a"
  have "work_ok (stale_done i a)"
    by (rule work_ok_mono [OF a])
      (auto simp: runs_def stale_done_def split: option.split dest: set_update_subset_insert [THEN subsetD])
  then show ?thesis by (simp add: StaleEnds)
next
  case (StaleReturns i)
  assume a: "work_ok a"
  have "work_ok (stale_return i a)"
    by (rule work_ok_mono [OF a]) (auto simp: runs_def stale_return_def dest: in_set_takeD in_set_dropD)
  then show ?thesis by (simp add: StaleReturns)
next
  case RunEnds
  assume a: "work_ok a"
  have "work_ok (loop_done a)"
    by (rule work_ok_mono [OF a]) (auto simp: runs_def loop_done_def split: option.split)
  then show ?thesis by (simp add: RunEnds)
qed (auto simp: work_ok_def runs_def works_def metrics_interval_step_def session_start_def metrics_start_def
       agent_send_def setMetricsInterval_def split: list.split)

lemma cancelled_grows: "set (agCancelled a) \<subseteq> set (agCancelled (agent_run es a))"
proof -
  have "set (agCancelled b) \<subseteq> set (agCancelled (agent_step b e))" for b e
  proof (cases e)
    case (GotMessage stuck env)
    then show ?thesis using handle_message_cancel(1) [of b stuck env] by simp
  next
    case TakeCommand
    obtain d run where t: "command_take False b = (d, run)" by fastforce
    show ?thesis using command_take_ctx(1) [OF t] by (simp add: TakeCommand loop_take_def t)
  next
    case (StaleTake i)
    obtain d run where t: "command_take True b = (d, run)" by fastforce
    show ?thesis using command_take_ctx(1) [OF t] by (simp add: StaleTake stale_take_def t)
  qed (auto simp: loop_done_def stale_done_def stale_return_def works_def metrics_interval_step_def session_start_def
         metrics_start_def agent_send_def session_end_def Let_def split: list.split option.split)
  then show ?thesis unfolding agent_run_def by (induction es arbitrary: a) (simp, fastforce)
qed



section \<open>What a stop and a reconnect leave behind\<close>

text \<open>
  A command that waits in the queue when a stop is handled is not dropped: once the cancelled run
  has ended the agent takes it and runs it under a live context, after the cleanup and after it has
  reported \<open>stopped\<close>.
\<close>

theorem queued_command_survives_stop:
  "let a = agent_run (demo_session @ [GotMessage [] demo_stop, RunEnds, TakeCommand]) (NewAgent ''h'' [])
   in said a = [''register'', ''registered'', ''running'', ''stopped'', ''running''] \<and>
      map_option (pcPhase \<circ> snd) (agBusy a) = Some PhaseDelete \<and> agCancelled a = [0] \<and>
      map_option fst (agBusy a) = Some 1"
  by code_simp

text \<open>
  The loop of an ended session can take the command that waits, with its own cancelled context: the
  next session reports \<open>running\<close> for a command that no live loop runs, and nothing of it is left.
\<close>

theorem ended_session_takes_command:
  "let a = agent_run (demo_session @ [SessionEnd, SessionStart, StaleEnds 0, StaleTake 0, StaleEnds 0, StaleReturns 0])
             (NewAgent ''h'' [])
   in said a = [''register'', ''registered'', ''running'', ''register'', ''running''] \<and>
      agBusy a = None \<and> agStale a = [] \<and> agCmdCh a = []"
  by code_simp

text \<open>A report that cannot be written takes its counters with it.\<close>

theorem failed_report_is_lost:
  "agSent (metrics_tick now False a) = agSent a \<and>
   wStats (agWorld (metrics_tick now False a)) = snd (SnapshotAndReset now (wStats (agWorld a)))"
  by (simp add: metrics_tick_def Let_def split: prod.split)

end
