(* ===== verification/Settings.thy ===== *)
theory Settings
  imports RunPlan
begin

text \<open>
  What the settings of the orchestrator mean: the configuration and its toggles, the choice of the
  participants, the start of a run, and the snapshot that the Web UI draws (the remaining method of
  \<^verbatim>\<open>internal/controller/orchestrator.go\<close>).
\<close>

section \<open>The snapshot\<close>

definition Snapshot :: "time \<Rightarrow> Orchestrator \<Rightarrow> UIState" where [go_eval]:
  "Snapshot now o1 =
    (let elapsed = (if oRunning o1
           then (case oStartedAt o1 of Some t \<Rightarrow> Seconds (now - t) | None \<Rightarrow> oElapsedSec o1)
           else oElapsedSec o1);
         total = Count (oRegistry o1);
         clients = ListCapped UIClientLimit (oRegistry o1);
         chosen = (case oRunClientSet o1 of
                     Some s \<Rightarrow> if oRunning o1 \<and> length s > 0 then s else oSelectedIDs o1
                   | None \<Rightarrow> oSelectedIDs o1);
         participantCount = int (length chosen);
         selectedAll = (participantCount > 0 \<and> participantCount = total);
         clients = map (\<lambda>c. c\<lparr>ciSelected := (ciID c \<in> set chosen)\<rparr>) clients
     in \<lparr>uiConfig = oCfg o1, uiClients = clients, uiRunning = oRunning o1, uiPhase = oPhase o1,
         uiPercent = oPercent o1, uiStartedAt = oStartedAt o1, uiElapsedSec = elapsed,
         uiStartupSec = Seconds (ConnectionSpan (oRegistry o1)),
         uiHistory = History now (oMetrics o1), uiLatencies = Latencies (oMetrics o1),
         uiLatencyEdgesUs = LatencyBucketEdgesUs, uiLatencyLongEdgesUs = LatencyLongBucketEdgesUs,
         uiPhaseSpans = oPhaseSpans o1, uiPhaseOrder = EffectivePhaseOrder (oCfg o1),
         uiStatusText = oStatusText o1, uiClientCount = total, uiClientsShown = int (length clients),
         uiParticipantCount = participantCount, uiSelectedAll = selectedAll,
         uiControllerHostname = oHostname o1, uiTotals = Totals (oMetrics o1)\<rparr>)"

section \<open>Toggling phases\<close>

lemma toggled_normal:
  assumes "config_normal c" and new: "new = filter (\<lambda>p. p \<in> set ds) (EffectivePhaseOrder c)"
    and ds: "\<And>p g. p \<in> set ds \<Longrightarrow> g \<in> set (PhaseToggleGroup p) \<Longrightarrow> g \<in> set ds"
  shows "config_normal (c\<lparr>DisabledPhases := new\<rparr>)"
  unfolding config_normal_def Effective_DisabledPhases
proof (intro conjI ballI)
  show "distinct (DisabledPhases (c\<lparr>DisabledPhases := new\<rparr>))"
    by (simp add: new distinct_EffectivePhaseOrder)
  show "set (DisabledPhases (c\<lparr>DisabledPhases := new\<rparr>)) \<subseteq> set (EffectivePhaseOrder c)"
    by (auto simp: new)
next
  fix p g
  assume "p \<in> set (DisabledPhases (c\<lparr>DisabledPhases := new\<rparr>))" and g: "g \<in> set (PhaseToggleGroup p)"
  then have "p \<in> set ds" "p \<in> set (EffectivePhaseOrder c)" by (auto simp: new)
  with ds [OF _ g] Effective_group_closed [OF g, of c]
  show "g \<in> set (DisabledPhases (c\<lparr>DisabledPhases := new\<rparr>))" by (simp add: new)
qed

lemma toggled_selected:
  assumes "config_normal c" "new = filter (\<lambda>p. p \<in> set ds) (EffectivePhaseOrder c)"
    and "\<And>p g. p \<in> set ds \<Longrightarrow> g \<in> set (PhaseToggleGroup p) \<Longrightarrow> g \<in> set ds"
  shows "PhaseSelected (NormalizeDisabledPhases (c\<lparr>DisabledPhases := new\<rparr>)) p \<longleftrightarrow>
    p \<in> set (EffectivePhaseOrder c) \<and> p \<notin> set ds"
  using set_Disabled_Normalize_normal [OF toggled_normal [OF assms]]
  by (auto simp: PhaseSelected_iff PhaseDisabled_def assms(2))

lemma disabled_group_closed:
  assumes "config_normal c"
    and "ds = (if en then filter (\<lambda>d. d \<notin> set (PhaseToggleGroup ph)) (DisabledPhases c)
               else DisabledPhases c @ PhaseToggleGroup ph)"
    and "p \<in> set ds" "g \<in> set (PhaseToggleGroup p)"
  shows "g \<in> set ds"
proof -
  have "PhaseToggleGroup g = PhaseToggleGroup p" using assms(4) by (simp only: toggle_group_sym)
  then have "g \<in> set (PhaseToggleGroup ph) \<longleftrightarrow> p \<in> set (PhaseToggleGroup ph)"
    by (simp add: toggle_group_sym)
  moreover have "g \<in> set (DisabledPhases c)" if "p \<in> set (DisabledPhases c)"
    using assms(1,4) that by (auto simp: config_normal_def)
  ultimately show ?thesis using assms(2,3) by (auto split: if_splits)
qed

text \<open>
  C26. When \<open>SetPhaseEnabled\<close> succeeds, exactly the phases of the toggle group are switched the way
  it was asked, every other phase stays as it was, the stored configuration is normalised, at least
  one phase is left, and exactly the stored configuration is broadcast and saved.
\<close>

theorem SetPhaseEnabled_switches_group:
  assumes "config_normal (oCfg o1)" "SetPhaseEnabled ph en o1 = (None, o2)"
  shows "PhaseSelected (oCfg o2) p =
      (if p \<in> set (PhaseToggleGroup ph) then en else PhaseSelected (oCfg o1) p) \<and>
    config_normal (oCfg o2) \<and> ActivePhaseOrder (oCfg o2) \<noteq> [] \<and>
    oSent o2 = oSent o1 @ Broadcast (config_envelope (oCfg o2)) #
      (if oConfigPath o1 = [] then [] else [SaveConfig (oConfigPath o1) (oCfg o2)])"
proof -
  define ds where "ds = (if en then filter (\<lambda>d. d \<notin> set (PhaseToggleGroup ph)) (DisabledPhases (oCfg o1))
      else DisabledPhases (oCfg o1) @ PhaseToggleGroup ph)"
  define new where "new = filter (\<lambda>p. p \<in> set ds) (EffectivePhaseOrder (oCfg o1))"
  define cfg2 where "cfg2 = NormalizeDisabledPhases ((oCfg o1)\<lparr>DisabledPhases := new\<rparr>)"
  have plan: "list_ex (\<lambda>p. p \<in> set (PhaseToggleGroup ph)) (EffectivePhaseOrder (oCfg o1))"
    and active: "ActivePhaseOrder cfg2 \<noteq> []" and o2: "o2 = publish_config cfg2 (o1\<lparr>oCfg := cfg2\<rparr>)"
    using assms(2)
    by (simp_all add: SetPhaseEnabled_def Let_def ds_def new_def cfg2_def split: if_splits)
  have cfg: "oCfg o2 = cfg2" by (simp add: o2 publish_config_def send_def Let_def)
  have "p \<in> set (EffectivePhaseOrder (oCfg o1))" if "p \<in> set (PhaseToggleGroup ph)"
  proof -
    obtain q where q: "q \<in> set (EffectivePhaseOrder (oCfg o1))" "q \<in> set (PhaseToggleGroup ph)"
      using plan by (auto simp: list_ex_iff)
    with that have "p \<in> set (PhaseToggleGroup q)" by (simp add: toggle_group_sym)
    from Effective_group_closed [OF this] q(1) show ?thesis by blast
  qed
  moreover note toggled_selected [OF assms(1) new_def disabled_group_closed [OF assms(1) ds_def], where p = p]
  ultimately have "PhaseSelected cfg2 p =
      (if p \<in> set (PhaseToggleGroup ph) then en else PhaseSelected (oCfg o1) p)"
    unfolding cfg2_def by (auto simp: ds_def PhaseSelected_iff PhaseDisabled_def)
  moreover have "config_normal cfg2" by (simp add: cfg2_def ok_intros)
  moreover have "oSent o2 = oSent o1 @ Broadcast (config_envelope cfg2) #
      (if oConfigPath o1 = [] then [] else [SaveConfig (oConfigPath o1) cfg2])"
    by (simp add: o2 publish_config_def send_def Let_def)
  ultimately show ?thesis using active cfg by blast
qed

text \<open>The configuration of the example: every optional phase off, the create group left.\<close>

definition last_group_config :: Config where [go_eval]:
  "last_group_config =
    DefaultConfig\<lparr>StartupCommand := [], GitCloneURL := [], UntarURL := [],
      DisabledPhases := [PhaseWriteBW, PhaseReadBW, PhaseReadWrite, PhaseRIOPS, PhaseFinalDelete]\<rparr>"

definition last_group_state :: Orchestrator where [go_eval]:
  "last_group_state = NewOrchestrator (Loaded last_group_config) ''c.json'' ''ctl'' NewRegistry NewMetricsStore"

lemma SetPhaseEnabled_switches_group_witness:
  "PhaseSelected (oCfg (snd (SetPhaseEnabled PhaseRIOPS True last_group_state))) PhaseRIOPS"
proof -
  have "config_normal (oCfg last_group_state)"
    by (simp add: last_group_state_def NewOrchestrator_def Let_def ok_intros)
  moreover have "fst (SetPhaseEnabled PhaseRIOPS True last_group_state) = None" by code_simp
  then have "SetPhaseEnabled PhaseRIOPS True last_group_state =
      (None, snd (SetPhaseEnabled PhaseRIOPS True last_group_state))"
    by (simp add: prod_eq_iff)
  ultimately show ?thesis
    using SetPhaseEnabled_switches_group
      [of last_group_state PhaseRIOPS True "snd (SetPhaseEnabled PhaseRIOPS True last_group_state)" PhaseRIOPS]
    by simp
qed

text \<open>
  A refused request to disable the last phases left changes the stored configuration all the
  same: with only the create group enabled, disabling it returns the error that one phase must
  remain, and afterwards create and delete are disabled and random I/O and the final delete are
  enabled, without a broadcast. The slice of the copy is cut to length 0 and appended to, which
  writes into the array of the stored one.
\<close>

theorem refused_toggle_changes_plan:
  "fst (SetPhaseEnabled PhaseCreate False last_group_state) = Some ErrNoPhaseLeft \<and>
   ActivePhaseOrder (oCfg last_group_state) = [PhaseCreate, PhaseDelete] \<and>
   ActivePhaseOrder (oCfg (snd (SetPhaseEnabled PhaseCreate False last_group_state))) =
     [PhaseRIOPS, PhaseFinalDelete] \<and>
   oSent (snd (SetPhaseEnabled PhaseCreate False last_group_state)) = oSent last_group_state"
proof (intro conjI)
  show "fst (SetPhaseEnabled PhaseCreate False last_group_state) = Some ErrNoPhaseLeft" by code_simp
  show "ActivePhaseOrder (oCfg last_group_state) = [PhaseCreate, PhaseDelete]" by code_simp
  show "ActivePhaseOrder (oCfg (snd (SetPhaseEnabled PhaseCreate False last_group_state))) =
      [PhaseRIOPS, PhaseFinalDelete]" by code_simp
  show "oSent (snd (SetPhaseEnabled PhaseCreate False last_group_state)) = oSent last_group_state"
    by (simp add: SetPhaseEnabled_def Let_def publish_config_def) code_simp
qed

section \<open>Storing a configuration\<close>

text \<open>What every stored configuration satisfies.\<close>

definition config_valid :: "Config \<Rightarrow> bool" where
  "config_valid c \<longleftrightarrow>
    TestName c \<noteq> [] \<and> Prefixes c \<noteq> [] \<and> 0 < FileCreationRate c \<and> 0 < FileDeletionRate c \<and>
    0 < FileWriteBandwidth c \<and> 0 < FileReadBandwidth c \<and> 0 \<le> RandomWriteIOPS c \<and>
    0 \<le> RandomReadIOPS c \<and> 1 \<le> PhaseStepSeconds c \<and> TrimSpace (PackageURL c) \<noteq> [] \<and>
    config_normal c \<and> Second \<le> PhaseStepDuration c"

lemma Normalize_fields [simp]:
  "TestName (NormalizeDisabledPhases c) = TestName c" "Prefixes (NormalizeDisabledPhases c) = Prefixes c"
  "FileCreationRate (NormalizeDisabledPhases c) = FileCreationRate c"
  "FileDeletionRate (NormalizeDisabledPhases c) = FileDeletionRate c"
  "FileWriteBandwidth (NormalizeDisabledPhases c) = FileWriteBandwidth c"
  "FileReadBandwidth (NormalizeDisabledPhases c) = FileReadBandwidth c"
  "RandomWriteIOPS (NormalizeDisabledPhases c) = RandomWriteIOPS c"
  "RandomReadIOPS (NormalizeDisabledPhases c) = RandomReadIOPS c"
  "PhaseStepSeconds (NormalizeDisabledPhases c) = PhaseStepSeconds c"
  "PackageURL (NormalizeDisabledPhases c) = PackageURL c"
  by (simp_all add: NormalizeDisabledPhases_def)

lemma DefaultPackageURL_trimmed: "TrimSpace DefaultPackageURL \<noteq> []"
  by code_simp

lemma step_duration_second: "1 \<le> PhaseStepSeconds c \<Longrightarrow> Second \<le> PhaseStepDuration c"
  using trunc_mono_nonneg [of "of_int Second" "PhaseStepSeconds c * 1000000000"]
  by (simp add: PhaseStepDuration_def secs_to_duration_def Second_def trunc_def)

text \<open>
  C27. \<open>SetConfig\<close> stores a configuration only while no run is on, and what it stores is valid:
  names and prefixes present, positive rates, steps of at least a second, normalised toggles. The
  test name, the prefixes and the rates are those of the request; every client gets its prefix
  anew; and exactly the stored configuration is broadcast and saved.
\<close>

theorem SetConfig_stores_valid:
  assumes "SetConfig cfg o1 = Inr o2"
  shows "\<not> oRunning o1 \<and> config_valid (oCfg o2) \<and> TestName (oCfg o2) = TestName cfg \<and>
    Prefixes (oCfg o2) = Prefixes cfg \<and> FileCreationRate (oCfg o2) = FileCreationRate cfg \<and>
    oRegistry o2 = ReassignPrefixes (Prefixes cfg) (oRegistry o1) \<and>
    oSent o2 = oSent o1 @ Broadcast (config_envelope (oCfg o2)) #
      (if oConfigPath o1 = [] then [] else [SaveConfig (oConfigPath o1) (oCfg o2)])"
proof -
  define c1 where "c1 = (if PhaseStepSeconds cfg \<le> 0
    then cfg\<lparr>PhaseStepSeconds := Seconds DefaultPhaseStepDuration\<rparr> else cfg)"
  define c2 where "c2 = (if TrimSpace (PackageURL c1) = [] then c1\<lparr>PackageURL := DefaultPackageURL\<rparr> else c1)"
  have o2: "o2 = publish_config (NormalizeDisabledPhases c2)
      (o1\<lparr>oCfg := NormalizeDisabledPhases c2, oRegistry := ReassignPrefixes (Prefixes (NormalizeDisabledPhases c2)) (oRegistry o1)\<rparr>)"
    and checks: "\<not> oRunning o1" "TestName cfg \<noteq> []" "Prefixes cfg \<noteq> []" "0 < FileCreationRate cfg"
      "0 < FileDeletionRate cfg" "0 < FileWriteBandwidth cfg" "0 < FileReadBandwidth cfg"
      "0 \<le> RandomWriteIOPS cfg" "0 \<le> RandomReadIOPS cfg" "1 \<le> PhaseStepSeconds c1"
    using assms unfolding SetConfig_def Let_def c1_def [symmetric] c2_def [symmetric]
    by (simp_all split: if_split_asm)
  have same: "TestName c2 = TestName cfg" "Prefixes c2 = Prefixes cfg"
    "FileCreationRate c2 = FileCreationRate cfg" "FileDeletionRate c2 = FileDeletionRate cfg"
    "FileWriteBandwidth c2 = FileWriteBandwidth cfg" "FileReadBandwidth c2 = FileReadBandwidth cfg"
    "RandomWriteIOPS c2 = RandomWriteIOPS cfg" "RandomReadIOPS c2 = RandomReadIOPS cfg"
    "PhaseStepSeconds c2 = PhaseStepSeconds c1" "TrimSpace (PackageURL c2) \<noteq> []"
    by (simp_all add: c2_def c1_def DefaultPackageURL_trimmed)
  have "Second \<le> PhaseStepDuration (NormalizeDisabledPhases c2)"
    using checks same by (intro step_duration_second) simp
  then have "config_valid (NormalizeDisabledPhases c2)"
    using checks same by (simp add: config_valid_def ok_intros)
  then show ?thesis using checks(1) same
    by (simp add: o2 publish_config_def send_def Let_def)
qed

lemma SetConfig_stores_valid_witness:
  "\<exists>o2. SetConfig DefaultConfig last_group_state = Inr o2 \<and> config_valid (oCfg o2)"
proof -
  have "case SetConfig DefaultConfig last_group_state of Inl e \<Rightarrow> False | Inr o2 \<Rightarrow> True" by code_simp
  then obtain o2 where "SetConfig DefaultConfig last_group_state = Inr o2" by (auto split: sum.splits)
  with SetConfig_stores_valid [OF this] show ?thesis by blast
qed


section \<open>Participants\<close>

lemma set_add_simps [simp]: "set (set_add x xs) = insert x (set xs)" "distinct xs \<Longrightarrow> distinct (set_add x xs)"
  by (auto simp: set_add_def)

lemma set_delete_simps [simp]: "set (set_delete x xs) = set xs - {x}" "distinct xs \<Longrightarrow> distinct (set_delete x xs)"
  by (auto simp: set_delete_def)

lemma known_ids_fold:
  "set (foldl (\<lambda>next cid. let cid = TrimSpace cid
       in if cid = [] then next else if cid \<notin> set known then next else set_add cid next) sel ids) =
     set sel \<union> (TrimSpace ` set ids \<inter> set known - {[]}) \<and>
   (distinct sel \<longrightarrow> distinct (foldl (\<lambda>next cid. let cid = TrimSpace cid
       in if cid = [] then next else if cid \<notin> set known then next else set_add cid next) sel ids))"
  by (induction ids arbitrary: sel) (auto simp: Let_def)

lemma set_known_ids: "set (known_ids known ids) = TrimSpace ` set ids \<inter> set known - {[]}"
  and distinct_known_ids: "distinct (known_ids known ids)"
  using known_ids_fold [of known "[]" ids] by (simp_all add: known_ids_def)

lemma set_add_known: "set (add_known known ids sel) = set sel \<union> (TrimSpace ` set ids \<inter> set known)"
  unfolding add_known_def by (induction ids arbitrary: sel) (auto simp: Let_def)

lemma set_remove_ids: "set (remove_ids ids sel) = set sel - TrimSpace ` set ids"
  unfolding remove_ids_def by (induction ids arbitrary: sel) auto

lemma distinct_add_known: "distinct sel \<Longrightarrow> distinct (add_known known ids sel)"
  unfolding add_known_def by (induction ids arbitrary: sel) (auto simp: Let_def)

lemma distinct_remove_ids: "distinct sel \<Longrightarrow> distinct (remove_ids ids sel)"
  unfolding remove_ids_def by (induction ids arbitrary: sel) auto

text \<open>The set an update asks for, from the mode and the four lists.\<close>

definition asked_selection :: "ParticipantUpdate \<Rightarrow> string set \<Rightarrow> string list \<Rightarrow> string set \<Rightarrow> string set" where
  "asked_selection u known sorted_ids old =
    (let mode = ToLower (TrimSpace (puMode u))
     in if mode = ''all'' then known
        else if mode = ''none'' then {}
        else if mode = ''first_n'' then set (take (nat (puN u)) sorted_ids)
        else if puAdd u \<noteq> [] \<or> puRemove u \<noteq> []
        then (old \<union> (TrimSpace ` set (puAdd u) \<inter> known)) - TrimSpace ` set (puRemove u)
        else TrimSpace ` set (puClientIDs u) \<inter> known - {[]})"

lemma clamp_take: "take (nat (if (if n < 0 then 0 else n) > int (length xs) then int (length xs)
    else (if n < 0 then 0 else n))) xs = take (nat n) xs"
  by (auto simp: nat_le_iff)

text \<open>
  A selection of participants is changed only while no run is on, to exactly the set that was
  asked for (everybody, nobody, the first \<open>n\<close> by hostname, the selection with clients added and
  removed, or a list of known clients), keeps no duplicates, and touches nothing else.
\<close>

theorem UpdateParticipants_selects:
  assumes "UpdateParticipants u o1 = Inr o2" "registry_ok (oRegistry o1)" "distinct (oSelectedIDs o1)"
  shows "\<not> oRunning o1 \<and>
    set (oSelectedIDs o2) =
      asked_selection u (set (IDs (oRegistry o1))) (IDsSorted (oRegistry o1)) (set (oSelectedIDs o1)) \<and>
    distinct (oSelectedIDs o2) \<and>
    o2 = o1\<lparr>oSelectedIDs := oSelectedIDs o2, oAutoSelectNew := oAutoSelectNew o2\<rparr>"
proof -
  note dist = distinct_IDs [OF assms(2)] distinct_take [OF distinct_IDsSorted [OF assms(2)]] distinct_known_ids
    distinct_remove_ids [OF distinct_add_known [OF assms(3)]]
  show ?thesis
    using assms(1) dist
    unfolding UpdateParticipants_def Let_def clamp_take asked_selection_def length_greater_0_conv
    by (auto simp: set_known_ids set_add_known set_remove_ids split: if_splits)
qed

lemma UpdateParticipants_selects_witness:
  "\<exists>o2. UpdateParticipants \<lparr>puMode = '' None'', puN = 0, puClientIDs = [], puAdd = [], puRemove = []\<rparr>
     last_group_state = Inr o2 \<and> oSelectedIDs o2 = []"
proof -
  let ?u = "\<lparr>puMode = '' None'', puN = 0, puClientIDs = [], puAdd = [], puRemove = []\<rparr>"
  have ok: "registry_ok (oRegistry last_group_state)" "distinct (oSelectedIDs last_group_state)"
    by (simp_all add: last_group_state_def NewOrchestrator_def Let_def registry_ok_New)
  have mode: "ToLower (TrimSpace '' None'') = ''none''" by code_simp
  have "case UpdateParticipants ?u last_group_state of Inl e \<Rightarrow> False | Inr o2 \<Rightarrow> True" by code_simp
  then obtain o2 where o2: "UpdateParticipants ?u last_group_state = Inr o2" by (auto split: sum.splits)
  from UpdateParticipants_selects [OF o2 ok] have "set (oSelectedIDs o2) = {}"
    by (simp add: asked_selection_def mode)
  with o2 show ?thesis by simp
qed

text \<open>
  A run starts exactly when none is on, a selected client is registered and a phase is
  enabled; its participants are then the selected clients that are registered, the reporting
  interval is the one for their number, and newcomers are no longer selected by themselves.
\<close>

theorem Start_conditions:
  "(\<exists>r. Start now ctx o1 = Inr r) = (\<not> oRunning o1 \<and>
      set (oSelectedIDs o1) \<inter> set (IDs (oRegistry o1)) \<noteq> {} \<and> ActivePhaseOrder (oCfg o1) \<noteq> []) \<and>
   (case Start now ctx o1 of
      Inl e \<Rightarrow> True
    | Inr (o2, as) \<Rightarrow>
        set (oRunClientIDs o2) = set (oSelectedIDs o1) \<inter> set (IDs (oRegistry o1)) \<and>
        oMetricsInterval o2 = MetricsIntervalForClients (int (length (oRunClientIDs o2))) \<and>
        oRunning o2 \<and> \<not> oAutoSelectNew o2 \<and> oFailMessage o2 = [])"
proof -
  have "set (connectedSelectedLocked o1) = set (oSelectedIDs o1) \<inter> set (IDs (oRegistry o1))"
    by (auto simp: connectedSelectedLocked_def)
  moreover have "connectedSelectedLocked o1 = []" if "Count (oRegistry o1) = 0"
    using that by (simp add: connectedSelectedLocked_def Count_def IDs_def)
  moreover have "(connectedSelectedLocked o1 = []) = (set (connectedSelectedLocked o1) = {})" by simp
  ultimately show ?thesis
    by (auto simp: Start_def Let_def)
qed

section \<open>What the snapshot shows\<close>

lemma Snapshot_fields:
  "uiClients (Snapshot now o1) = map (\<lambda>c. c\<lparr>ciSelected := (ciID c \<in> set (case oRunClientSet o1 of
       Some s \<Rightarrow> if oRunning o1 \<and> length s > 0 then s else oSelectedIDs o1 | None \<Rightarrow> oSelectedIDs o1))\<rparr>)
     (ListCapped UIClientLimit (oRegistry o1))"
  "uiClientsShown (Snapshot now o1) = int (length (ListCapped UIClientLimit (oRegistry o1)))"
  "uiClientCount (Snapshot now o1) = Count (oRegistry o1)"
  by (simp_all add: Snapshot_def Let_def)

text \<open>
  The snapshot shows at most 20 clients, and all of them when there are no more; the shown
  clients are registered ones with their records unchanged but for the selection mark, and the
  mark tells whether the client takes part: in the run while one is on, in the next one otherwise.
\<close>

theorem Snapshot_shows_clients:
  assumes "oRunClientSet o1 = (if oRunning o1 then Some (oRunClientIDs o1) else None)"
    and "oRunning o1 \<longrightarrow> oRunClientIDs o1 \<noteq> []"
  shows "uiClientsShown (Snapshot now o1) = min 20 (uiClientCount (Snapshot now o1)) \<and>
    length (uiClients (Snapshot now o1)) = nat (uiClientsShown (Snapshot now o1)) \<and>
    map (\<lambda>c. c\<lparr>ciSelected := False\<rparr>) (uiClients (Snapshot now o1)) =
      map (\<lambda>c. c\<lparr>ciSelected := False\<rparr>) (ListCapped UIClientLimit (oRegistry o1)) \<and>
    list_all (\<lambda>c. ciSelected c =
        (if oRunning o1 then IsParticipant (ciID c) o1 else ciID c \<in> set (oSelectedIDs o1)))
      (uiClients (Snapshot now o1))"
proof -
  have "int (length (ListCapped UIClientLimit (oRegistry o1))) = min 20 (Count (oRegistry o1))"
    by (auto simp: ListCapped_def Let_def UIClientLimit_def Count_def List_clients_def)
  then show ?thesis
    using assms
    by (auto simp: Snapshot_fields list_all_iff IsParticipant_def in_run_set_def)
qed

lemma Snapshot_shows_clients_witness: "uiClientsShown (Snapshot 5 last_group_state) = 0"
proof -
  have "oRunClientSet last_group_state = (if oRunning last_group_state then Some (oRunClientIDs last_group_state) else None)"
    "oRunning last_group_state \<longrightarrow> oRunClientIDs last_group_state \<noteq> []"
    "uiClientCount (Snapshot 5 last_group_state) = 0"
    by (simp_all add: Snapshot_fields last_group_state_def NewOrchestrator_def Let_def Count_def NewRegistry_def)
  with Snapshot_shows_clients [of last_group_state 5] show ?thesis by simp
qed

end
