(* ===== verification/UIPush.thy ===== *)
theory UIPush
  imports Prelude
begin

text \<open>
  When the controller pushes its state to the browsers (\<open>requestUI\<close> and \<open>flushUI\<close> in
  \<^verbatim>\<open>internal/controller/server.go\<close>). A request marks the state dirty and starts the flush
  goroutine unless one is at work or the last push is too recent. The goroutine is a program counter;
  each part of it that holds the lock is one step. \<open>uiPushes\<close> are the times of all pushes so far,
  the latest first.
\<close>

section \<open>State and steps\<close>

datatype flush_pc = NoFlush | FlushTop | FlushWrite | FlushCheck | FlushSleep time

record ui_state =
  uiPending :: bool
  uiFlushing :: bool
  lastUIPush :: time
  uiFlush :: flush_pc
  uiPushes :: "time list"

definition ui_init :: ui_state where [go_eval]:
  "ui_init = \<lparr>uiPending = False, uiFlushing = False, lastUIPush = zero_time, uiFlush = NoFlush, uiPushes = []\<rparr>"

definition requestUI :: "time \<Rightarrow> ui_state \<Rightarrow> ui_state" where [go_eval]:
  "requestUI now u =
    (let u = u\<lparr>uiPending := True\<rparr>
     in if uiFlushing u then u
        else if now - lastUIPush u < 500 * Millisecond then u
        else u\<lparr>uiFlushing := True, uiFlush := FlushTop\<rparr>)"

text \<open>\<open>FlushWrite\<close> is the push itself, outside the lock.\<close>

definition flush_step :: "time \<Rightarrow> ui_state \<Rightarrow> ui_state" where [go_eval]:
  "flush_step now u =
    (case uiFlush u of
       NoFlush \<Rightarrow> u
     | FlushTop \<Rightarrow>
         if \<not> uiPending u then u\<lparr>uiFlushing := False, uiFlush := NoFlush\<rparr>
         else u\<lparr>uiPending := False, lastUIPush := now, uiPushes := now # uiPushes u, uiFlush := FlushWrite\<rparr>
     | FlushWrite \<Rightarrow> u\<lparr>uiFlush := FlushCheck\<rparr>
     | FlushCheck \<Rightarrow>
         if uiPending u then u\<lparr>uiFlush := FlushSleep (now + 500 * Millisecond)\<rparr>
         else u\<lparr>uiFlushing := False, uiFlush := NoFlush\<rparr>
     | FlushSleep until \<Rightarrow> if now < until then u else u\<lparr>uiFlush := FlushTop\<rparr>)"

text \<open>A history: requests (\<open>True\<close>) and turns of the goroutine with their times.\<close>

definition ui_step :: "ui_state \<Rightarrow> time \<times> bool \<Rightarrow> ui_state" where [go_eval]:
  "ui_step u te = (if snd te then requestUI (fst te) u else flush_step (fst te) u)"

definition ui_run :: "(time \<times> bool) list \<Rightarrow> ui_state" where [go_eval]:
  "ui_run es = foldl ui_step ui_init es"

section \<open>The pace of the pushes\<close>

text \<open>
  \<open>now\<close> is the time of the last step. While the goroutine is about to push, enough time has passed
  since the last push or will have when it wakes.
\<close>

definition ui_ok :: "time \<Rightarrow> ui_state \<Rightarrow> bool" where
  "ui_ok now u \<longleftrightarrow>
    sorted_wrt (\<lambda>later earlier. earlier + 500 * Millisecond \<le> later) (uiPushes u) \<and>
    (uiPushes u \<noteq> [] \<longrightarrow> hd (uiPushes u) = lastUIPush u \<and> lastUIPush u \<le> now) \<and>
    (uiFlushing u \<longleftrightarrow> uiFlush u \<noteq> NoFlush) \<and>
    (case uiFlush u of
       FlushTop \<Rightarrow> uiPending u \<and> (uiPushes u \<noteq> [] \<longrightarrow> lastUIPush u + 500 * Millisecond \<le> now)
     | FlushSleep until \<Rightarrow> uiPending u \<and> until \<le> now + 500 * Millisecond \<and>
         (uiPushes u \<noteq> [] \<longrightarrow> lastUIPush u + 500 * Millisecond \<le> until)
     | _ \<Rightarrow> True)"

lemma ui_ok_mono: "ui_ok t u \<Longrightarrow> t \<le> now \<Longrightarrow> ui_ok now u"
  by (auto simp: ui_ok_def split: flush_pc.splits)

lemma ui_ok_request: "ui_ok now u \<Longrightarrow> ui_ok now (requestUI now u)"
  by (auto simp: ui_ok_def requestUI_def Let_def split: flush_pc.splits)

text \<open>The newest push is the head, so one comparison with it keeps all of them apart.\<close>

lemma ui_ok_push:
  assumes "sorted_wrt (\<lambda>later earlier. earlier + 500 * Millisecond \<le> later) ps"
    and "ps \<noteq> [] \<longrightarrow> hd ps + 500 * Millisecond \<le> now"
  shows "sorted_wrt (\<lambda>later earlier. earlier + 500 * Millisecond \<le> later) (now # ps)"
proof (cases ps)
  case (Cons p qs)
  have "q + 500 * Millisecond \<le> now" if "q \<in> set qs" for q
    using assms that by (fastforce simp: Cons Millisecond_def)
  with assms show ?thesis by (simp add: Cons)
qed simp

lemma ui_ok_flush:
  assumes "ui_ok now u"
  shows "ui_ok now (flush_step now u)"
proof (cases "uiFlush u = FlushTop \<and> uiPending u")
  case True
  then show ?thesis
    using assms ui_ok_push [of "uiPushes u" now] by (simp add: ui_ok_def flush_step_def)
next
  case False
  with assms show ?thesis
    by (cases "uiFlush u") (auto simp: ui_ok_def flush_step_def split: if_splits)
qed

lemma ui_ok_run: "sorted (map fst es) \<Longrightarrow> \<forall>te \<in> set es. fst te \<le> now \<Longrightarrow> ui_ok now (ui_run es)"
proof (induction es arbitrary: now rule: rev_induct)
  case Nil
  show ?case by (simp add: ui_run_def ui_init_def ui_ok_def)
next
  case (snoc te es)
  have "ui_ok (fst te) (ui_run es)" using snoc by (simp add: sorted_append)
  then have "ui_ok (fst te) (ui_run (es @ [te]))"
    by (simp add: ui_run_def ui_step_def ui_ok_request ui_ok_flush)
  with snoc.prems show ?case by (auto intro: ui_ok_mono)
qed

text \<open>The turns of the goroutine that lead it from any point to its next push.\<close>

lemma flush_pushes:
  assumes "ui_ok now u" "uiPending u" "uiFlush u \<noteq> NoFlush"
  shows "\<exists>t \<in> set (uiPushes (ui_step (ui_step (ui_step (ui_step u (now, False)) (now, False))
            (now + 500 * Millisecond, False)) (now + 500 * Millisecond, False))). now \<le> t"
  using assms by (cases "uiFlush u") (auto simp: ui_ok_def ui_step_def flush_step_def Millisecond_def)

text \<open>
  C34. The browsers get at most two pushes a second: any two pushes are at least 500 ms apart. And a
  request is served: unless it comes within 500 ms of the last push with no flush at work (then it
  waits for the next request), the goroutine pushes after it, within two turns or after one sleep.
\<close>

theorem pushes_are_paced_and_prompt:
  assumes "sorted (map fst es)" "\<forall>te \<in> set es. fst te \<le> now"
  defines "u \<equiv> ui_run es" and "later \<equiv> now + 500 * Millisecond"
  shows "sorted_wrt (\<lambda>b a. a + 500 * Millisecond \<le> b) (uiPushes u) \<and>
    (uiFlushing u \<or> lastUIPush u + 500 * Millisecond \<le> now \<longrightarrow>
      (\<exists>t \<in> set (uiPushes (ui_run (es @ [(now, True), (now, False), (now, False), (later, False), (later, False)]))).
        now \<le> t))"
proof (intro conjI impI)
  have ok: "ui_ok now u" unfolding u_def by (rule ui_ok_run [OF assms(1,2)])
  then show "sorted_wrt (\<lambda>b a. a + 500 * Millisecond \<le> b) (uiPushes u)" by (simp add: ui_ok_def)
  assume "uiFlushing u \<or> lastUIPush u + 500 * Millisecond \<le> now"
  then have "uiPending (requestUI now u)" "uiFlush (requestUI now u) \<noteq> NoFlush"
    using ok by (auto simp: requestUI_def Let_def ui_ok_def)
  from flush_pushes [OF ui_ok_request [OF ok] this]
  show "\<exists>t \<in> set (uiPushes (ui_run (es @ [(now, True), (now, False), (now, False), (later, False), (later, False)]))).
      now \<le> t"
    by (simp add: ui_run_def u_def later_def ui_step_def)
qed

lemma pushes_are_paced_and_prompt_witness:
  "\<exists>t \<in> set (uiPushes (ui_run [(0, True), (1, False), (2, True), (2, True), (2, False), (2, False),
      (2 + 500 * Millisecond, False), (2 + 500 * Millisecond, False)])). 2 \<le> t"
proof -
  have "uiFlushing (ui_run [(0, True), (1, False), (2, True)])" by code_simp
  then show ?thesis
    using pushes_are_paced_and_prompt [of "[(0, True), (1, False), (2, True)]" 2] by simp
qed

end
