(* ===== verification/Server.thy ===== *)
theory Server
  imports RunSystem Settings Queues UIPush
begin

text \<open>
  The controller's HTTP and websocket endpoint (\<^verbatim>\<open>internal/controller/server.go\<close>) around
  the orchestrator of theory RunSystem. Each connection of a client has a handler; what a handler, a
  deferred function or the background loop does between two locks is one step, so that they
  interleave as the goroutines do. A \<open>wsClient\<close> is an object with an address, a connection is a
  number. A message waits in the queue as the envelope, before its encoding.
\<close>

section \<open>State\<close>

record wsClient =
  wcID :: string
  wcConn :: nat
  wcOut :: "Envelope list"
  wcDone :: bool
  wcWriter :: bool

text \<open>What a handler still has to do: the parts of a registration, and of the deferred function.\<close>

datatype handler_act =
    RegUpsert string string
  | RegSelect
  | RegInstall
  | RegWelcome string Config
  | EndTeardown
  | EndRemoved string
  | EndUI
  | EndClose

record handler =
  hID :: string
  hWc :: "nat option"
  hTodo :: "handler_act list"

datatype prune_act = PruneDrop ClientInfo | PruneRemoved ClientInfo | PruneUI

record Server =
  svSys :: System
  svWs :: "wsClient list"
  svClients :: "(string \<times> nat) list"
  svHandlers :: "(nat \<times> handler) list"
  svClosed :: "nat list"
  svPrune :: "prune_act list"
  svUI :: ui_state
  svSubs :: "nat list"
  svShown :: "(nat \<times> UIState) list"
  svNow :: time

definition NewServer :: "load_result \<Rightarrow> string \<Rightarrow> string \<Rightarrow> time \<Rightarrow> Server" where [go_eval]:
  "NewServer loaded path host now =
    \<lparr>svSys = sys_init loaded path host now, svWs = [], svClients = [], svHandlers = [], svClosed = [],
     svPrune = [], svUI = ui_init, svSubs = [], svShown = [], svNow = now\<rparr>"

abbreviation orch :: "Server \<Rightarrow> Orchestrator" where
  "orch s \<equiv> sOrch (svSys s)"

section \<open>Clients and their queues\<close>

definition on_ws :: "(wsClient \<Rightarrow> wsClient) \<Rightarrow> nat \<Rightarrow> Server \<Rightarrow> Server" where [go_eval]:
  "on_ws f i s = s\<lparr>svWs := (svWs s)[i := f (svWs s ! i)]\<rparr>"

definition newWSClient :: "string \<Rightarrow> nat \<Rightarrow> wsClient" where [go_eval]:
  "newWSClient cid conn = \<lparr>wcID = cid, wcConn = conn, wcOut = [], wcDone = False, wcWriter = True\<rparr>"

definition wc_stop :: "nat \<Rightarrow> Server \<Rightarrow> Server" where [go_eval]:
  "wc_stop = on_ws (\<lambda>c. c\<lparr>wcDone := True\<rparr>)"

definition wc_send :: "Envelope \<Rightarrow> nat \<Rightarrow> Server \<Rightarrow> Server" where [go_eval]:
  "wc_send env = on_ws (\<lambda>c. c\<lparr>wcOut := enqueue env (wcOut c)\<rparr>)"

definition close_conn :: "nat \<Rightarrow> Server \<Rightarrow> Server" where [go_eval]:
  "close_conn conn s = s\<lparr>svClosed := conn # svClosed s\<rparr>"

text \<open>
  The turns of \<open>writeLoop\<close> while the writer lives: it takes the oldest message, and after a failed
  write closes the connection and is gone; or it sees that the client is stopped and returns. A
  stopped writer may still take a message that waits: \<open>select\<close> chooses.
\<close>

definition write_turn :: "bool \<Rightarrow> nat \<Rightarrow> Server \<Rightarrow> Server" where [go_eval]:
  "write_turn ok i s =
    (if i < length (svWs s) \<and> wcWriter (svWs s ! i) \<and> wcOut (svWs s ! i) \<noteq> [] then
       let s = on_ws (\<lambda>c. c\<lparr>wcOut := tl (wcOut c), wcWriter := ok\<rparr>) i s
       in if ok then s else close_conn (wcConn (svWs s ! i)) s
     else s)"

definition write_end :: "nat \<Rightarrow> Server \<Rightarrow> Server" where [go_eval]:
  "write_end i s =
    (if i < length (svWs s) \<and> wcDone (svWs s ! i) then on_ws (\<lambda>c. c\<lparr>wcWriter := False\<rparr>) i s else s)"

definition server_Broadcast :: "Envelope \<Rightarrow> Server \<Rightarrow> Server" where [go_eval]:
  "server_Broadcast env s = fold (wc_send env) (map snd (svClients s)) s"

definition server_BroadcastTo :: "string list \<Rightarrow> Envelope \<Rightarrow> Server \<Rightarrow> Server" where [go_eval]:
  "server_BroadcastTo ids env s = fold (wc_send env) (List.map_filter (map_of (svClients s)) ids) s"

definition SendTo :: "string \<Rightarrow> Envelope \<Rightarrow> Server \<Rightarrow> Server" where [go_eval]:
  "SendTo cid env s = (case map_of (svClients s) cid of None \<Rightarrow> s | Some i \<Rightarrow> wc_send env i s)"

section \<open>The orchestrator behind the server\<close>

text \<open>The orchestrator broadcasts through the server: what a step sends goes into the queues.\<close>

fun deliver :: "effect \<Rightarrow> Server \<Rightarrow> Server" where
  "deliver (Broadcast env) s = server_Broadcast env s"
| "deliver (BroadcastTo ids env) s = server_BroadcastTo ids env s"
| "deliver _ s = s"

definition on_system :: "time \<Rightarrow> event \<Rightarrow> Server \<Rightarrow> Server" where [go_eval]:
  "on_system now e s =
    (let sys = sys_step now e (svSys s);
         new = drop (length (oSent (orch s))) (oSent (sOrch sys))
     in fold deliver new (s\<lparr>svSys := sys\<rparr>))"

definition on_registry :: "time \<Rightarrow> (Registry \<Rightarrow> Registry) \<Rightarrow> Server \<Rightarrow> Server" where [go_eval]:
  "on_registry now f s = on_system now (EvRegistry (f (oRegistry (orch s)))) s"

definition poke_ui :: "time \<Rightarrow> Server \<Rightarrow> Server" where [go_eval]:
  "poke_ui now s = s\<lparr>svUI := requestUI now (svUI s)\<rparr>"

section \<open>Messages of a client\<close>

definition set_handler :: "nat \<Rightarrow> handler \<Rightarrow> Server \<Rightarrow> Server" where [go_eval]:
  "set_handler conn h s = s\<lparr>svHandlers := AList.update conn h (svHandlers s)\<rparr>"

text \<open>\<open>uuid\<close> is the fresh id for a client that has none. The steps of the registration follow.\<close>

definition on_register :: "string \<Rightarrow> RegisterMsg \<Rightarrow> nat \<Rightarrow> handler \<Rightarrow> Server \<Rightarrow> Server" where [go_eval]:
  "on_register uuid m conn h s =
    (let cid = (if rmID m = [] then uuid else rmID m);
         cfg = GetConfig (orch s);
         p = SelectPrefix (rmHostname m) (Prefixes cfg)
     in set_handler conn
          (h\<lparr>hID := cid, hTodo := [RegUpsert (rmHostname m) p, RegSelect, RegInstall, RegWelcome p cfg]\<rparr>) s)"

definition on_metrics :: "time \<Rightarrow> MetricSample \<Rightarrow> handler \<Rightarrow> Server \<Rightarrow> Server" where [go_eval]:
  "on_metrics now m h s =
    (let m = (if msTimestamp m = zero_time then m\<lparr>msTimestamp := now\<rparr> else m);
         cid = (if hID h = [] then msClientID m else hID h);
         m = (if hID h = [] then m else m\<lparr>msClientID := cid\<rparr>)
     in if cid \<noteq> [] \<and> IsParticipant cid (orch s) then on_system now (EvSample m) s else s)"

definition on_heartbeat :: "time \<Rightarrow> StatusMsg option \<Rightarrow> handler \<Rightarrow> Server \<Rightarrow> Server" where [go_eval]:
  "on_heartbeat now st h s =
    (if hID h \<noteq> [] then on_registry now (Touch now (hID h)) s
     else case st of None \<Rightarrow> s | Some m \<Rightarrow> on_registry now (Touch now (smClientID m)) s)"

definition on_status :: "time \<Rightarrow> StatusMsg \<Rightarrow> Server \<Rightarrow> Server" where [go_eval]:
  "on_status now m s =
    (let s = on_registry now (SetStatus now (smClientID m) (smStatus m) (smPhase m)) s;
         s = (if sint (smFiles m) > 0 then on_system now (EvFiles (smFiles m)) s else s)
     in poke_ui now s)"

definition client_message :: "time \<Rightarrow> string \<Rightarrow> Envelope \<Rightarrow> nat \<Rightarrow> handler \<Rightarrow> Server \<Rightarrow> Server" where [go_eval]:
  "client_message now uuid env conn h s =
    (if envType env = ''register'' then
       (case envRegister env of None \<Rightarrow> s | Some m \<Rightarrow> on_register uuid m conn h s)
     else if envType env = ''metrics'' then
       (case envMetrics env of None \<Rightarrow> s | Some m \<Rightarrow> on_metrics now m h s)
     else if envType env = ''heartbeat'' then on_heartbeat now (envStatus env) h s
     else if envType env = ''status'' then (case envStatus env of None \<Rightarrow> s | Some m \<Rightarrow> on_status now m s)
     else s)"

section \<open>A handler's steps\<close>

definition welcome_envelope :: "string \<Rightarrow> string \<Rightarrow> Config \<Rightarrow> int \<Rightarrow> Envelope" where [go_eval]:
  "welcome_envelope cid p cfg n =
    zero_Envelope\<lparr>envType := ''welcome'',
      envWelcome := Some \<lparr>wmClientID = cid, wmPrefix = p, wmConfig = cfg,
        wmMetricsIntervalSec = Seconds (MetricsIntervalForClients n)\<rparr>\<rparr>"

text \<open>The locked part of a registration: an earlier connection of the same client is closed.\<close>

definition install_client :: "nat \<Rightarrow> handler \<Rightarrow> Server \<Rightarrow> Server" where [go_eval]:
  "install_client conn h s =
    (let i = length (svWs s);
         s = s\<lparr>svWs := svWs s @ [newWSClient (hID h) conn]\<rparr>;
         s = (case map_of (svClients s) (hID h) of
                Some j \<Rightarrow>
                  if wcConn (svWs s ! j) \<noteq> conn then close_conn (wcConn (svWs s ! j)) (wc_stop j s) else s
              | None \<Rightarrow> s)
     in set_handler conn (h\<lparr>hWc := Some i\<rparr>) (s\<lparr>svClients := AList.update (hID h) i (svClients s)\<rparr>))"

text \<open>
  The locked part of the deferred function: only the connection that is still the client's own takes
  the client down.
\<close>

definition teardown :: "time \<Rightarrow> nat \<Rightarrow> handler \<Rightarrow> Server \<Rightarrow> Server" where [go_eval]:
  "teardown now conn h s =
    (case map_of (svClients s) (hID h) of
       None \<Rightarrow> s
     | Some i \<Rightarrow>
         if wcConn (svWs s ! i) \<noteq> conn then s
         else
           let found = Lookup (hID h) (oRegistry (orch s));
               host = (if snd found then ciHostname (fst found) else []);
               s = wc_stop i s;
               s = s\<lparr>svClients := AList.delete (hID h) (svClients s)\<rparr>;
               s = on_registry now (Remove (hID h)) s
           in set_handler conn (h\<lparr>hTodo := EndRemoved host # hTodo h\<rparr>) s)"

text \<open>One step of the handler of a connection; \<open>h\<close> is what is left after the step.\<close>

definition handler_act :: "time \<Rightarrow> nat \<Rightarrow> handler_act \<Rightarrow> handler \<Rightarrow> Server \<Rightarrow> Server" where [go_eval]:
  "handler_act now conn act h s =
    (let s = set_handler conn h s
     in case act of
          RegUpsert host p \<Rightarrow> on_registry now (\<lambda>r. fst (Upsert now (hID h) host p r)) s
        | RegSelect \<Rightarrow> on_system now (EvRegistered (hID h)) s
        | RegInstall \<Rightarrow> install_client conn h s
        | RegWelcome p cfg \<Rightarrow>
            let env = welcome_envelope (hID h) p cfg (Count (oRegistry (orch s)))
            in poke_ui now (case hWc h of None \<Rightarrow> s | Some i \<Rightarrow> wc_send env i s)
        | EndTeardown \<Rightarrow> teardown now conn h s
        | EndRemoved host \<Rightarrow> on_system now (EvRemoved (hID h) host) s
        | EndUI \<Rightarrow> poke_ui now s
        | EndClose \<Rightarrow> close_conn conn (s\<lparr>svHandlers := AList.delete conn (svHandlers s)\<rparr>))"

definition handler_step :: "time \<Rightarrow> nat \<Rightarrow> Server \<Rightarrow> Server" where [go_eval]:
  "handler_step now conn s =
    (case map_of (svHandlers s) conn of
       None \<Rightarrow> s
     | Some h \<Rightarrow> (case hTodo h of [] \<Rightarrow> s | act # rest \<Rightarrow> handler_act now conn act (h\<lparr>hTodo := rest\<rparr>) s))"

text \<open>A handler reads when it has nothing left to do; a failed read leads to the deferred function.\<close>

definition got_message :: "time \<Rightarrow> string \<Rightarrow> nat \<Rightarrow> Envelope \<Rightarrow> Server \<Rightarrow> Server" where [go_eval]:
  "got_message now uuid conn env s =
    (case map_of (svHandlers s) conn of
       None \<Rightarrow> s
     | Some h \<Rightarrow> if hTodo h = [] then client_message now uuid env conn h s else s)"

definition read_failed :: "nat \<Rightarrow> Server \<Rightarrow> Server" where [go_eval]:
  "read_failed conn s =
    (case map_of (svHandlers s) conn of
       None \<Rightarrow> s
     | Some h \<Rightarrow>
         if hTodo h \<noteq> [] then s
         else set_handler conn
           (h\<lparr>hTodo := (if hID h = [] then [EndClose] else [EndTeardown, EndUI, EndClose])\<rparr>) s)"

definition got_pong :: "time \<Rightarrow> nat \<Rightarrow> Server \<Rightarrow> Server" where [go_eval]:
  "got_pong now conn s =
    (case map_of (svHandlers s) conn of
       None \<Rightarrow> s
     | Some h \<Rightarrow> if hTodo h = [] \<and> hID h \<noteq> [] then on_registry now (Touch now (hID h)) s else s)"

text \<open>A ping is answered while reading: \<open>ok\<close> is the outcome of the answer, whose error ends the reading.\<close>

definition got_ping :: "time \<Rightarrow> bool \<Rightarrow> nat \<Rightarrow> Server \<Rightarrow> Server" where [go_eval]:
  "got_ping now ok conn s =
    (case map_of (svHandlers s) conn of
       None \<Rightarrow> s
     | Some h \<Rightarrow>
         if hTodo h \<noteq> [] then s
         else
           let s = (if hID h \<noteq> [] then on_registry now (Touch now (hID h)) s else s)
           in if ok then s else read_failed conn s)"

text \<open>The server's own ping, once the client is installed; a failure closes the connection.\<close>

definition ping_turn :: "bool \<Rightarrow> nat \<Rightarrow> Server \<Rightarrow> Server" where [go_eval]:
  "ping_turn ok conn s =
    (case map_of (svHandlers s) conn of
       None \<Rightarrow> s
     | Some h \<Rightarrow> if hWc h = None \<or> ok then s else close_conn conn s)"

definition connect :: "nat \<Rightarrow> Server \<Rightarrow> Server" where [go_eval]:
  "connect conn s =
    (if conn \<in> fst ` set (svHandlers s) \<or> conn \<in> set (svClosed s) then s
     else set_handler conn \<lparr>hID = [], hWc = None, hTodo = []\<rparr> s)"

section \<open>Background\<close>

text \<open>The pruning loop: a tick takes the stale clients from the registry, then each is dropped.\<close>

definition prune_tick :: "time \<Rightarrow> Server \<Rightarrow> Server" where [go_eval]:
  "prune_tick now s =
    (if svPrune s \<noteq> [] then s
     else
       let gone = snd (Prune now ClientStaleAfter (oRegistry (orch s)));
           s = on_registry now (\<lambda>r. fst (Prune now ClientStaleAfter r)) s
       in s\<lparr>svPrune := concat (map (\<lambda>c. [PruneDrop c, PruneRemoved c]) gone) @ [PruneUI]\<rparr>)"

definition drop_client :: "string \<Rightarrow> Server \<Rightarrow> Server" where [go_eval]:
  "drop_client cid s =
    (case map_of (svClients s) cid of
       None \<Rightarrow> s
     | Some i \<Rightarrow>
         let s = close_conn (wcConn (svWs s ! i)) (wc_stop i s)
         in s\<lparr>svClients := AList.delete cid (svClients s)\<rparr>)"

definition prune_step :: "time \<Rightarrow> Server \<Rightarrow> Server" where [go_eval]:
  "prune_step now s =
    (case svPrune s of
       [] \<Rightarrow> s
     | act # rest \<Rightarrow>
         let s = s\<lparr>svPrune := rest\<rparr>
         in case act of
              PruneDrop c \<Rightarrow> drop_client (ciID c) s
            | PruneRemoved c \<Rightarrow> on_system now (EvRemoved (ciID c) (ciHostname c)) s
            | PruneUI \<Rightarrow> poke_ui now s)"

definition ui_tick :: "time \<Rightarrow> Server \<Rightarrow> Server" where [go_eval]:
  "ui_tick now s = (if IsRunning (orch s) then poke_ui now s else s)"

section \<open>Browsers\<close>

definition flush_turn :: "time \<Rightarrow> Server \<Rightarrow> Server" where [go_eval]:
  "flush_turn now s =
    (let shown = (if uiFlush (svUI s) = FlushWrite
                  then map (\<lambda>sub. (sub, Snapshot now (orch s))) (svSubs s) else [])
     in s\<lparr>svUI := flush_step now (svUI s), svShown := svShown s @ shown\<rparr>)"

definition ui_connect :: "time \<Rightarrow> nat \<Rightarrow> Server \<Rightarrow> Server" where [go_eval]:
  "ui_connect now sub s =
    (if sub \<in> set (svSubs s) then s
     else s\<lparr>svSubs := svSubs s @ [sub], svShown := svShown s @ [(sub, Snapshot now (orch s))]\<rparr>)"

definition ui_disconnect :: "nat \<Rightarrow> Server \<Rightarrow> Server" where [go_eval]:
  "ui_disconnect sub s = s\<lparr>svSubs := removeAll sub (svSubs s)\<rparr>"

section \<open>Requests\<close>

datatype http_method = GET | PUT | POST | OtherMethod

text \<open>The body of a request decodes (\<open>Some\<close>) or not.\<close>

datatype request =
    GetState
  | ApiConfig http_method "Config option"
  | ApiParticipants http_method "ParticipantUpdate option"
  | ApiStart http_method
  | ApiStop http_method
  | ApiPhases http_method "(phase \<times> bool) option"

datatype response = OKState UIState | OKConfig Config | OKTrue | Refused nat

definition handleConfig :: "time \<Rightarrow> http_method \<Rightarrow> Config option \<Rightarrow> Server \<Rightarrow> response \<times> Server" where [go_eval]:
  "handleConfig now meth body s =
    (if meth = GET then (OKConfig (GetConfig (orch s)), s)
     else if meth = PUT \<or> meth = POST then
       (case body of
          None \<Rightarrow> (Refused 400, s)
        | Some cfg \<Rightarrow>
            (case SetConfig cfg (orch s) of
               Inl e \<Rightarrow> (Refused 400, s)
             | Inr o2 \<Rightarrow> (OKConfig cfg, on_system now (EvConfig cfg) s)))
     else (Refused 405, s))"

definition handleParticipants :: "time \<Rightarrow> http_method \<Rightarrow> ParticipantUpdate option \<Rightarrow> Server \<Rightarrow> response \<times> Server"
where [go_eval]:
  "handleParticipants now meth body s =
    (if meth = PUT \<or> meth = POST then
       (case body of
          None \<Rightarrow> (Refused 400, s)
        | Some u \<Rightarrow>
            (case UpdateParticipants u (orch s) of
               Inl e \<Rightarrow> (Refused 409, s)
             | Inr o2 \<Rightarrow>
                 let s = poke_ui now (on_system now (EvParticipants u) s)
                 in (OKState (Snapshot now (orch s)), s)))
     else (Refused 405, s))"

definition handleStart :: "time \<Rightarrow> http_method \<Rightarrow> Server \<Rightarrow> response \<times> Server" where [go_eval]:
  "handleStart now meth s =
    (if meth \<noteq> POST then (Refused 405, s)
     else case Start now (sNext (svSys s)) (orch s) of
            Inl e \<Rightarrow> (Refused 409, s)
          | Inr r \<Rightarrow> (OKTrue, poke_ui now (on_system now EvStart s)))"

definition handleStop :: "time \<Rightarrow> http_method \<Rightarrow> Server \<Rightarrow> response \<times> Server" where [go_eval]:
  "handleStop now meth s =
    (if meth \<noteq> POST then (Refused 405, s) else (OKTrue, poke_ui now (on_system now EvStop s)))"

definition handlePhases :: "time \<Rightarrow> http_method \<Rightarrow> (phase \<times> bool) option \<Rightarrow> Server \<Rightarrow> response \<times> Server" where [go_eval]:
  "handlePhases now meth body s =
    (if meth \<noteq> POST \<and> meth \<noteq> PUT then (Refused 405, s)
     else case body of
            None \<Rightarrow> (Refused 400, s)
          | Some (ph, enabled) \<Rightarrow>
              if phase_string ph = [] then (Refused 400, s)
              else
                let err = fst (SetPhaseEnabled ph enabled (orch s));
                    s = on_system now (EvPhase ph enabled) s
                in if err \<noteq> None then (Refused 409, s)
                   else let s = poke_ui now s in (OKState (Snapshot now (orch s)), s))"

fun serve :: "time \<Rightarrow> request \<Rightarrow> Server \<Rightarrow> response \<times> Server" where
  "serve now GetState s = (OKState (Snapshot now (orch s)), s)"
| "serve now (ApiConfig meth body) s = handleConfig now meth body s"
| "serve now (ApiParticipants meth body) s = handleParticipants now meth body s"
| "serve now (ApiStart meth) s = handleStart now meth s"
| "serve now (ApiStop meth) s = handleStop now meth s"
| "serve now (ApiPhases meth body) s = handlePhases now meth body s"

section \<open>Steps\<close>

text \<open>\<open>Turn\<close> is a step of the run, of a method that goes on after its lock, or of the metrics store.\<close>

datatype turn_of = OfRun bool | OfOther nat bool | OfMetrics metrics_event

fun turn_event :: "turn_of \<Rightarrow> event" where
  "turn_event (OfRun b) = EvRun b"
| "turn_event (OfOther i b) = EvOther i b"
| "turn_event (OfMetrics e) = EvMetrics e"

datatype server_event =
    Connect nat
  | Message nat string Envelope
  | Handler nat
  | ReadFailed nat
  | Pong nat
  | Ping nat bool
  | PingTurn nat bool
  | Written nat bool
  | WriterEnds nat
  | PruneTick
  | PruneStep
  | UITick
  | FlushTurn
  | Browser nat
  | BrowserGone nat
  | Request request
  | Turn turn_of

fun server_event_step :: "time \<Rightarrow> server_event \<Rightarrow> Server \<Rightarrow> Server" where
  "server_event_step now (Connect conn) s = connect conn s"
| "server_event_step now (Message conn uuid env) s = got_message now uuid conn env s"
| "server_event_step now (Handler conn) s = handler_step now conn s"
| "server_event_step now (ReadFailed conn) s = read_failed conn s"
| "server_event_step now (Pong conn) s = got_pong now conn s"
| "server_event_step now (Ping conn ok) s = got_ping now ok conn s"
| "server_event_step now (PingTurn conn ok) s = ping_turn ok conn s"
| "server_event_step now (Written i ok) s = write_turn ok i s"
| "server_event_step now (WriterEnds i) s = write_end i s"
| "server_event_step now PruneTick s = prune_tick now s"
| "server_event_step now PruneStep s = prune_step now s"
| "server_event_step now UITick s = ui_tick now s"
| "server_event_step now FlushTurn s = flush_turn now s"
| "server_event_step now (Browser sub) s = ui_connect now sub s"
| "server_event_step now (BrowserGone sub) s = ui_disconnect sub s"
| "server_event_step now (Request r) s = snd (serve now r s)"
| "server_event_step now (Turn t) s = on_system now (turn_event t) s"

definition server_step :: "time \<Rightarrow> server_event \<Rightarrow> Server \<Rightarrow> Server" where [go_eval]:
  "server_step now e s = (server_event_step now e s)\<lparr>svNow := now\<rparr>"

inductive server_reachable :: "Server \<Rightarrow> bool" where
  start: "server_reachable (NewServer loaded path host now)"
| step: "server_reachable s \<Longrightarrow> svNow s \<le> now \<Longrightarrow> server_reachable (server_step now e s)"

definition server_trace :: "(time \<times> server_event) list \<Rightarrow> Server \<Rightarrow> Server" where [go_eval]:
  "server_trace es s = foldl (\<lambda>s te. server_step (fst te) (snd te) s) s es"

section \<open>What an orchestrator step sends\<close>

text \<open>The log only grows, and what is broadcast to everybody is a configuration.\<close>

fun broadcast_ok :: "effect \<Rightarrow> bool" where
  "broadcast_ok (Broadcast env) = (envType env = ''config'')"
| "broadcast_ok _ = True"

definition sends_more :: "Orchestrator \<Rightarrow> Orchestrator \<Rightarrow> bool" where
  "sends_more o1 o2 \<longleftrightarrow> (\<exists>new. oSent o2 = oSent o1 @ new \<and> list_all broadcast_ok new)"

lemma sends_more_same: "oSent o2 = oSent o1 \<Longrightarrow> sends_more o1 o2"
  by (simp add: sends_more_def)

lemma sends_more_send: "sends_more o1 o2 \<Longrightarrow> broadcast_ok x \<Longrightarrow> sends_more o1 (send x o2)"
  by (auto simp: sends_more_def send_def)

lemma sends_more_publish: "oSent o2 = oSent o1 \<Longrightarrow> sends_more o1 (publish_config cfg o2)"
  by (simp add: publish_config_def Let_def sends_more_same sends_more_send config_envelope_def)

lemma sends_more_cleanup: "sends_more o1 o2 \<Longrightarrow> sends_more o1 (cleanupSoftware ps tn o2)"
  unfolding cleanupSoftware_def
  by (induction ps arbitrary: o2) (simp_all add: Let_def sends_more_send)

lemma close_span_sent [simp]: "oSent (closePhaseSpanLocked t o1) = oSent o1"
  by (simp add: closePhaseSpanLocked_def)

lemma freeze_sent [simp]: "oSent (freeze_elapsed t o1) = oSent o1"
  by (simp add: freeze_elapsed_def split: option.split)

lemma sends_more_exec:
  assumes "exec now cancelled choice o1 as = Some (o2, as2, new)"
  shows "sends_more o1 o2"
  using assms
  by (cases "(now, cancelled, choice, o1, as)" rule: exec.cases)
    (auto simp: sends_more_same sends_more_send sends_more_cleanup broadcastRun_def setPhase_def finish_def Let_def
      split: if_splits option.splits)

lemma sends_more_step: "sends_more (sOrch s) (sOrch (sys_step now e s))"
proof -
  have stop: "oSent (fst (Stop now (sOrch s))) = oSent (sOrch s)"
    by (simp add: Stop_def Let_def)
  have removed: "oSent (fst (OnClientRemoved now cid host (sOrch s))) = oSent (sOrch s)" for cid host
    by (simp add: OnClientRemoved_def Let_def)
  have begun: "oSent o2 = oSent (sOrch s)" if "Start now c (sOrch s) = Inr (o2, as)" for c o2 as
    using that by (auto simp: Start_def Let_def split: if_splits)
  have conf: "sends_more (sOrch s) (keep (SetConfig cfg (sOrch s)) (sOrch s))" for cfg
    by (auto simp: keep_def SetConfig_def Let_def sends_more_same sends_more_publish)
  have ph: "sends_more (sOrch s) (snd (SetPhaseEnabled p en (sOrch s)))" for p en
    by (auto simp: SetPhaseEnabled_def Let_def sends_more_same sends_more_publish)
  have sel: "oSent (keep (SetSelectedClients ids (sOrch s)) (sOrch s)) = oSent (sOrch s)" for ids
    by (simp add: keep_def SetSelectedClients_def Let_def)
  have part: "oSent (keep (UpdateParticipants u (sOrch s)) (sOrch s)) = oSent (sOrch s)" for u
    by (simp add: keep_def UpdateParticipants_def Let_def)
  have run: "sends_more (sOrch s) (sOrch (step_run now b s))" "sends_more (sOrch s) (sOrch (step_other now i b s))" for i b
    by (auto simp: step_run_def step_other_def intro: sends_more_same sends_more_exec split: option.split)
  show ?thesis
  proof (cases e)
    case (EvRun b)
    then show ?thesis using run by (simp add: sys_step_def)
  next
    case (EvOther i b)
    then show ?thesis using run by (simp add: sys_step_def)
  qed (auto simp: sys_step_def step_start_def spawn_def on_orch_def conf ph OnClientRegistered_def UpdateClientFiles_def
        intro!: sends_more_same stop removed sel part split: sum.split dest: begun)
qed

section \<open>What waits in the queues\<close>

text \<open>
  An entry of \<open>clients\<close> points to an object with its id. A queue is within its bound, and a message
  in it is a welcome or was sent by the orchestrator to everybody or to a list with the client in it.
\<close>

definition addressed :: "effect list \<Rightarrow> string \<Rightarrow> Envelope \<Rightarrow> bool" where
  "addressed sent cid env \<longleftrightarrow>
    envType env = ''welcome'' \<or> Broadcast env \<in> set sent \<or> (\<exists>ids. BroadcastTo ids env \<in> set sent \<and> cid \<in> set ids)"

definition ws_ok :: "effect list \<Rightarrow> wsClient \<Rightarrow> bool" where
  "ws_ok sent c \<longleftrightarrow> length (wcOut c) \<le> clientSendQueue \<and> list_all (addressed sent (wcID c)) (wcOut c)"

definition points_to :: "wsClient list \<Rightarrow> string \<times> nat \<Rightarrow> bool" where
  "points_to ws ci \<longleftrightarrow> snd ci < length ws \<and> wcID (ws ! snd ci) = fst ci"

definition queues_ok :: "wsClient list \<Rightarrow> (string \<times> nat) list \<Rightarrow> effect list \<Rightarrow> bool" where
  "queues_ok ws cl sent \<longleftrightarrow> list_all (ws_ok sent) ws \<and> list_all (points_to ws) cl"

definition server_inv :: "time \<Rightarrow> Server \<Rightarrow> bool" where
  "server_inv now s \<longleftrightarrow>
    reachable (svSys s) \<and> sNow (svSys s) \<le> now \<and> list_all broadcast_ok (oSent (orch s)) \<and>
    queues_ok (svWs s) (svClients s) (oSent (orch s))"

lemma server_inv_frame:
  "server_inv now s \<Longrightarrow> svSys t = svSys s \<Longrightarrow> svWs t = svWs s \<Longrightarrow> svClients t = svClients s \<Longrightarrow> server_inv now t"
  by (simp add: server_inv_def)

lemma ws_ok_enqueue:
  assumes "ws_ok sent c" "addressed sent (wcID c) env"
  shows "ws_ok sent (c\<lparr>wcOut := enqueue env (wcOut c)\<rparr>)"
  using assms client_queue.push_newest [of "wcOut c" env] client_queue.push_length [of "wcOut c" env]
  by (auto simp: ws_ok_def list_all_iff dest: in_set_dropD)

lemma points_to_update: "points_to ws ci \<Longrightarrow> wcID c = wcID (ws ! i) \<Longrightarrow> points_to (ws[i := c]) ci"
  by (cases "i = snd ci") (auto simp: points_to_def)

lemma queues_ok_on_ws:
  assumes "server_inv now s" "i < length (svWs s)" "ws_ok (oSent (orch s)) (f (svWs s ! i))"
    and "wcID (f (svWs s ! i)) = wcID (svWs s ! i)"
  shows "server_inv now (on_ws f i s)"
proof -
  have "list_all (points_to ((svWs s)[i := f (svWs s ! i)])) (svClients s)"
    using assms(1,4) points_to_update by (simp add: server_inv_def queues_ok_def list_all_iff)
  with assms show ?thesis by (simp add: server_inv_def queues_ok_def on_ws_def list_all_update)
qed

lemma inv_ws_ok: "server_inv now s \<Longrightarrow> i < length (svWs s) \<Longrightarrow> ws_ok (oSent (orch s)) (svWs s ! i)"
  by (simp add: server_inv_def queues_ok_def list_all_length)

lemma inv_points: "server_inv now s \<Longrightarrow> map_of (svClients s) cid = Some i \<Longrightarrow> i < length (svWs s) \<and> wcID (svWs s ! i) = cid"
  by (auto simp: server_inv_def queues_ok_def list_all_iff points_to_def dest!: map_of_SomeD)

lemma on_ws_outside: "\<not> i < length (svWs s) \<Longrightarrow> on_ws f i s = s"
  by (simp add: on_ws_def not_less list_update_beyond)

lemma on_ws_fields [simp]:
  "svSys (on_ws f i s) = svSys s" "svClients (on_ws f i s) = svClients s" "length (svWs (on_ws f i s)) = length (svWs s)"
  by (simp_all add: on_ws_def)

lemma inv_send:
  assumes "server_inv now s" "i < length (svWs s) \<Longrightarrow> addressed (oSent (orch s)) (wcID (svWs s ! i)) env"
  shows "server_inv now (wc_send env i s)"
proof (cases "i < length (svWs s)")
  case True
  then show ?thesis
    unfolding wc_send_def using assms inv_ws_ok by (intro queues_ok_on_ws) (simp_all add: ws_ok_enqueue)
qed (use assms(1) on_ws_outside in \<open>simp add: wc_send_def\<close>)

lemma inv_stop: "server_inv now s \<Longrightarrow> server_inv now (wc_stop i s)"
  unfolding wc_stop_def using on_ws_outside [of i s] inv_ws_ok [of now s i]
  by (cases "i < length (svWs s)") (auto intro: queues_ok_on_ws simp: ws_ok_def)

text \<open>A fold over targets that are all addressed.\<close>

lemma wc_send_id: "wcID (svWs (wc_send env j s) ! i) = wcID (svWs s ! i)"
  by (cases "j < length (svWs s)"; cases "i = j") (auto simp: wc_send_def on_ws_def not_less list_update_beyond)

lemma inv_send_all:
  assumes "server_inv now s"
    and "\<forall>i \<in> set is. i < length (svWs s) \<longrightarrow> addressed (oSent (orch s)) (wcID (svWs s ! i)) env"
  shows "server_inv now (fold (wc_send env) is s)"
  using assms
proof (induction "is" arbitrary: s)
  case (Cons j js)
  have "server_inv now (wc_send env j s)" using Cons.prems by (intro inv_send) simp_all
  moreover have "length (svWs (wc_send env j s)) = length (svWs s)" "svSys (wc_send env j s) = svSys s"
    by (simp_all add: wc_send_def)
  ultimately show ?case using Cons.prems(2) Cons.IH [of "wc_send env j s"] by (simp add: wc_send_id)
qed simp

lemma fold_send_fields [simp]:
  "svSys (fold (wc_send env) is s) = svSys s" "svClients (fold (wc_send env) is s) = svClients s"
  by (induction "is" arbitrary: s) (simp_all add: wc_send_def)

lemma deliver_fields [simp]: "svSys (deliver x s) = svSys s"
  by (cases x) (simp_all add: server_Broadcast_def server_BroadcastTo_def)

lemma inv_deliver:
  assumes "server_inv now s" "x \<in> set (oSent (orch s))"
  shows "server_inv now (deliver x s)"
proof (cases x)
  case (Broadcast env)
  with assms show ?thesis
    by (auto simp: server_Broadcast_def addressed_def intro!: inv_send_all)
next
  case (BroadcastTo ids env)
  have "\<forall>i \<in> set (List.map_filter (map_of (svClients s)) ids). wcID (svWs s ! i) \<in> set ids"
    using inv_points [OF assms(1)] by (auto simp: List.map_filter_def)
  then have "\<forall>i \<in> set (List.map_filter (map_of (svClients s)) ids).
      addressed (oSent (orch s)) (wcID (svWs s ! i)) env"
    using assms(2) BroadcastTo unfolding addressed_def by blast
  then show ?thesis using assms(1) by (simp add: BroadcastTo server_BroadcastTo_def inv_send_all)
qed (use assms in simp_all)

lemma inv_delivers:
  "server_inv now s \<Longrightarrow> set xs \<subseteq> set (oSent (orch s)) \<Longrightarrow> server_inv now (fold deliver xs s)"
  by (induction xs arbitrary: s) (simp_all add: inv_deliver)

lemma queues_ok_more: "queues_ok ws cl sent \<Longrightarrow> queues_ok ws cl (sent @ new)"
  by (auto simp: queues_ok_def ws_ok_def list_all_iff addressed_def)

lemma inv_system:
  assumes "server_inv now s"
  shows "server_inv now (on_system now e s)"
proof -
  let ?sys = "sys_step now e (svSys s)"
  obtain new where new: "oSent (sOrch ?sys) = oSent (orch s) @ new" "list_all broadcast_ok new"
    using sends_more_step [of "svSys s" now e] unfolding sends_more_def by blast
  have "server_inv now (s\<lparr>svSys := ?sys\<rparr>)"
    using assms new queues_ok_more by (auto simp: server_inv_def intro: reachable.step) (simp add: sys_step_def)
  then show ?thesis by (simp add: on_system_def Let_def new inv_delivers)
qed

lemma on_system_keeps [simp]:
  "svClients (on_system now e s) = svClients s" "length (svWs (on_system now e s)) = length (svWs s)"
proof -
  have "svClients (deliver x t) = svClients t \<and> length (svWs (deliver x t)) = length (svWs t)" for x t
  proof -
    have "length (svWs (fold (wc_send env) is u)) = length (svWs u)" for env "is" u
      by (induction "is" arbitrary: u) (simp_all add: wc_send_def)
    then show ?thesis by (cases x) (simp_all add: server_Broadcast_def server_BroadcastTo_def)
  qed
  then have "svClients (fold deliver xs t) = svClients t \<and> length (svWs (fold deliver xs t)) = length (svWs t)" for xs t
    by (induction xs arbitrary: t) simp_all
  then show "svClients (on_system now e s) = svClients s" "length (svWs (on_system now e s)) = length (svWs s)"
    by (simp_all add: on_system_def Let_def)
qed

lemma inv_registry: "server_inv now s \<Longrightarrow> server_inv now (on_registry now f s)"
  by (simp add: on_registry_def inv_system)

lemma inv_close: "server_inv now s \<Longrightarrow> server_inv now (close_conn conn s)"
  by (rule server_inv_frame) (simp_all add: close_conn_def)

lemma inv_handler: "server_inv now s \<Longrightarrow> server_inv now (set_handler conn h s)"
  by (rule server_inv_frame) (simp_all add: set_handler_def)

lemma inv_poke: "server_inv now s \<Longrightarrow> server_inv now (poke_ui now s)"
  by (rule server_inv_frame) (simp_all add: poke_ui_def)

lemma inv_forget: "server_inv now s \<Longrightarrow> server_inv now (s\<lparr>svClients := AList.delete cid (svClients s)\<rparr>)"
  by (auto simp: server_inv_def queues_ok_def list_all_iff AList.delete_eq)

lemmas inv_ops = inv_system inv_registry inv_close inv_handler inv_poke inv_forget inv_stop

lemma inv_install: "server_inv now s \<Longrightarrow> server_inv now (install_client conn h s)"
proof -
  assume inv: "server_inv now s"
  let ?s1 = "s\<lparr>svWs := svWs s @ [newWSClient (hID h) conn]\<rparr>"
  have s1: "server_inv now ?s1"
    using inv by (auto simp: server_inv_def queues_ok_def list_all_iff points_to_def ws_ok_def newWSClient_def nth_append)
  define s2 where "s2 = (case map_of (svClients ?s1) (hID h) of
      Some j \<Rightarrow> if wcConn (svWs ?s1 ! j) \<noteq> conn then close_conn (wcConn (svWs ?s1 ! j)) (wc_stop j ?s1) else ?s1
    | None \<Rightarrow> ?s1)"
  have s2: "server_inv now s2" using s1 by (auto simp: s2_def intro: inv_ops split: option.split)
  have "length (svWs s2) = length (svWs s) + 1 \<and> wcID (svWs s2 ! length (svWs s)) = hID h"
    using inv_points [OF inv, of "hID h"]
    by (auto simp: s2_def close_conn_def wc_stop_def on_ws_def newWSClient_def nth_list_update nth_append split: option.split)
  then have "server_inv now (s2\<lparr>svClients := AList.update (hID h) (length (svWs s)) (svClients s2)\<rparr>)"
    using s2 by (auto simp: server_inv_def queues_ok_def list_all_iff points_to_def
        dest!: set_alist_update_subset [THEN subsetD])
  then show ?thesis by (simp add: install_client_def Let_def s2_def inv_handler)
qed

lemma inv_teardown: "server_inv now s \<Longrightarrow> server_inv now (teardown now conn h s)"
  by (auto simp: teardown_def Let_def intro!: inv_ops split: option.split)

lemma inv_handler_act:
  assumes "server_inv now s"
  shows "server_inv now (handler_act now conn act h s)"
proof -
  have s: "server_inv now (set_handler conn h s)" by (rule inv_handler [OF assms])
  have gone: "server_inv now (t\<lparr>svHandlers := hs\<rparr>)" if "server_inv now t" for t hs
    by (rule server_inv_frame [OF that]) simp_all
  show ?thesis
  proof (cases act)
    case (RegWelcome p cfg)
    with s show ?thesis
      by (auto simp: handler_act_def Let_def addressed_def welcome_envelope_def
          intro!: inv_poke inv_send split: option.split)
  qed (use s gone in \<open>auto simp: handler_act_def Let_def intro: inv_ops inv_install inv_teardown\<close>)
qed

lemma inv_message: "server_inv now s \<Longrightarrow> server_inv now (client_message now uuid env conn h s)"
  by (auto simp: client_message_def on_register_def on_metrics_def on_heartbeat_def on_status_def Let_def
      intro!: inv_ops split: option.split)

lemma inv_serve: "server_inv now s \<Longrightarrow> server_inv now (snd (serve now r s))"
  by (cases r)
    (auto simp: handleConfig_def handleParticipants_def handleStart_def handleStop_def handlePhases_def Let_def
      intro!: inv_ops split: option.split sum.split)

lemma inv_written: "server_inv now s \<Longrightarrow> server_inv now (write_turn ok i s)"
proof -
  assume inv: "server_inv now s"
  have tl: "set (tl xs) \<subseteq> set xs" for xs :: "'a list" by (cases xs) auto
  have "server_inv now (on_ws (\<lambda>c. c\<lparr>wcOut := tl (wcOut c), wcWriter := ok\<rparr>) i s)" if "i < length (svWs s)"
    using inv inv_ws_ok [OF inv that] that
    by (intro queues_ok_on_ws) (auto simp: ws_ok_def list_all_iff dest: tl [THEN subsetD])
  with inv show ?thesis by (auto simp: write_turn_def Let_def intro: inv_close)
qed

lemma inv_write_end: "server_inv now s \<Longrightarrow> server_inv now (write_end i s)"
  using inv_ws_ok [of now s i] by (auto simp: write_end_def ws_ok_def intro!: queues_ok_on_ws)

lemma inv_step: "server_inv now s \<Longrightarrow> server_inv now (server_step now e s)"
proof -
  assume inv: "server_inv now s"
  have clock: "server_inv now (t\<lparr>svNow := now\<rparr>)" if "server_inv now t" for t
    by (rule server_inv_frame [OF that]) simp_all
  have prune: "server_inv now (t\<lparr>svPrune := as\<rparr>)" if "server_inv now t" for t as
    by (rule server_inv_frame [OF that]) simp_all
  have "server_inv now (server_event_step now e s)"
  proof (cases e)
    case (Written i ok)
    with inv_written [OF inv] show ?thesis by simp
  next
    case (WriterEnds i)
    with inv_write_end [OF inv] show ?thesis by simp
  next
    case (Request r)
    with inv_serve [OF inv] show ?thesis by simp
  next
    case (Message conn uuid env)
    with inv inv_message [OF inv] show ?thesis by (simp add: got_message_def split: option.split)
  next
    case (Handler conn)
    with inv inv_handler_act [OF inv] show ?thesis by (simp add: handler_step_def split: option.split list.split)
  next
    case FlushTurn
    show ?thesis by (rule server_inv_frame [OF inv]) (simp_all add: FlushTurn flush_turn_def Let_def)
  next
    case (Browser sub)
    show ?thesis by (rule server_inv_frame [OF inv]) (simp_all add: Browser ui_connect_def)
  next
    case (BrowserGone sub)
    show ?thesis by (rule server_inv_frame [OF inv]) (simp_all add: BrowserGone ui_disconnect_def)
  next
    case PruneTick
    with inv show ?thesis by (auto simp: prune_tick_def Let_def intro!: prune inv_registry)
  next
    case PruneStep
    with inv prune [OF inv] show ?thesis
      by (auto simp: prune_step_def drop_client_def Let_def intro!: inv_ops split: list.split prune_act.split option.split)
  qed (use inv in \<open>auto simp: connect_def read_failed_def got_pong_def got_ping_def ping_turn_def ui_tick_def Let_def intro!: inv_ops split: option.split\<close>)
  then show ?thesis by (simp add: server_step_def clock)
qed

lemma server_inv_reachable: "server_reachable s \<Longrightarrow> server_inv (svNow s) s"
proof (induction rule: server_reachable.induct)
  case (start loaded path host now)
  have "list_all broadcast_ok (oSent (NewOrchestrator loaded path host NewRegistry NewMetricsStore))"
    by (simp add: NewOrchestrator_def Let_def)
  then show ?case
    by (simp add: server_inv_def NewServer_def queues_ok_def reachable.init) (simp add: sys_init_def)
next
  case (step s now e)
  then have "server_inv now s" by (auto simp: server_inv_def)
  then show ?case using inv_step by (simp add: server_step_def)
qed

section \<open>What the server guarantees\<close>


text \<open>
  C17. In every state a command waits, or is ready to be written, only for a client that the
  orchestrator addressed it to, and no client has more than 64 messages waiting, however slowly it
  reads.
\<close>

theorem commands_wait_for_their_clients:
  assumes "server_reachable s" "i < length (svWs s)"
  shows "length (wcOut (svWs s ! i)) \<le> 64 \<and>
    (\<forall>env \<in> set (wcOut (svWs s ! i)). envType env = ''command'' \<longrightarrow>
      (\<exists>ids. BroadcastTo ids env \<in> set (oSent (orch s)) \<and> wcID (svWs s ! i) \<in> set ids))"
proof -
  have inv: "server_inv (svNow s) s" by (rule server_inv_reachable [OF assms(1)])
  then have "ws_ok (oSent (orch s)) (svWs s ! i)" using assms(2) by (rule inv_ws_ok)
  moreover have "envType env = ''config''" if "Broadcast env \<in> set (oSent (orch s))" for env
    using inv that by (auto simp: server_inv_def list_all_iff)
  ultimately show ?thesis by (fastforce simp: ws_ok_def list_all_iff addressed_def clientSendQueue_def)
qed

lemma refused_simple:
  "handleConfig now meth b1 s = (Refused code, s2) \<Longrightarrow> s2 = s \<and> (code = 400 \<or> code = 405)"
  "handleParticipants now meth b2 s = (Refused code, s2) \<Longrightarrow> s2 = s \<and> (code = 400 \<or> code = 405 \<or> code = 409)"
  "handleStart now meth s = (Refused code, s2) \<Longrightarrow> s2 = s \<and> (code = 405 \<or> code = 409)"
  "handleStop now meth s = (Refused code, s2) \<Longrightarrow> s2 = s \<and> code = 405"
  "handlePhases now meth None s = (Refused code, s2) \<Longrightarrow> s2 = s \<and> (code = 400 \<or> code = 405)"
  by (simp_all add: handleConfig_def handleParticipants_def handleStart_def handleStop_def handlePhases_def Let_def
      split: if_splits option.splits sum.splits)

lemma refused_branches:
  "fst (if a then (Some e1, x) else if b then (Some e2, x) else if c then (Some e3, y) else (None, z)) \<noteq> None \<Longrightarrow>
   snd (if a then (Some e1, x) else if b then (Some e2, x) else if c then (Some e3, y) else (None, z)) \<in> {x, y}"
  by (cases a; cases b; cases c) simp_all

lemma refused_toggle_state:
  assumes "fst (SetPhaseEnabled ph en o1) \<noteq> None"
  shows "\<exists>xs. snd (SetPhaseEnabled ph en o1) = o1\<lparr>oCfg := (oCfg o1)\<lparr>DisabledPhases := xs\<rparr>\<rparr>"
proof -
  have same: "o1 = o1\<lparr>oCfg := (oCfg o1)\<lparr>DisabledPhases := DisabledPhases (oCfg o1)\<rparr>\<rparr>" by simp
  have "\<exists>xs. snd (SetPhaseEnabled ph en o1) \<in> {o1, o1\<lparr>oCfg := (oCfg o1)\<lparr>DisabledPhases := xs\<rparr>\<rparr>}"
    unfolding SetPhaseEnabled_def Let_def
    by (rule exI, rule refused_branches [OF assms [unfolded SetPhaseEnabled_def Let_def]])
  then show ?thesis using same by (metis empty_iff insert_iff)
qed

lemma refused_toggle:
  assumes "handlePhases now meth (Some (ph, en)) s = (Refused code, s2)"
  shows "s2 = s \<and> (code = 400 \<or> code = 405) \<or>
    code = 409 \<and> fst (SetPhaseEnabled ph en (orch s)) \<noteq> None \<and> s2 = on_system now (EvPhase ph en) s"
proof (cases "fst (SetPhaseEnabled ph en (orch s)) = None")
  case True
  with assms show ?thesis by (simp add: handlePhases_def Let_def split: if_split_asm)
next
  case False
  with assms show ?thesis by (simp add: handlePhases_def Let_def split: if_split_asm)
qed

text \<open>
  C28. A request that is refused (400, 405 or 409) changes nothing in the server: only the phase
  toggle that would leave no phase may overwrite the stored list of disabled phases, and then nothing
  is sent, saved or shown, and the rest of the configuration is as it was.
\<close>

theorem refused_request_changes_nothing:
  assumes "serve now r s = (Refused code, s2)"
  shows "code \<in> {400, 405, 409} \<and>
    (s2 = s \<or> (\<exists>meth ph en xs. r = ApiPhases meth (Some (ph, en)) \<and>
       s2 = s\<lparr>svSys := (svSys s)\<lparr>sNow := now, sOrch := (orch s)\<lparr>oCfg := (oCfg (orch s))\<lparr>DisabledPhases := xs\<rparr>\<rparr>\<rparr>\<rparr>))"
proof (cases "\<exists>meth ph en. r = ApiPhases meth (Some (ph, en))")
  case False
  have "s2 = s \<and> (code = 400 \<or> code = 405 \<or> code = 409)"
  proof (cases r)
    case (ApiPhases meth body)
    with False have "body = None" by (cases body) auto
    with assms ApiPhases refused_simple(5) [of now meth s code s2] show ?thesis by auto
  qed (use assms in \<open>auto dest!: refused_simple\<close>)
  then show ?thesis by simp
next
  case True
  then obtain meth ph en where r: "r = ApiPhases meth (Some (ph, en))" by blast
  from assms have "handlePhases now meth (Some (ph, en)) s = (Refused code, s2)" by (simp add: r)
  then consider "s2 = s" "code = 400 \<or> code = 405"
    | "code = 409" "fst (SetPhaseEnabled ph en (orch s)) \<noteq> None" "s2 = on_system now (EvPhase ph en) s"
    using refused_toggle by blast
  then show ?thesis
  proof cases
    case 1
    then show ?thesis by auto
  next
    case 2
    then obtain xs where xs: "snd (SetPhaseEnabled ph en (orch s)) = (orch s)\<lparr>oCfg := (oCfg (orch s))\<lparr>DisabledPhases := xs\<rparr>\<rparr>"
      using refused_toggle_state by blast
    have "on_system now (EvPhase ph en) s =
        s\<lparr>svSys := (svSys s)\<lparr>sNow := now, sOrch := (orch s)\<lparr>oCfg := (oCfg (orch s))\<lparr>DisabledPhases := xs\<rparr>\<rparr>\<rparr>\<rparr>"
      by (simp add: on_system_def Let_def sys_step_def on_orch_def xs)
    with 2 show ?thesis unfolding r by blast
  qed
qed

section \<open>A lost registration\<close>

lemma server_reachable_trace:
  "server_reachable s \<Longrightarrow> sorted (svNow s # map fst es) \<Longrightarrow> server_reachable (server_trace es s)"
proof (induction es arbitrary: s)
  case (Cons te es)
  have "server_reachable (server_step (fst te) (snd te) s)" using Cons.prems by (intro server_reachable.step) simp_all
  moreover have "svNow (server_step (fst te) (snd te) s) = fst te" by (simp add: server_step_def)
  ultimately have "server_reachable (server_trace es (server_step (fst te) (snd te) s))"
    using Cons.prems(2) by (intro Cons.IH) simp_all
  then show ?case by (simp add: server_trace_def)
qed (simp add: server_trace_def)

text \<open>A configuration without prefixes, so that a client gets the empty one.\<close>

definition demo_server :: Server where [go_eval]:
  "demo_server = NewServer (Loaded (DefaultConfig\<lparr>Prefixes := []\<rparr>)) ''f'' ''c'' 0"

definition demo_register :: "string \<Rightarrow> Envelope" where [go_eval]:
  "demo_register cid =
    zero_Envelope\<lparr>envType := ''register'', envRegister := Some \<lparr>rmHostname = ''h'', rmID = cid\<rparr>\<rparr>"

definition demo_registered :: "(time \<times> server_event) list" where [go_eval]:
  "demo_registered =
    [(1, Connect 1), (1, Message 1 ''X'' (demo_register [])), (1, Handler 1), (1, Handler 1), (1, Handler 1), (1, Handler 1)]"

text \<open>
  A client comes back with its id over a new connection while the old one has not failed yet. If the
  old connection fails after the new handler has entered the client in the registry but before it has
  replaced the connection, the old handler still takes itself for the client's own and removes the
  client. The client ends up connected and welcomed, but no longer registered.
\<close>

theorem reconnect_loses_registration:
  "let s = server_trace (demo_registered @
       [(2, Connect 2), (2, Message 2 ''Y'' (demo_register ''X'')), (2, Handler 2),
        (2, ReadFailed 1), (2, Handler 1), (2, Handler 1), (2, Handler 1), (2, Handler 1),
        (2, Handler 2), (2, Handler 2), (2, Handler 2)]) demo_server
   in map_of (svClients s) ''X'' = Some 1 \<and> wcConn (svWs s ! 1) = 2 \<and> \<not> wcDone (svWs s ! 1) \<and>
      2 \<notin> set (svClosed s) \<and> map envType (wcOut (svWs s ! 1)) = [''welcome''] \<and>
      IDs (oRegistry (orch s)) = []"
  by code_simp

section \<open>Witnesses\<close>

lemma demo_reachable: "server_reachable (server_trace demo_registered demo_server)"
  unfolding demo_server_def
  by (rule server_reachable_trace [OF server_reachable.start]) (simp add: NewServer_def demo_registered_def)


lemma commands_wait_for_their_clients_witness:
  "length (wcOut (svWs (server_trace demo_registered demo_server) ! 0)) \<le> 64"
proof -
  have "length (svWs (server_trace demo_registered demo_server)) = 1" by code_simp
  then have "0 < length (svWs (server_trace demo_registered demo_server))" by simp
  from commands_wait_for_their_clients [OF demo_reachable this] show ?thesis by simp
qed

lemma refused_request_changes_nothing_witness: "snd (serve 0 (ApiStart GET) demo_server) = demo_server"
proof -
  have "serve 0 (ApiStart GET) demo_server = (Refused 405, demo_server)" by (simp add: handleStart_def)
  from refused_request_changes_nothing [OF this] show ?thesis by (simp add: handleStart_def)
qed

end
