(* ===== verification/ConfigFile.thy ===== *)
theory ConfigFile
  imports Settings Paths
begin

text \<open>
  The persistent configuration (\<^verbatim>\<open>internal/controller/configfile.go\<close>): it is written to a
  temporary file that is then renamed. A save is the sequence of the disks the process leaves, one
  after the other, so that a theorem over all of them covers a process that dies at any point (the
  order in which the operating system brings them to the medium is not part of the model). The JSON
  codec is a parameter; what is assumed of it is that it reads back what it wrote.
\<close>

section \<open>Saving and loading\<close>

type_synonym disk = "string \<rightharpoonup> string"

datatype save_error = SaveMkdir | SaveMarshal | SaveWrite | SaveRename

text \<open>How the calls go: \<open>cfParts\<close> are the lengths of the file that can be seen while it is written.\<close>

record save_env =
  cfMkdirs :: bool
  cfOpens :: bool
  cfParts :: "nat list"
  cfWrites :: bool
  cfRenames :: bool

definition WriteFile :: "save_env \<Rightarrow> string \<Rightarrow> string \<Rightarrow> disk \<Rightarrow> bool \<times> disk list" where [go_eval]:
  "WriteFile env p content d =
    (if \<not> cfOpens env then (False, [])
     else
       let parts = map (\<lambda>n. d(p \<mapsto> take n content)) (0 # cfParts env)
       in if cfWrites env then (True, parts @ [d(p \<mapsto> content)]) else (False, parts))"

definition SaveConfigFile ::
  "(Config \<Rightarrow> string option) \<Rightarrow> save_env \<Rightarrow> string \<Rightarrow> Config \<Rightarrow> disk \<Rightarrow> save_error option \<times> disk list"
where [go_eval]:
  "SaveConfigFile marshal env path cfg d =
    (let dir = Dir path
     in if dir \<noteq> [] \<and> dir \<noteq> ''.'' \<and> \<not> cfMkdirs env then (Some SaveMkdir, [d])
        else case marshal cfg of
               None \<Rightarrow> (Some SaveMarshal, [d])
             | Some content \<Rightarrow>
                 let content = content @ [CHR 0x0A];
                     tmp = path @ ''.tmp''
                 in case WriteFile env tmp content d of
                      (False, ds) \<Rightarrow> (Some SaveWrite, d # ds)
                    | (True, ds) \<Rightarrow>
                        if \<not> cfRenames env then (Some SaveRename, d # ds)
                        else (None, d # ds @ [(last ds)(path := last ds tmp, tmp := None)]))"

definition LoadConfigFile :: "(string \<Rightarrow> Config option) \<Rightarrow> bool \<Rightarrow> string \<Rightarrow> disk \<Rightarrow> load_result" where [go_eval]:
  "LoadConfigFile unmarshal readable path d =
    (case d path of
       None \<Rightarrow> NoSuchFile
     | Some content \<Rightarrow>
         if \<not> readable then LoadError
         else case unmarshal content of None \<Rightarrow> LoadError | Some cfg \<Rightarrow> Loaded cfg)"

section \<open>A save is all or nothing\<close>

lemma tmp_differs [simp]: "path @ ''.tmp'' \<noteq> path" "path \<noteq> path @ ''.tmp''"
  by simp_all

lemma WriteFile_states:
  assumes "WriteFile env p content d = (ok, ds)"
  shows "\<forall>e \<in> set ds. \<forall>q. q \<noteq> p \<longrightarrow> e q = d q"
    and "ok \<Longrightarrow> ds \<noteq> [] \<and> last ds = d(p \<mapsto> content)"
  using assms by (auto simp: WriteFile_def Let_def split: if_splits)

lemma save_states:
  assumes "SaveConfigFile marshal env path cfg d = (err, ds)"
  shows "(\<forall>e \<in> set ds. (e path = d path \<or> e path = map_option (\<lambda>s. s @ [CHR 0x0A]) (marshal cfg)) \<and>
      (\<forall>p. p \<notin> {path, path @ ''.tmp''} \<longrightarrow> e p = d p)) \<and>
    last ds path = (if err = None then map_option (\<lambda>s. s @ [CHR 0x0A]) (marshal cfg) else d path)"
proof (cases "marshal cfg")
  case None
  with assms show ?thesis by (auto simp: SaveConfigFile_def Let_def split: if_splits)
next
  case (Some content)
  show ?thesis
  proof (cases "Dir path \<noteq> [] \<and> Dir path \<noteq> ''.'' \<and> \<not> cfMkdirs env")
    case True
    with assms have "err = Some SaveMkdir" "ds = [d]" by (simp_all add: SaveConfigFile_def)
    then show ?thesis by simp
  next
    case False
    obtain ok parts where w: "WriteFile env (path @ ''.tmp'') (content @ [CHR 0x0A]) d = (ok, parts)" by fastforce
    note states = WriteFile_states [OF w]
    show ?thesis
    proof (cases "ok \<and> cfRenames env")
      case True
      have ds: "err = None" "ds = d # parts @ [(last parts)(path := last parts (path @ ''.tmp''), path @ ''.tmp'' := None)]"
        using assms False True by (simp_all add: SaveConfigFile_def Let_def Some w)
      then show ?thesis using states True by (auto simp: Some)
    next
      case fails: False
      have ds: "err \<noteq> None" "ds = d # parts"
        using assms False fails by (auto simp: SaveConfigFile_def Let_def Some w split: bool.splits)
      then show ?thesis using states(1) by (auto simp: last_in_set)
    qed
  qed
qed

text \<open>
  C19. Whichever call of a save fails and wherever the process dies, the configuration file holds
  either what it held before or the whole new configuration: a save that reports success has put it
  there, one that reports an error has left the file alone, and no file but the temporary one is
  touched beside it.
\<close>

theorem save_is_atomic:
  assumes "SaveConfigFile marshal env path cfg d = (err, ds)"
  shows "(\<forall>e \<in> set ds. (e path = d path \<or> e path = map_option (\<lambda>s. s @ [CHR 0x0A]) (marshal cfg)) \<and>
      (\<forall>p. p \<notin> {path, path @ ''.tmp''} \<longrightarrow> e p = d p)) \<and>
    last ds path = (if err = None then map_option (\<lambda>s. s @ [CHR 0x0A]) (marshal cfg) else d path)"
  using assms by (rule save_states)

section \<open>A restart finds the configuration\<close>

text \<open>A normalised configuration is its own normal form, also in the order of its disabled phases.\<close>

lemma normalize_group:
  "distinct g \<Longrightarrow> foldl (normalize_add al) out g = out @ filter (\<lambda>x. x \<in> set al \<and> x \<notin> set out) g"
proof (induction g arbitrary: out)
  case (Cons x g)
  have "filter (\<lambda>y. y \<in> set al \<and> y \<notin> set (out @ [x])) g = filter (\<lambda>y. y \<in> set al \<and> y \<notin> set out) g"
    using Cons.prems by (intro filter_cong) auto
  with Cons show ?case by (simp add: normalize_add_def)
qed simp

definition normalized :: "phase list \<Rightarrow> phase list \<Rightarrow> phase list" where
  "normalized al ps = foldl (\<lambda>out p. foldl (normalize_add al) out (PhaseToggleGroup p)) [] ps"

lemma normalized_snoc:
  "normalized al (ps @ [p]) =
   normalized al ps @ filter (\<lambda>x. x \<in> set al \<and> x \<notin> set (normalized al ps)) (PhaseToggleGroup p)"
  by (simp add: normalized_def normalize_group distinct_toggle_group)

lemma set_normalized: "set (normalized al ps) = {x \<in> set al. \<exists>p \<in> set ps. x \<in> set (PhaseToggleGroup p)}"
proof (induction ps rule: rev_induct)
  case (snoc p ps)
  then show ?case by (auto simp: normalized_snoc)
qed (simp add: normalized_def)

text \<open>The members of one group add the group once.\<close>

lemma normalized_members:
  assumes "\<forall>x \<in> set xs. PhaseToggleGroup x = PhaseToggleGroup p" "xs \<noteq> []"
  shows "normalized al (ps @ xs) = normalized al (ps @ [p])"
  using assms
proof (induction xs rule: rev_induct)
  case (snoc x xs)
  have group: "PhaseToggleGroup x = PhaseToggleGroup p" using snoc.prems by simp
  show ?case
  proof (cases "xs = []")
    case False
    have ih: "normalized al (ps @ xs) = normalized al (ps @ [p])" using snoc False by simp
    have "filter (\<lambda>y. y \<in> set al \<and> y \<notin> set (normalized al (ps @ [p]))) (PhaseToggleGroup p) = []"
      by (auto simp: set_normalized filter_empty_conv)
    then show ?thesis
      using normalized_snoc [of al "ps @ xs" x] by (simp add: ih group)
  qed (simp add: normalized_snoc group)
qed simp

lemma normalized_idem: "normalized al (normalized al ps) = normalized al ps"
proof (induction ps rule: rev_induct)
  case (snoc p ps)
  define new where "new = filter (\<lambda>x. x \<in> set al \<and> x \<notin> set (normalized al ps)) (PhaseToggleGroup p)"
  have step: "normalized al (ps @ [p]) = normalized al ps @ new" by (simp add: normalized_snoc new_def)
  show ?case
  proof (cases "new = []")
    case False
    have "normalized al (normalized al ps @ new) = normalized al (normalized al ps @ [p])"
      using False by (intro normalized_members) (auto simp: new_def toggle_group_sym)
    also have "\<dots> = normalized al ps @ new" by (simp add: normalized_snoc snoc.IH new_def)
    finally show ?thesis by (simp add: step)
  qed (use snoc in \<open>simp add: step\<close>)
qed (simp add: normalized_def)

lemma Normalize_idem: "NormalizeDisabledPhases (NormalizeDisabledPhases c) = NormalizeDisabledPhases c"
proof -
  have eq: "NormalizeDisabledPhases c = c\<lparr>DisabledPhases := normalized (EffectivePhaseOrder c) (DisabledPhases c)\<rparr>" for c
    by (simp add: NormalizeDisabledPhases_def normalized_def)
  show ?thesis unfolding eq [of "NormalizeDisabledPhases c"] by (simp add: eq normalized_idem)
qed

lemma SetConfig_published:
  assumes "SetConfig cfg o1 = Inr o2"
  shows "\<exists>c r. o2 = publish_config (NormalizeDisabledPhases c) (o1\<lparr>oCfg := NormalizeDisabledPhases c, oRegistry := r\<rparr>)"
  using assms unfolding SetConfig_def Let_def by (simp split: if_split_asm) blast+

lemma publish_config_result:
  "oCfg (publish_config c o1) = oCfg o1"
  "oConfigPath o1 \<noteq> [] \<Longrightarrow> SaveConfig (oConfigPath o1) c \<in> set (oSent (publish_config c o1))"
  by (simp_all add: publish_config_def Let_def send_def)

text \<open>
  C20. A restart continues with the configuration that was accepted last: when \<open>SetConfig\<close> has
  accepted a configuration, the save that it asks for has succeeded and the codec reads back what it
  wrote, an orchestrator started on that file has exactly the configuration that was in force.
\<close>

theorem restart_restores_config:
  assumes "SetConfig cfg o1 = Inr o2" "oConfigPath o1 \<noteq> []"
    and codec: "marshal (oCfg o2) = Some content" "unmarshal (content @ [CHR 0x0A]) = Some (oCfg o2)"
    and "SaveConfigFile marshal env (oConfigPath o1) (oCfg o2) d = (None, ds)"
  shows "SaveConfig (oConfigPath o1) (oCfg o2) \<in> set (oSent o2) \<and>
    oCfg (NewOrchestrator (LoadConfigFile unmarshal True (oConfigPath o1) (last ds)) (oConfigPath o1) host reg met) =
      oCfg o2"
proof -
  obtain c r where o2: "o2 = publish_config (NormalizeDisabledPhases c) (o1\<lparr>oCfg := NormalizeDisabledPhases c, oRegistry := r\<rparr>)"
    using SetConfig_published [OF assms(1)] by blast
  then have cfg: "oCfg o2 = NormalizeDisabledPhases c" by (simp add: publish_config_result)
  have "last ds (oConfigPath o1) = Some (content @ [CHR 0x0A])"
    using save_states [OF assms(5)] codec(1) by simp
  then have "LoadConfigFile unmarshal True (oConfigPath o1) (last ds) = Loaded (oCfg o2)"
    using codec(2) by (simp add: LoadConfigFile_def)
  moreover have "SaveConfig (oConfigPath o1) (oCfg o2) \<in> set (oSent o2)"
    using publish_config_result(2) [of "o1\<lparr>oCfg := NormalizeDisabledPhases c, oRegistry := r\<rparr>" "NormalizeDisabledPhases c"]
      assms(2) unfolding cfg by (simp add: o2)
  ultimately show ?thesis using assms(2) by (simp add: NewOrchestrator_def Let_def cfg Normalize_idem)
qed

section \<open>Witnesses\<close>

definition demo_save :: save_env where [go_eval]:
  "demo_save = \<lparr>cfMkdirs = True, cfOpens = True, cfParts = [1], cfWrites = True, cfRenames = True\<rparr>"

lemma save_is_atomic_witness:
  "last (snd (SaveConfigFile (\<lambda>c. Some (TestName c)) demo_save ''c.json'' DefaultConfig Map.empty)) ''c.json'' =
    Some (TestName DefaultConfig @ [CHR 0x0A])"
proof -
  obtain err ds where run: "SaveConfigFile (\<lambda>c. Some (TestName c)) demo_save ''c.json'' DefaultConfig Map.empty = (err, ds)"
    by fastforce
  have "fst (SaveConfigFile (\<lambda>c. Some (TestName c)) demo_save ''c.json'' DefaultConfig Map.empty) = None"
    by (simp add: SaveConfigFile_def demo_save_def WriteFile_def Let_def)
  with run have "err = None" by simp
  with save_is_atomic [OF run] show ?thesis by (simp add: run)
qed

lemma restart_restores_config_witness:
  "\<exists>o2 ds. SetConfig DefaultConfig last_group_state = Inr o2 \<and>
    oCfg (NewOrchestrator (LoadConfigFile (\<lambda>s. Some ((oCfg o2)\<lparr>TestName := butlast s\<rparr>)) True ''c.json'' (last ds)) ''c.json'' ''ctl''
      NewRegistry NewMetricsStore) = oCfg o2"
proof -
  have "case SetConfig DefaultConfig last_group_state of Inl e \<Rightarrow> False | Inr o2 \<Rightarrow> True" by code_simp
  then obtain o2 where accepted: "SetConfig DefaultConfig last_group_state = Inr o2" by (auto split: sum.splits)
  have path: "oConfigPath last_group_state = ''c.json''"
    by (simp add: last_group_state_def NewOrchestrator_def Let_def)
  have "fst (SaveConfigFile (\<lambda>c. Some (TestName c)) demo_save (oConfigPath last_group_state) (oCfg o2) Map.empty) = None"
    by (simp add: SaveConfigFile_def demo_save_def WriteFile_def Let_def)
  then obtain ds where saved: "SaveConfigFile (\<lambda>c. Some (TestName c)) demo_save (oConfigPath last_group_state) (oCfg o2) Map.empty = (None, ds)"
    by (cases "SaveConfigFile (\<lambda>c. Some (TestName c)) demo_save (oConfigPath last_group_state) (oCfg o2) Map.empty") simp
  have "oConfigPath last_group_state \<noteq> []" by (simp add: path)
  from restart_restores_config [OF accepted this _ _ saved, of "TestName (oCfg o2)" "\<lambda>s. Some ((oCfg o2)\<lparr>TestName := butlast s\<rparr>)" "''ctl''" NewRegistry NewMetricsStore]
  show ?thesis using accepted by (auto simp: path)
qed

end
