(* ===== verification/CommandContract.thy ===== *)
theory CommandContract
  imports RunSystem ClientSoftware
begin

text \<open>
  The contract between the orchestrator (\<^verbatim>\<open>internal/controller/orchestrator.go\<close>) and the
  worker (\<^verbatim>\<open>internal/client/worker.go\<close>, \<^verbatim>\<open>software.go\<close>): the two sides check
  a command independently, and the worker has errors for a phase it does not know, for a software
  phase without a command and for a file that is too small. No command of a run meets one of them,
  and the worker works for the time the orchestrator waits.
\<close>

section \<open>What the worker can use\<close>

text \<open>The errors of a command that says too little.\<close>

fun misread :: "run_error option \<Rightarrow> bool" where
  "misread (Some ErrNoCommand) = True"
| "misread (Some (ErrUnknownPhase ph)) = True"
| "misread (Some (ErrSmallFile a b)) = True"
| "misread _ = False"

definition understood :: "PhaseCommand \<Rightarrow> bool" where
  "understood cmd \<longleftrightarrow>
    (case Run_dispatch (pcPhase cmd) (pcForceCleanup cmd) of
       UnknownPhase ph \<Rightarrow> False
     | SoftwareStartup cold \<Rightarrow> \<forall>env w. \<not> misread (fst (runSoftwareStartup cmd cold env w))
     | RunUntar \<Rightarrow> \<forall>auth host env w. \<not> misread (fst (runUntar auth host cmd env w))
     | RunRIOPS \<Rightarrow> riops_sizes cmd = Inr (RIOPSFileSize, directAlign, 262144)
     | _ \<Rightarrow> 0 \<le> pcFileSize cmd)"

text \<open>How long the orchestrator waits for a command of its plan.\<close>

definition waits_for :: "Config \<Rightarrow> PhaseCommand \<Rightarrow> duration" where
  "waits_for cfg cmd =
    (if pcForceCleanup cmd then FinalCleanupTimeout
     else if pcPhase cmd = PhaseSoftwareCold then SoftwareStartupColdTimeout
     else if pcPhase cmd = PhaseSoftwareWarm then SoftwareStartupWarmTimeout
     else if pcPhase cmd \<in> {PhaseGitClone, PhaseUntar} then SoftwareOpTimeout
     else if pcPhase cmd = PhaseRIOPS then PhaseStepDuration cfg * RIOPSDurationSteps
     else PhaseStepDuration cfg)"

definition well_timed :: "Config \<Rightarrow> PhaseCommand \<Rightarrow> bool" where
  "well_timed cfg cmd \<longleftrightarrow> durationOf cmd = waits_for cfg cmd"

section \<open>The commands of the plan\<close>

lemma startup_not_misread:
  "TrimSpace (pcStartupCommand cmd) \<noteq> [] \<Longrightarrow> \<not> misread (fst (runSoftwareStartup cmd cold env w))"
  by (simp add: runSoftwareStartup_def Let_def)

lemma untar_not_misread:
  assumes "TrimSpace (pcUntarURL cmd) \<noteq> []"
  shows "\<not> misread (fst (runUntar auth host cmd env w))"
proof -
  have "\<not> misread (Some e)" if "fst (prepareHostWorkDir host cmd sub env w) = Inl e" for e sub
    using that by (auto simp: prepareHostWorkDir_def Let_def split: prod.splits if_splits)
  with assms show ?thesis by (auto simp: runUntar_def Let_def split: sum.split prod.split) (metis fst_conv)+
qed

lemma riops_sizes_planned: "pcFileSize cmd = RIOPSFileSize \<Longrightarrow> riops_sizes cmd = Inr (RIOPSFileSize, directAlign, 262144)"
  by (simp add: riops_sizes_def Let_def RIOPSIOSize_def directAlign_def RIOPSFileSize_def sdiv_pos)

lemma durationOf_seconds: "0 < d \<Longrightarrow> pcDuration cmd = Seconds d \<Longrightarrow> durationOf cmd = d"
  by (simp add: durationOf_def) (simp add: Seconds_def)

lemma understood_send:
  assumes "ph \<in> {PhaseCreate, PhaseDelete, PhaseWriteBW, PhaseReadBW, PhaseReadWrite, PhaseFinalDelete}" "0 \<le> sz"
  shows "understood (send_command cfg ph pct r rr sz step)"
  using assms by (auto simp: understood_def send_command_def zero_PhaseCommand_def)

lemma understood_riops: "understood (send_command cfg PhaseRIOPS pct r rr RIOPSFileSize step)"
  by (simp add: understood_def send_command_def zero_PhaseCommand_def riops_sizes_planned)

lemma understood_cleanup: "understood (cleanup_command cfg)"
  by (simp add: understood_def cleanup_command_def zero_PhaseCommand_def)

lemma understood_software:
  "SoftwareEnabled cfg \<Longrightarrow> understood (software_command cfg PhaseSoftwareCold t)"
  "SoftwareEnabled cfg \<Longrightarrow> understood (software_command cfg PhaseSoftwareWarm t)"
  "understood (software_command cfg PhaseGitClone t)"
  "UntarEnabled cfg \<Longrightarrow> understood (software_command cfg PhaseUntar t)"
  by (simp_all add: understood_def software_command_def zero_PhaseCommand_def SoftwareEnabled_def UntarEnabled_def
      startup_not_misread untar_not_misread)

lemma planned_all:
  "list_all Q (if b then xs else []) = (b \<longrightarrow> list_all Q xs)" for xs :: "PhaseCommand list"
  by simp

lemma plan_understood: "list_all understood (act_commands (plan_acts cfg n))"
proof -
  have sizes: "0 \<le> CreateFileSize" "0 \<le> BandwidthFileSize" by (simp_all add: CreateFileSize_def BandwidthFileSize_def)
  have soft: "list_all understood (call_commands cfg (software_calls cfg))"
    unfolding software_calls_def call_commands_append call_commands_if call_commands_simps list_all_append planned_all
    by (simp add: understood_software run_software_def run_untar_def call_commands_simps split: if_split)
  show ?thesis
    unfolding plan_commands run_calls_def Let_def call_commands_append call_commands_if
      call_commands_ramp call_commands_simps list_all_append planned_all list.pred_inject list.pred_map comp_def
    by (intro conjI impI soft understood_cleanup understood_riops TrueI; simp add: understood_send sizes list_all_iff)
qed

lemma well_timedI: "0 < d \<Longrightarrow> pcDuration cmd = Seconds d \<Longrightarrow> waits_for cfg cmd = d \<Longrightarrow> well_timed cfg cmd"
  by (simp add: well_timed_def durationOf_seconds)

lemma timeouts_positive [simp]:
  "0 < FinalCleanupTimeout" "0 < SoftwareStartupColdTimeout" "0 < SoftwareStartupWarmTimeout" "0 < SoftwareOpTimeout"
  by (simp_all add: FinalCleanupTimeout_def SoftwareStartupColdTimeout_def SoftwareStartupWarmTimeout_def
      SoftwareOpTimeout_def Minute_def Second_def)

lemma timed_send:
  assumes "0 < PhaseStepDuration cfg"
  shows "ph \<in> {PhaseCreate, PhaseDelete, PhaseWriteBW, PhaseReadBW, PhaseReadWrite, PhaseFinalDelete} \<Longrightarrow>
      well_timed cfg (send_command cfg ph pct r rr sz (PhaseStepDuration cfg))"
    and "well_timed cfg (send_command cfg PhaseRIOPS pct r rr sz (PhaseStepDuration cfg * RIOPSDurationSteps))"
proof -
  show "well_timed cfg (send_command cfg ph pct r rr sz (PhaseStepDuration cfg))"
    if "ph \<in> {PhaseCreate, PhaseDelete, PhaseWriteBW, PhaseReadBW, PhaseReadWrite, PhaseFinalDelete}"
    using assms that
    by (intro well_timedI [where d = "PhaseStepDuration cfg"])
      (auto simp: waits_for_def send_command_def zero_PhaseCommand_def)
  have "0 < PhaseStepDuration cfg * RIOPSDurationSteps" using assms by (simp add: RIOPSDurationSteps_def)
  then show "well_timed cfg (send_command cfg PhaseRIOPS pct r rr sz (PhaseStepDuration cfg * RIOPSDurationSteps))"
    by (rule well_timedI) (simp_all add: waits_for_def send_command_def zero_PhaseCommand_def)
qed

lemma timed_software:
  "t = waits_for cfg (software_command cfg ph t) \<Longrightarrow> 0 < t \<Longrightarrow> well_timed cfg (software_command cfg ph t)"
  by (rule well_timedI [where d = t]) (simp_all add: software_command_def)

lemma timed_others:
  "well_timed cfg (cleanup_command cfg)"
  "well_timed cfg (software_command cfg PhaseSoftwareCold SoftwareStartupColdTimeout)"
  "well_timed cfg (software_command cfg PhaseSoftwareWarm SoftwareStartupWarmTimeout)"
  "well_timed cfg (software_command cfg PhaseGitClone SoftwareOpTimeout)"
  "well_timed cfg (software_command cfg PhaseUntar SoftwareOpTimeout)"
proof -
  show "well_timed cfg (cleanup_command cfg)"
    by (rule well_timedI [OF timeouts_positive(1)]) (simp_all add: cleanup_command_def waits_for_def)
qed (rule timed_software; simp add: waits_for_def software_command_def zero_PhaseCommand_def)+

lemma plan_well_timed:
  assumes "0 < PhaseStepDuration cfg"
  shows "list_all (well_timed cfg) (act_commands (plan_acts cfg n))"
proof -
  have soft: "list_all (well_timed cfg) (call_commands cfg (software_calls cfg))"
    unfolding software_calls_def call_commands_append call_commands_if call_commands_simps list_all_append planned_all
    by (simp add: timed_others call_commands_simps split: if_split)
  show ?thesis
    unfolding plan_commands run_calls_def Let_def call_commands_append call_commands_if
      call_commands_ramp call_commands_simps list_all_append planned_all list.pred_inject list.pred_map comp_def
    by (intro conjI impI soft timed_others TrueI; simp add: timed_send assms list_all_iff)
qed

section \<open>Every command of a run\<close>

lemma sent_in_plan:
  assumes "reachable s" "announced (sRun s)" "oRunning (sOrch s)" "cmd \<in> set (sent_commands (sOrch s))"
  shows "\<exists>n. cmd \<in> set (act_commands (plan_acts (oCfg (sOrch s)) n))"
proof -
  have "plan_ok (sCtx s \<in> set (sCancelled s)) (sOrch s) (sRun s)"
    using run_plan_ok_reachable [OF assms(1)] assms(3) by (simp add: run_plan_ok_def)
  then have "prefix (sent_commands (sOrch s) @ todo (oCfg (sOrch s)) (sRun s)) (full_plan (sOrch s))"
    unfolding plan_ok_announced [OF assms(2)] by blast
  then have "cmd \<in> set (full_plan (sOrch s))" using assms(4) by (auto dest: append_prefixD set_mono_prefix)
  then show ?thesis by (auto simp: full_plan_def)
qed


text \<open>
  \<open>SetConfig\<close> refuses a step below one second, but a configuration file is used as it is. With a
  step below a nanosecond the two sides disagree: its conversion gives 0, for which the orchestrator
  does not wait, while the worker takes a duration of 0 for the default of 30 seconds.
\<close>

theorem tiny_step_disagrees:
  "PhaseStepDuration (bare_config\<lparr>PhaseStepSeconds := 1 / 10000000000\<rparr>) = 0 \<and>
   durationOf (send_command bare_config PhaseCreate 10 1 0 CreateFileSize
     (PhaseStepDuration (bare_config\<lparr>PhaseStepSeconds := 1 / 10000000000\<rparr>))) = 30 * Second"
  by code_simp

section \<open>Where the software is\<close>

lemma installed_everywhere:
  assumes "install_loop dir dest res i pss = (None, placed)" "p \<in> set pss" "TrimSpace p \<noteq> []"
  shows "dest (TrimSpace p) \<in> set placed"
  using assms
proof (induction pss arbitrary: i placed)
  case (Cons q pss)
  show ?case
  proof (cases "TrimSpace q = []")
    case True
    with Cons show ?thesis by auto
  next
    case False
    obtain e rest where rest: "install_loop dir dest res (i + 1) pss = (e, rest)" by fastforce
    with Cons.prems(1) False have "e = None" "placed = dest (TrimSpace q) # rest"
      by (auto simp: Let_def split: install_result.splits)
    with Cons rest show ?thesis by auto
  qed
qed simp

text \<open>A prefix is plain when trimming does not change it and it is not blank.\<close>

definition plain_prefixes :: "string list \<Rightarrow> bool" where
  "plain_prefixes pss \<longleftrightarrow> pss \<noteq> [] \<and> (\<forall>p \<in> set pss. TrimSpace p = p \<and> p \<noteq> [])"

lemma plain_selected: "plain_prefixes pss \<Longrightarrow> SelectPrefix h pss \<in> set pss \<and> TrimSpace (SelectPrefix h pss) = SelectPrefix h pss \<and>
    SelectPrefix h pss \<noteq> []"
  using SelectPrefix_in [of pss h] by (auto simp: plain_prefixes_def)

lemma installed_for_host:
  "install_loop dir dest res 0 pss = (None, placed) \<Longrightarrow> plain_prefixes pss \<Longrightarrow> dest (SelectPrefix h pss) \<in> set placed"
  using installed_everywhere [of dir dest res 0 pss placed "SelectPrefix h pss"] plain_selected [of pss h] by simp

lemma missing_directory: "fst (runSoftwareStartup cmd cold env w) = Some (ErrMissing d) \<Longrightarrow>
    d = software_Dir (pcPrefix cmd) (pcTestName cmd)"
  by (auto simp: runSoftwareStartup_def Let_def split: if_split_asm)

lemma prepare_not_missing: "fst (prepareHostWorkDir host cmd sub env w) \<noteq> Inl (ErrMissing d)"
  by (auto simp: prepareHostWorkDir_def Let_def split: prod.split)

lemma missing_bundle: "fst (runGitClone host cmd env w) = Some (ErrMissing d) \<Longrightarrow> d = GitBundlePath (pcPrefix cmd) (pcTestName cmd)"
  using prepare_not_missing [of host cmd "''git''" env w d]
  by (auto simp: runGitClone_def Let_def split: if_split_asm sum.splits prod.splits)

lemma missing_archive: "fst (runUntar ok host cmd env w) = Some (ErrMissing d) \<Longrightarrow>
    d = UntarArchivePath ok (pcPrefix cmd) (pcTestName cmd) (TrimSpace (pcUntarURL cmd))"
  using prepare_not_missing [of host cmd "''untar''" env w d]
  by (auto simp: runUntar_def Let_def split: if_split_asm sum.splits prod.splits)

text \<open>
  C13. The clients look for the software where the controller has put it: when the controller's
  preparations for a configuration with plain prefixes have succeeded, then on every host, with the
  prefix its name selects, whatever a software, git or untar phase reports as missing is a place
  that the controller has filled; no client can miss a place that was never meant for it.
\<close>

theorem software_is_where_clients_look:
  assumes "plain_prefixes (Prefixes cfg)"
    and "cmd = (software_command cfg ph t)\<lparr>pcPrefix := SelectPrefix h (Prefixes cfg)\<rparr>"
  shows "(UnpackToPrefixes tmp dl res (PackageURL cfg) (Prefixes cfg) (TestName cfg) = (None, placed) \<and>
      fst (runSoftwareStartup cmd cold env w) = Some (ErrMissing d) \<longrightarrow> d \<in> set placed) \<and>
    (BundleToPrefixes tmp cl bu res (GitCloneURL cfg) (Prefixes cfg) (TestName cfg) = (None, placed) \<and>
      fst (runGitClone h cmd env w) = Some (ErrMissing d) \<longrightarrow> d \<in> set placed) \<and>
    (DownloadUntarToPrefixes ok tmp dl res (UntarURL cfg) (Prefixes cfg) (TestName cfg) = (None, placed) \<and>
      fst (runUntar ok h cmd env w) = Some (ErrMissing d) \<longrightarrow> d \<in> set placed)"
proof -
  have cmd: "pcPrefix cmd = SelectPrefix h (Prefixes cfg)" "pcTestName cmd = TestName cfg" "pcUntarURL cmd = UntarURL cfg"
    by (simp_all add: assms(2) software_command_def)
  note here = installed_for_host [OF _ assms(1), of _ _ res placed h]
  have "software_Dir (pcPrefix cmd) (pcTestName cmd) \<in> set placed"
    if "UnpackToPrefixes tmp dl res (PackageURL cfg) (Prefixes cfg) (TestName cfg) = (None, placed)"
    using that here by (auto simp: cmd UnpackToPrefixes_def split: if_split_asm)
  moreover have "GitBundlePath (pcPrefix cmd) (pcTestName cmd) \<in> set placed"
    if "BundleToPrefixes tmp cl bu res (GitCloneURL cfg) (Prefixes cfg) (TestName cfg) = (None, placed)"
    using that here by (auto simp: cmd BundleToPrefixes_def split: if_split_asm)
  moreover have "UntarArchivePath ok (pcPrefix cmd) (pcTestName cmd) (TrimSpace (pcUntarURL cmd)) \<in> set placed"
    if "DownloadUntarToPrefixes ok tmp dl res (UntarURL cfg) (Prefixes cfg) (TestName cfg) = (None, placed)"
    using that here by (auto simp: cmd DownloadUntarToPrefixes_def Let_def split: if_split_asm)
  ultimately show ?thesis
    using missing_directory [of cmd cold env w d] missing_bundle [of h cmd env w d] missing_archive [of ok h cmd env w d]
    by auto
qed

definition missing_env :: sw_env where [go_eval]:
  "missing_env = \<lparr>seArtifact = False, seClear = True, seMkdir = True, seRunOk = True, seElapsed = 0, seDisk = [],
    seFiles = 0, seStuck = []\<rparr>"

text \<open>
  A prefix with a space around it is not plain: the controller trims it and the client does not, so
  that the client misses a directory that the controller never makes.
\<close>

theorem untrimmed_prefix_is_missed:
  "UnpackToPrefixes True True (\<lambda>i. Installed) ''u'' [''/a ''] ''t'' = (None, [''/a/t/software'']) \<and>
   fst (runSoftwareStartup (zero_PhaseCommand\<lparr>pcPrefix := ''/a '', pcTestName := ''t'', pcStartupCommand := ''x''\<rparr>) True
     missing_env demo_world) = Some (ErrMissing ''/a /t/software'')"
  by code_simp

section \<open>Witnesses\<close>

definition first_command :: System where [go_eval]:
  "first_command = run_trace (replicate 6 (3, EvRun True)) (started bare_config)"


definition plain_config :: Config where [go_eval]:
  "plain_config = bare_config\<lparr>Prefixes := [''/a''], TestName := ''t'', PackageURL := ''u''\<rparr>"

lemma software_is_where_clients_look_witness:
  "''/a/t/software'' \<in> set (snd (UnpackToPrefixes True True (\<lambda>i. Installed) ''u'' [''/a''] ''t''))"
proof -
  let ?cmd = "(software_command plain_config PhaseSoftwareCold 1)\<lparr>pcPrefix := SelectPrefix ''h'' (Prefixes plain_config)\<rparr>"
  have fields: "Prefixes plain_config = [''/a'']" "TestName plain_config = ''t''" "PackageURL plain_config = ''u''"
    by (simp_all add: plain_config_def)
  have "TrimSpace ''/a'' = ''/a''" by code_simp
  then have plain: "plain_prefixes (Prefixes plain_config)" by (simp add: plain_prefixes_def fields)
  have select: "SelectPrefix ''h'' [''/a''] = ''/a''" by (simp add: SelectPrefix_def)
  have "software_Dir ''/a'' ''t'' = ''/a/t/software''" by code_simp
  then have missing: "fst (runSoftwareStartup ?cmd True missing_env demo_world) = Some (ErrMissing ''/a/t/software'')"
    by (simp add: runSoftwareStartup_def missing_env_def software_command_def fields select)
  obtain placed where placed: "UnpackToPrefixes True True (\<lambda>i. Installed) ''u'' [''/a''] ''t'' = (None, placed)"
    by (rule that) code_simp
  from software_is_where_clients_look [OF plain refl, where h = "''h''" and ph = PhaseSoftwareCold and t = 1 and tmp = True
      and dl = True and res = "\<lambda>i. Installed" and placed = placed and cold = True and env = missing_env
      and w = demo_world and d = "''/a/t/software''"]
  have "''/a/t/software'' \<in> set placed" using placed missing by (simp add: fields)
  with placed show ?thesis by simp
qed

end
