(* ===== verification/Delivery.thy ===== *)
theory Delivery
  imports Server
begin

text \<open>
  From the orchestrator's sends to the connections: which steps a client's queue holds compared with
  the steps commanded. The parts of every server event are collected once, as the moves of the
  server (\<open>moves\<close>); the participants of a run are shown to be without duplicates, so that no command
  enters a queue twice; and a queue is shown to hold, in order, commands not handed out before.
\<close>

section \<open>Steps and their commands\<close>

text \<open>A command as its step: the phase and the percentage.\<close>

type_synonym step = "phase \<times> int"

definition cmd_step :: "PhaseCommand \<Rightarrow> step" where [go_eval]:
  "cmd_step cmd = (pcPhase cmd, pcPercent cmd)"

definition env_step :: "Envelope \<Rightarrow> step option" where [go_eval]:
  "env_step env = (if envType env = ''command'' then map_option cmd_step (envCommand env) else None)"

definition steps :: "Envelope list \<Rightarrow> step list" where [go_eval]:
  "steps envs = List.map_filter env_step envs"

fun effect_step :: "effect \<Rightarrow> step option" where
  "effect_step (Broadcast env) = env_step env"
| "effect_step (BroadcastTo ids env) = env_step env"
| "effect_step _ = None"

definition commanded :: "effect list \<Rightarrow> step list" where [go_eval]:
  "commanded sent = List.map_filter effect_step sent"

lemma steps_simps [simp]:
  "steps [] = []" "steps (env # envs) = (case env_step env of None \<Rightarrow> steps envs | Some x \<Rightarrow> x # steps envs)"
  "steps (xs @ ys) = steps xs @ steps ys"
  by (simp_all add: steps_def map_filter_simps split: option.split)

lemma commanded_simps [simp]:
  "commanded [] = []" "commanded (xs @ ys) = commanded xs @ commanded ys"
  "commanded [x] = (case effect_step x of None \<Rightarrow> [] | Some y \<Rightarrow> [y])"
  by (simp_all add: commanded_def map_filter_simps split: option.split)

lemma steps_drop: "subseq (steps (drop k xs)) (steps xs)"
proof -
  have "steps xs = steps (take k xs) @ steps (drop k xs)" by (simp flip: steps_simps(3))
  then show ?thesis by (simp add: subseq_drop_many)
qed

section \<open>The participants of a run are distinct\<close>

fun effect_ok :: "effect \<Rightarrow> bool" where
  "effect_ok (Broadcast env) = (env_step env = None)"
| "effect_ok (BroadcastTo ids env) = (env_step env = None \<or> distinct ids)"
| "effect_ok _ = True"

fun act_ok :: "act \<Rightarrow> bool" where
  "act_ok (ABroadcastTo ids env) = (env_step env = None)"
| "act_ok _ = True"

definition ids_ok :: "Orchestrator \<Rightarrow> bool" where
  "ids_ok o1 \<longleftrightarrow> registry_ok (oRegistry o1) \<and> distinct (oSelectedIDs o1) \<and> distinct (oRunClientIDs o1) \<and>
    list_all effect_ok (oSent o1)"

definition ids_inv :: "System \<Rightarrow> bool" where
  "ids_inv s \<longleftrightarrow> ids_ok (sOrch s) \<and> list_all act_ok (sRun s) \<and> list_all (list_all act_ok) (sOthers s)"

lemma ids_ok_frame:
  "oRegistry o2 = oRegistry o1 \<Longrightarrow> oSelectedIDs o2 = oSelectedIDs o1 \<Longrightarrow> oRunClientIDs o2 = oRunClientIDs o1 \<Longrightarrow>
   oSent o2 = oSent o1 \<Longrightarrow> ids_ok o1 \<Longrightarrow> ids_ok o2"
  by (simp add: ids_ok_def)

lemma ids_ok_send: "ids_ok o1 \<Longrightarrow> effect_ok x \<Longrightarrow> ids_ok (send x o1)"
  by (simp add: ids_ok_def send_def)

lemma ids_ok_publish: "ids_ok o1 \<Longrightarrow> ids_ok (publish_config c o1)"
  by (simp add: publish_config_def Let_def ids_ok_send config_envelope_def zero_Envelope_def env_step_def)

lemma ids_ok_cleanup: "ids_ok o1 \<Longrightarrow> ids_ok (cleanupSoftware ps tn o1)"
  unfolding cleanupSoftware_def by (induction ps arbitrary: o1) (simp_all add: Let_def ids_ok_send)

lemma ids_ok_broadcast: "ids_ok o1 \<Longrightarrow> ids_ok (broadcastRun env o1)"
  using ids_ok_send [of o1 "BroadcastTo (oRunClientIDs o1) env"] by (simp add: broadcastRun_def ids_ok_def)

lemma ids_ok_spans [simp]:
  "ids_ok (closePhaseSpanLocked t o1) = ids_ok o1" "ids_ok (freeze_elapsed t o1) = ids_ok o1"
  "ids_ok (o1\<lparr>oMetrics := m\<rparr>) = ids_ok o1" "ids_ok (o1\<lparr>oPhaseSpans := ps\<rparr>) = ids_ok o1"
  "ids_ok (setPhase now ph pct txt2 o1) = ids_ok o1"
  by (simp_all add: ids_ok_def closePhaseSpanLocked_def freeze_elapsed_def setPhase_def Let_def split: option.split)

lemma ids_ok_finish: "ids_ok o1 \<Longrightarrow> ids_ok (finish now msg o1)"
proof -
  assume "ids_ok o1"
  then have "ids_ok (freeze_elapsed now (closePhaseSpanLocked now o1))" by simp
  then have "ids_ok (freeze_elapsed now (closePhaseSpanLocked now o1)\<lparr>oRunClientIDs := []\<rparr>)" by (simp add: ids_ok_def)
  then show ?thesis by (rule ids_ok_frame [rotated -1]) (simp_all add: finish_def Let_def)
qed

lemma act_ok_calls [simp]:
  "list_all act_ok (prepare_acts k)" "list_all act_ok (runSoftwarePhase cfg ph d)"
  "list_all act_ok (sendAndWait cfg ph pct wr rr sz step)" "list_all act_ok (sendFinalCleanup cfg)"
  by (cases k) (simp_all add: runSoftwarePhase_def sendAndWait_def sendFinalCleanup_def)

lemma act_ok_early: "list_all act_ok as \<Longrightarrow> list_all act_ok (early_return as)"
  by (auto simp: early_return_def list_all_iff dest: set_dropWhileD)

lemma exec_ids:
  assumes "exec now cancelled choice o1 as = Some (o2, as2, new)" "ids_ok o1" "list_all act_ok as"
  shows "ids_ok o2 \<and> list_all act_ok as2 \<and> list_all (list_all act_ok) new"
  using assms
  by (cases "(now, cancelled, choice, o1, as)" rule: exec.cases)
    (auto simp: ids_ok_broadcast ids_ok_cleanup ids_ok_finish act_ok_early ids_ok_send
      split: if_splits option.splits run_call.splits)

text \<open>A registry that the server gives the orchestrator is well formed.\<close>

fun event_ok :: "event \<Rightarrow> bool" where
  "event_ok (EvRegistry r) = registry_ok r"
| "event_ok _ = True"

lemma ids_ok_selected: "ids_ok o1 \<Longrightarrow> distinct ids \<Longrightarrow> ids_ok (o1\<lparr>oSelectedIDs := ids, oAutoSelectNew := b\<rparr>)"
  by (simp add: ids_ok_def)

lemma ids_ok_participants: "ids_ok o1 \<Longrightarrow> ids_ok (keep (UpdateParticipants u o1) o1)"
proof -
  assume ok: "ids_ok o1"
  then have reg: "registry_ok (oRegistry o1)" "distinct (oSelectedIDs o1)" by (simp_all add: ids_ok_def)
  note dist = distinct_IDs [OF reg(1)] distinct_take [OF distinct_IDsSorted [OF reg(1)]] distinct_known_ids
    distinct_remove_ids [OF distinct_add_known [OF reg(2)]]
  show ?thesis
    unfolding keep_def UpdateParticipants_def Let_def
    using ok dist by (auto simp: ids_ok_selected)
qed

lemma ids_ok_config: "ids_ok o1 \<Longrightarrow> ids_ok (keep (SetConfig cfg o1) o1)"
proof -
  assume ok: "ids_ok o1"
  then have "ids_ok (publish_config c (o1\<lparr>oCfg := c, oRegistry := ReassignPrefixes ps (oRegistry o1)\<rparr>))" for c ps
    by (intro ids_ok_publish) (simp add: ids_ok_def registry_ok_Reassign)
  with ok show ?thesis
    unfolding SetConfig_def keep_def Let_def by (simp split: if_split)
qed

lemma ids_ok_toggle: "ids_ok o1 \<Longrightarrow> ids_ok (snd (SetPhaseEnabled ph en o1))"
proof -
  assume ok: "ids_ok o1"
  then have cfg: "ids_ok (o1\<lparr>oCfg := c\<rparr>)" for c by (simp add: ids_ok_def)
  then show ?thesis unfolding SetPhaseEnabled_def Let_def using ok ids_ok_publish [OF cfg] by simp
qed

lemma ids_ok_start:
  assumes "Start now ctx o1 = Inr (o2, as)" "ids_ok o1"
  shows "ids_ok o2 \<and> list_all act_ok as"
proof -
  have "distinct (connectedSelectedLocked o1)" using assms(2) by (simp add: ids_ok_def connectedSelectedLocked_def)
  moreover have "list_all act_ok (run_acts cfg n)" for cfg n by (simp add: run_acts_def list_all_iff)
  moreover have "env_step (interval_envelope d) = None" for d
    by (simp add: interval_envelope_def env_step_def)
  ultimately show ?thesis
    using assms by (auto simp: Start_def Let_def ids_ok_def split: if_splits)
qed

lemma ids_ok_stop: "ids_ok o1 \<Longrightarrow> ids_ok (fst (Stop now o1)) \<and> list_all act_ok (snd (Stop now o1))"
  by (auto simp: Stop_def Let_def cancel_acts_def split: option.split) (simp_all add: ids_ok_def)

lemma ids_ok_removed:
  "ids_ok o1 \<Longrightarrow> ids_ok (fst (OnClientRemoved now cid h o1)) \<and> list_all act_ok (snd (OnClientRemoved now cid h o1))"
  by (auto simp: OnClientRemoved_def Let_def cancel_acts_def split: option.split) (simp_all add: ids_ok_def)

lemma ids_inv_orch: "ids_inv s \<Longrightarrow> (\<And>o1. ids_ok o1 \<Longrightarrow> ids_ok (f o1)) \<Longrightarrow> ids_inv (on_orch f s)"
  by (simp add: ids_inv_def on_orch_def)

lemma ids_inv_spawn: "ids_inv s \<Longrightarrow> ids_ok (fst r) \<Longrightarrow> list_all act_ok (snd r) \<Longrightarrow> ids_inv (spawn r s)"
  by (simp add: ids_inv_def spawn_def split: prod.split)

lemma ids_inv_step:
  assumes "ids_inv s" "event_ok e"
  shows "ids_inv (sys_step now e s)"
proof -
  have sys: "ids_ok (sOrch s)" "list_all act_ok (sRun s)" "list_all (list_all act_ok) (sOthers s)"
    using assms(1) by (simp_all add: ids_inv_def)
  have "ids_inv (event_step now e s)"
  proof (cases e)
    case (EvRun choice)
    with assms(1) sys show ?thesis
      by (auto simp: step_run_def ids_inv_def split: option.split dest: exec_ids)
  next
    case (EvOther i choice)
    have "list_all act_ok (sOthers s ! i)" if "i < length (sOthers s)"
      using sys(3) that by (simp add: list_all_length)
    then have "ids_inv (step_other now i choice s)"
      using assms(1) sys exec_ids [of now False choice "sOrch s" "sOthers s ! i"]
      by (auto simp: step_other_def ids_inv_def list_all_update split: option.split)
    then show ?thesis by (simp add: EvOther)
  next
    case EvStart
    with assms(1) sys show ?thesis
      by (auto simp: step_start_def ids_inv_def split: sum.split dest: ids_ok_start)
  next
    case (EvRegistered cid)
    have "ids_ok (OnClientRegistered cid o1)" if "ids_ok o1" for o1
      using that by (simp add: OnClientRegistered_def ids_ok_def)
    then show ?thesis using EvRegistered assms(1) by (simp add: ids_inv_orch)
  next
    case (EvSelect ids)
    have "ids_ok (keep (SetSelectedClients ids o1) o1)" if "ids_ok o1" for o1
      using that by (simp add: keep_def SetSelectedClients_def Let_def ids_ok_selected distinct_known_ids)
    then show ?thesis using EvSelect assms(1) by (simp add: ids_inv_orch)
  next
    case (EvFiles n)
    have "ids_ok (UpdateClientFiles n o1)" if "ids_ok o1" for o1
      using that by (simp add: UpdateClientFiles_def ids_ok_def)
    then show ?thesis using EvFiles assms(1) by (simp add: ids_inv_orch)
  next
    case (EvRegistry r)
    have "ids_ok (o1\<lparr>oRegistry := r\<rparr>)" if "ids_ok o1" for o1
      using that EvRegistry assms(2) by (simp add: ids_ok_def)
    then show ?thesis using EvRegistry assms(1) by (simp add: ids_inv_orch)
  qed (use assms(1) sys in \<open>simp_all add: ids_inv_orch ids_inv_spawn ids_ok_participants ids_ok_config ids_ok_toggle
    ids_ok_stop ids_ok_removed\<close>)
  then show ?thesis by (simp add: sys_step_def ids_inv_def)
qed

section \<open>The moves of the server\<close>

text \<open>
  What the events of the server are made of, as far as the orchestrator, the clients and their queues
  are concerned: a step of the orchestrator with the delivery of what it sends, a client forgotten or
  stopped, a welcome, an installed client, a turn of a writer; the rest leaves them alone.
\<close>

inductive moves :: "time \<Rightarrow> Server \<Rightarrow> Server \<Rightarrow> bool" for now s where
  none: "moves now s s"
| system: "moves now s t \<Longrightarrow> (registry_ok (oRegistry (orch t)) \<Longrightarrow> event_ok e) \<Longrightarrow> moves now s (on_system now e t)"
| other: "moves now s t \<Longrightarrow> svSys u = svSys t \<Longrightarrow> svWs u = svWs t \<Longrightarrow> svClients u = svClients t \<Longrightarrow> moves now s u"
| forget: "moves now s t \<Longrightarrow> moves now s (t\<lparr>svClients := AList.delete cid (svClients t)\<rparr>)"
| stop: "moves now s t \<Longrightarrow> moves now s (wc_stop i t)"
| welcomed: "moves now s t \<Longrightarrow> envType env = ''welcome'' \<Longrightarrow> moves now s (wc_send env i t)"
| install: "moves now s t \<Longrightarrow> moves now s (install_client conn h t)"
| written: "moves now s t \<Longrightarrow> moves now s (write_turn ok i t)"
| ended: "moves now s t \<Longrightarrow> moves now s (write_end i t)"

lemma moves_frame:
  "moves now s t \<Longrightarrow> moves now s (set_handler conn h t)" "moves now s t \<Longrightarrow> moves now s (close_conn conn t)"
  "moves now s t \<Longrightarrow> moves now s (poke_ui now t)" "moves now s t \<Longrightarrow> moves now s (t\<lparr>svPrune := as\<rparr>)"
  "moves now s t \<Longrightarrow> moves now s (t\<lparr>svHandlers := hs\<rparr>)" "moves now s t \<Longrightarrow> moves now s (t\<lparr>svNow := x\<rparr>)"
  by (erule moves.other; simp add: set_handler_def close_conn_def poke_ui_def)+

lemma moves_registry:
  "moves now s t \<Longrightarrow> (\<And>r. registry_ok r \<Longrightarrow> registry_ok (f r)) \<Longrightarrow> moves now s (on_registry now f t)"
  unfolding on_registry_def by (rule moves.system) simp_all

lemmas move_intros = moves.none moves.system moves.forget moves.stop moves.install moves.written moves.ended
  moves_frame moves_registry registry_ok_Upsert registry_ok_Touch registry_ok_SetStatus registry_ok_Remove
  registry_ok_Prune

lemma moves_message: "moves now s (client_message now uuid env conn h s)"
  by (auto simp: client_message_def on_register_def on_metrics_def on_heartbeat_def on_status_def Let_def
      intro!: move_intros split: option.split)

lemma moves_teardown: "moves now s t \<Longrightarrow> moves now s (teardown now conn h t)"
  by (auto simp: teardown_def Let_def intro!: move_intros split: option.split)

lemma moves_handler: "moves now s (handler_act now conn act h s)"
proof (cases act)
  case (RegWelcome p cfg)
  have "moves now s (set_handler conn h s)" by (intro move_intros)
  then show ?thesis
    by (auto simp: RegWelcome handler_act_def Let_def welcome_envelope_def
        intro!: moves_frame moves.welcomed split: option.split)
qed (auto simp: handler_act_def Let_def intro!: move_intros moves_teardown)

lemma moves_serve: "moves now s (snd (serve now r s))"
  by (cases r)
    (auto simp: handleConfig_def handleParticipants_def handleStart_def handleStop_def handlePhases_def Let_def
      intro!: move_intros split: option.split sum.split)

lemma moves_prune: "moves now s (prune_step now s)"
  by (auto simp: prune_step_def drop_client_def Let_def intro!: move_intros split: list.split prune_act.split option.split)

lemma moves_event: "moves now s (server_event_step now e s)"
proof (cases e)
  case (Message conn uuid env)
  then show ?thesis by (auto simp: got_message_def intro: moves_message move_intros split: option.split)
next
  case (Handler conn)
  then show ?thesis by (auto simp: handler_step_def intro: moves_handler move_intros split: option.split list.split)
next
  case (Turn t)
  then show ?thesis by (cases t) (auto intro!: move_intros)
next
  case FlushTurn
  show ?thesis by (rule moves.other [OF moves.none]) (simp_all add: FlushTurn flush_turn_def Let_def)
next
  case (Browser sub)
  show ?thesis by (rule moves.other [OF moves.none]) (simp_all add: Browser ui_connect_def)
next
  case (BrowserGone sub)
  show ?thesis by (rule moves.other [OF moves.none]) (simp_all add: BrowserGone ui_disconnect_def)
qed (auto simp: moves_serve moves_prune connect_def read_failed_def got_pong_def got_ping_def ping_turn_def ui_tick_def prune_tick_def Let_def
    intro!: move_intros split: option.split)

lemma moves_step: "moves now s (server_step now e s)"
  unfolding server_step_def by (intro move_intros moves_event)

section \<open>What a queue holds\<close>

text \<open>The steps waiting for a client; there are none for a client that does not exist yet.\<close>

definition out_steps :: "Server \<Rightarrow> nat \<Rightarrow> step list" where [go_eval]:
  "out_steps s i = (if i < length (svWs s) then steps (wcOut (svWs s ! i)) else [])"

definition short_queues :: "Server \<Rightarrow> bool" where
  "short_queues s \<longleftrightarrow> list_all (\<lambda>c. length (wcOut c) \<le> clientSendQueue) (svWs s)"

lemma short_queues_inv: "server_inv now s \<Longrightarrow> short_queues s"
  by (auto simp: short_queues_def server_inv_def queues_ok_def ws_ok_def list_all_iff)

lemma short_queues_send: "short_queues s \<Longrightarrow> short_queues (wc_send env i s)"
  using client_queue.push_length [of "wcOut (svWs s ! i)" env]
  by (cases "i < length (svWs s)")
    (auto simp: short_queues_def wc_send_def on_ws_def list_all_length nth_list_update not_less list_update_beyond)

text \<open>A message that enters a queue comes last, and others may only be lost.\<close>

lemma enqueue_steps:
  "length q \<le> clientSendQueue \<Longrightarrow> subseq (steps (enqueue env q)) (steps q @ steps [env])"
  using steps_drop [of "length q + 1 - clientSendQueue" "q @ [env]"] by (simp add: client_queue.push_newest del: steps_simps(2))

lemma send_steps:
  assumes "short_queues s"
  shows "subseq (out_steps (wc_send env j s) i) (out_steps s i @ (if i = j then steps [env] else []))"
proof (cases "i < length (svWs s)")
  case True
  then have "length (wcOut (svWs s ! i)) \<le> clientSendQueue" using assms by (simp add: short_queues_def list_all_length)
  then show ?thesis
    using True enqueue_steps [of "wcOut (svWs s ! i)" env]
    by (auto simp: out_steps_def wc_send_def on_ws_def nth_list_update simp del: steps_simps(2))
qed (simp add: out_steps_def wc_send_def)

lemma send_all_steps:
  assumes "short_queues s" "env_step env = None \<or> distinct is"
  shows "subseq (out_steps (fold (wc_send env) is s) i) (out_steps s i @ (if i \<in> set is then steps [env] else []))"
  using assms
proof (induction "is" arbitrary: s)
  case (Cons j js)
  have "env_step env = None \<or> distinct js" using Cons.prems(2) by auto
  then have rest: "subseq (out_steps (fold (wc_send env) (j # js) s) i)
      (out_steps (wc_send env j s) i @ (if i \<in> set js then steps [env] else []))"
    using Cons.IH [of "wc_send env j s"] Cons.prems(1) by (simp add: short_queues_send)
  also have "subseq \<dots> ((out_steps s i @ (if i = j then steps [env] else [])) @ (if i \<in> set js then steps [env] else []))"
    by (intro list_emb_append_mono send_steps Cons.prems) simp
  also have "subseq \<dots> (out_steps s i @ (if i \<in> set (j # js) then steps [env] else []))"
    using Cons.prems(2) by auto
  finally show ?case .
qed simp

lemma distinct_targets:
  assumes "server_inv now s" "distinct ids"
  shows "distinct (List.map_filter (map_of (svClients s)) ids)"
proof -
  have inj: "cid = cid2" if "map_of (svClients s) cid = Some i" "map_of (svClients s) cid2 = Some i" for cid cid2 i
    using that inv_points [OF assms(1)] by metis
  then have "inj_on (the \<circ> map_of (svClients s)) (set (filter (\<lambda>x. map_of (svClients s) x \<noteq> None) ids))"
    by (auto simp: inj_on_def)
  with assms(2) show ?thesis by (simp add: List.map_filter_def distinct_map)
qed

lemma deliver_steps:
  assumes "server_inv now s" "effect_ok x"
  shows "subseq (out_steps (deliver x s) i) (out_steps s i @ commanded [x])"
proof -
  have short: "short_queues s" using assms(1) by (rule short_queues_inv)
  show ?thesis
  proof (cases x)
    case (Broadcast env)
    with assms(2) send_all_steps [OF short, of env "map snd (svClients s)" i] show ?thesis
      by (simp add: server_Broadcast_def split: if_split_asm)
  next
    case (BroadcastTo ids env)
    have "env_step env = None \<or> distinct (List.map_filter (map_of (svClients s)) ids)"
      using assms BroadcastTo distinct_targets by auto
    from send_all_steps [OF short this, of i] show ?thesis
      by (auto simp: BroadcastTo server_BroadcastTo_def simp del: effect_ok.simps split: if_split_asm option.splits
          intro: subseq_rev_drop_many)
  qed (simp_all add: commanded_def map_filter_simps)
qed

lemma delivers_steps:
  assumes "server_inv now s" "set xs \<subseteq> set (oSent (orch s))" "list_all effect_ok xs"
  shows "subseq (out_steps (fold deliver xs s) i) (out_steps s i @ commanded xs)"
  using assms
proof (induction xs arbitrary: s)
  case (Cons x xs)
  have inv: "server_inv now (deliver x s)" using Cons.prems by (intro inv_deliver) simp_all
  have "subseq (out_steps (fold deliver (x # xs) s) i) (out_steps (deliver x s) i @ commanded xs)"
    using Cons.IH [OF inv] Cons.prems by simp
  also have "subseq \<dots> ((out_steps s i @ commanded [x]) @ commanded xs)"
    using deliver_steps [OF Cons.prems(1)] Cons.prems(3) by (intro list_emb_append_mono) simp_all
  also have "\<dots> = out_steps s i @ commanded (x # xs)" using commanded_simps(2) [of "[x]" xs] by simp
  finally show ?case .
qed simp

section \<open>Progress of the server\<close>

text \<open>
  What changes from one state to a later one: more steps are commanded, clients are added, and a
  queue holds in order what it held, or less of it, and then newly commanded steps.
\<close>

definition progress :: "Server \<Rightarrow> Server \<Rightarrow> bool" where
  "progress s t \<longleftrightarrow>
    (\<exists>new. commanded (oSent (orch t)) = commanded (oSent (orch s)) @ new \<and>
      (\<forall>i. subseq (out_steps t i) (out_steps s i @ new)))"

lemma progress_refl: "progress s s"
  by (auto simp: progress_def)

lemma progress_trans:
  assumes "progress s t" "progress t u"
  shows "progress s u"
proof -
  obtain m n where m: "commanded (oSent (orch t)) = commanded (oSent (orch s)) @ m"
      "\<And>i. subseq (out_steps t i) (out_steps s i @ m)"
    and n: "commanded (oSent (orch u)) = commanded (oSent (orch t)) @ n" "\<And>i. subseq (out_steps u i) (out_steps t i @ n)"
    using assms by (auto simp: progress_def)
  have "subseq (out_steps u i) (out_steps s i @ m @ n)" for i
  proof -
    have "subseq (out_steps t i @ n) ((out_steps s i @ m) @ n)" using m(2) by (intro list_emb_append_mono) simp_all
    with n(2) [of i] show ?thesis using subseq_order.order_trans by fastforce
  qed
  with m(1) n(1) show ?thesis unfolding progress_def by (intro exI [of _ "m @ n"]) simp
qed

lemma progress_quiet: "svSys t = svSys s \<Longrightarrow> (\<And>i. subseq (out_steps t i) (out_steps s i)) \<Longrightarrow> progress s t"
  by (auto simp: progress_def)

lemma progress_on_ws:
  "(\<And>c. subseq (steps (wcOut (f c))) (steps (wcOut c))) \<Longrightarrow> progress s (on_ws f i s)"
  by (cases "i < length (svWs s)"; rule progress_quiet)
    (auto simp: out_steps_def on_ws_def nth_list_update not_less list_update_beyond)

lemma progress_system:
  assumes "server_inv now s" "ids_inv (svSys s)" "event_ok e"
  shows "progress s (on_system now e s)"
proof -
  let ?sys = "sys_step now e (svSys s)"
  obtain new where new: "oSent (sOrch ?sys) = oSent (orch s) @ new" "list_all broadcast_ok new"
    using sends_more_step [of "svSys s" now e] unfolding sends_more_def by blast
  have ok: "list_all effect_ok new"
    using ids_inv_step [OF assms(2,3), of now] new(1) by (simp add: ids_inv_def ids_ok_def)
  have "server_inv now (s\<lparr>svSys := ?sys\<rparr>)"
    using assms(1) new queues_ok_more by (auto simp: server_inv_def intro: reachable.step) (simp add: sys_step_def)
  moreover have "out_steps (s\<lparr>svSys := ?sys\<rparr>) i = out_steps s i" for i by (simp add: out_steps_def)
  ultimately have "subseq (out_steps (fold deliver new (s\<lparr>svSys := ?sys\<rparr>)) i) (out_steps s i @ commanded new)" for i
    using delivers_steps [of now "s\<lparr>svSys := ?sys\<rparr>" new i] ok by (simp add: new)
  moreover have "svSys (fold deliver xs t) = svSys t" for xs t by (induction xs arbitrary: t) simp_all
  ultimately show ?thesis
    unfolding progress_def by (intro exI [of _ "commanded new"]) (simp add: on_system_def Let_def new)
qed

lemma install_ws:
  "svWs (install_client conn h s) =
    (let ws = svWs s @ [newWSClient (hID h) conn]
     in case map_of (svClients s) (hID h) of
          None \<Rightarrow> ws
        | Some j \<Rightarrow> if wcConn (ws ! j) \<noteq> conn then ws[j := (ws ! j)\<lparr>wcDone := True\<rparr>] else ws)"
  by (simp add: install_client_def Let_def set_handler_def close_conn_def wc_stop_def on_ws_def split: option.split)

lemma install_sys [simp]: "svSys (install_client conn h s) = svSys s"
  by (simp add: install_client_def Let_def set_handler_def close_conn_def wc_stop_def split: option.split)

lemma progress_install: "progress s (install_client conn h s)"
proof (rule progress_quiet)
  fix i
  show "subseq (out_steps (install_client conn h s) i) (out_steps s i)"
    by (auto simp: out_steps_def install_ws Let_def nth_list_update nth_append newWSClient_def split: option.split)
qed simp

lemma tl_steps: "subseq (steps (tl q)) (steps q)"
  using steps_drop [of 1 q] by (simp add: drop_Suc)

lemma progress_write: "progress s (write_turn ok i s)"
proof -
  have step: "progress s (on_ws (\<lambda>c. c\<lparr>wcOut := tl (wcOut c), wcWriter := ok\<rparr>) i s)"
    by (rule progress_on_ws) (simp add: tl_steps)
  have "progress t (close_conn c t)" for c t
    by (rule progress_quiet) (simp_all add: close_conn_def out_steps_def)
  then show ?thesis using step progress_trans [OF step] by (auto simp: write_turn_def Let_def progress_refl)
qed

lemma moves_progress:
  assumes "moves now s t" "server_inv now s" "ids_inv (svSys s)"
  shows "server_inv now t \<and> ids_inv (svSys t) \<and> progress s t"
  using assms(1)
proof induction
  case none
  with assms show ?case by (simp add: progress_refl)
next
  case (system t e)
  then have ok: "event_ok e" by (auto simp: ids_inv_def ids_ok_def)
  have "svSys (fold deliver xs u) = svSys u" for xs u by (induction xs arbitrary: u) simp_all
  then have "svSys (on_system now e t) = sys_step now e (svSys t)" by (simp add: on_system_def Let_def)
  with system ok show ?case
    using inv_system ids_inv_step progress_system progress_trans by metis
next
  case (other t u)
  have "progress t u" by (rule progress_quiet) (simp_all add: other out_steps_def)
  with other show ?case by (metis progress_trans server_inv_frame)
next
  case (forget t cid)
  have "progress t (t\<lparr>svClients := AList.delete cid (svClients t)\<rparr>)"
    by (rule progress_quiet) (simp_all add: out_steps_def)
  with forget show ?case using inv_forget progress_trans by simp blast
next
  case (stop t i)
  have "progress t (wc_stop i t)" unfolding wc_stop_def by (rule progress_on_ws) simp
  with stop show ?case using inv_stop progress_trans by (simp add: wc_stop_def) blast
next
  case (welcomed t env i)
  have "env_step env = None" using welcomed.hyps by (simp add: env_step_def)
  then have "subseq (out_steps (wc_send env i t) j) (out_steps t j)" for j
    using send_steps [OF short_queues_inv, of now t env i j] welcomed.IH by (simp split: if_split_asm)
  then have "progress t (wc_send env i t)" by (intro progress_quiet) (simp_all add: wc_send_def)
  moreover have "server_inv now (wc_send env i t)"
    using welcomed by (intro inv_send) (simp_all add: addressed_def)
  ultimately show ?case using welcomed.IH progress_trans by (simp add: wc_send_def) blast
next
  case (install t conn h)
  then show ?case using inv_install progress_install progress_trans by simp blast
next
  case (written t ok i)
  have "svSys (write_turn ok i t) = svSys t" by (simp add: write_turn_def Let_def close_conn_def)
  then show ?case using written.IH inv_written progress_write progress_trans by metis
next
  case (ended t i)
  have "progress t (write_end i t)"
    by (auto simp: write_end_def progress_refl intro: progress_on_ws)
  moreover have "svSys (write_end i t) = svSys t" by (simp add: write_end_def)
  ultimately show ?case using ended.IH inv_write_end progress_trans by metis
qed

lemma reachable_ids: "server_reachable s \<Longrightarrow> ids_inv (svSys s)"
proof (induction rule: server_reachable.induct)
  case (start loaded path host now)
  show ?case
    by (simp add: NewServer_def sys_init_def NewOrchestrator_def Let_def ids_inv_def ids_ok_def registry_ok_New)
next
  case (step s now e)
  then have "server_inv now s" using server_inv_reachable [OF step.hyps(1)] by (auto simp: server_inv_def)
  with step.IH show ?case using moves_progress [OF moves_step] by blast
qed

text \<open>Every step of a server that can be reached is progress.\<close>

lemma reachable_progress:
  assumes "server_reachable s" "svNow s \<le> now"
  shows "progress s (server_step now e s)"
proof -
  have "server_inv now s" using server_inv_reachable [OF assms(1)] assms(2) by (auto simp: server_inv_def)
  then show ?thesis using moves_progress [OF moves_step] reachable_ids [OF assms(1)] by blast
qed

section \<open>The clients of a connection\<close>

text \<open>The connections of the clients, in the order of their installation.\<close>

definition conns :: "Server \<Rightarrow> nat list" where
  "conns s = map wcConn (svWs s)"

lemma map_conn_update: "wcConn c = wcConn (ws ! j) \<Longrightarrow> map wcConn (ws[j := c]) = map wcConn ws"
  by (cases "j < length ws") (auto simp: not_less list_update_beyond nth_list_update intro!: nth_equalityI)

lemma conns_on_ws: "(\<And>c. wcConn (f c) = wcConn c) \<Longrightarrow> conns (on_ws f i s) = conns s"
  by (simp add: conns_def on_ws_def map_conn_update)

lemma conns_ops [simp]:
  "conns (wc_send env i s) = conns s" "conns (wc_stop i s) = conns s" "conns (poke_ui now s) = conns s"
  "conns (close_conn c s) = conns s" "conns (set_handler c h s) = conns s" "conns (write_end i s) = conns s"
  "conns (write_turn ok i s) = conns s" "conns (s\<lparr>svHandlers := hs\<rparr>) = conns s" "conns (s\<lparr>svClients := cl\<rparr>) = conns s"
  "conns (s\<lparr>svPrune := as\<rparr>) = conns s" "conns (s\<lparr>svSys := sys\<rparr>) = conns s" "conns (s\<lparr>svNow := t\<rparr>) = conns s"
  by (simp_all add: wc_send_def wc_stop_def write_end_def write_turn_def Let_def conns_on_ws)
    (simp_all add: conns_def poke_ui_def close_conn_def set_handler_def on_ws_def map_conn_update)

lemma handlers_ops [simp]:
  "svHandlers (on_ws f i s) = svHandlers s" "svHandlers (wc_send env i s) = svHandlers s"
  "svHandlers (wc_stop i s) = svHandlers s" "svHandlers (poke_ui now s) = svHandlers s"
  "svHandlers (close_conn c s) = svHandlers s" "svHandlers (write_end i s) = svHandlers s"
  "svHandlers (write_turn ok i s) = svHandlers s"
  by (simp_all add: on_ws_def wc_send_def wc_stop_def poke_ui_def close_conn_def write_end_def write_turn_def Let_def)

lemma fold_send_ops [simp]:
  "conns (fold (wc_send env) is s) = conns s" "svHandlers (fold (wc_send env) is s) = svHandlers s"
  by (induction "is" arbitrary: s) simp_all

lemma deliver_ops [simp]: "conns (deliver x s) = conns s" "svHandlers (deliver x s) = svHandlers s"
  by (cases x; simp add: server_Broadcast_def server_BroadcastTo_def)+

lemma delivers_ops [simp]: "conns (fold deliver xs s) = conns s" "svHandlers (fold deliver xs s) = svHandlers s"
  by (induction xs arbitrary: s) simp_all

lemma system_ops [simp]:
  "conns (on_system now e s) = conns s" "svHandlers (on_system now e s) = svHandlers s"
  "conns (on_registry now f s) = conns s" "svHandlers (on_registry now f s) = svHandlers s"
  by (simp_all add: on_registry_def on_system_def Let_def)

lemma conns_install [simp]: "conns (install_client conn h s) = conns s @ [conn]"
  by (simp add: conns_def install_ws Let_def map_conn_update newWSClient_def split: option.split)

lemma handlers_install [simp]:
  "svHandlers (install_client conn h s) = AList.update conn (h\<lparr>hWc := Some (length (svWs s))\<rparr>) (svHandlers s)"
  by (simp add: install_client_def Let_def set_handler_def split: option.split)

text \<open>
  How many clients a connection has or is about to get: a registration that is being handled counts
  until its client is installed.
\<close>

definition installs :: "nat \<Rightarrow> (nat \<times> handler) list \<Rightarrow> nat" where
  "installs c hs = (case map_of hs c of None \<Rightarrow> 0 | Some h \<Rightarrow> count_list (hTodo h) RegInstall)"

definition slots :: "nat \<Rightarrow> Server \<Rightarrow> nat" where
  "slots c s = count_list (conns s) c + installs c (svHandlers s)"

lemma installs_simps [simp]:
  "installs c (AList.update d h hs) = (if c = d then count_list (hTodo h) RegInstall else installs c hs)"
  "installs c (AList.delete d hs) = (if c = d then 0 else installs c hs)"
  by (simp_all add: installs_def update_conv' delete_conv')

lemma slots_handler: "slots c (handler_step now conn s) \<le> slots c s"
proof (cases "map_of (svHandlers s) conn")
  case (Some h)
  show ?thesis
  proof (cases "hTodo h")
    case (Cons act rest)
    have before: "installs conn (svHandlers s) = count_list (act # rest) RegInstall"
      using Some Cons by (simp add: installs_def)
    show ?thesis
      using before
      by (cases act)
        (auto simp: handler_step_def Some Cons handler_act_def Let_def slots_def set_handler_def teardown_def
          split: option.split)
  qed (simp add: handler_step_def Some)
qed (simp add: handler_step_def)

definition registers :: "nat \<Rightarrow> server_event \<Rightarrow> nat" where
  "registers c e = (case e of Message d uuid env \<Rightarrow> of_bool (d = c \<and> envType env = ''register'') | _ \<Rightarrow> 0)"

lemma message_ops [simp]:
  "conns (on_metrics now m h s) = conns s" "svHandlers (on_metrics now m h s) = svHandlers s"
  "conns (on_heartbeat now st h s) = conns s" "svHandlers (on_heartbeat now st h s) = svHandlers s"
  "conns (on_status now x s) = conns s" "svHandlers (on_status now x s) = svHandlers s"
  by (simp_all add: on_metrics_def on_heartbeat_def on_status_def Let_def split: option.split)

lemma slots_message: "slots c (got_message now uuid d env s) \<le> slots c s + registers c (Message d uuid env)"
proof (cases "map_of (svHandlers s) d")
  case (Some h)
  then have "installs d (svHandlers s) = 0" if "hTodo h = []" using that by (simp add: installs_def)
  then show ?thesis
    by (auto simp: got_message_def Some client_message_def on_register_def Let_def slots_def set_handler_def
        registers_def split: option.split)
qed (simp add: got_message_def)

lemma slots_step: "slots c (server_step now e s) \<le> slots c s + registers c e"
proof -
  have "slots c (server_event_step now e s) \<le> slots c s + registers c e"
  proof (cases e)
    case (Message d uuid env)
    with slots_message show ?thesis by simp
  next
    case (Handler d)
    with slots_handler show ?thesis by (simp add: registers_def)
  next
    case (Request r)
    then show ?thesis
      by (cases r) (auto simp: registers_def slots_def handleConfig_def handleParticipants_def handleStart_def
          handleStop_def handlePhases_def Let_def split: option.split sum.split)
  next
    case PruneStep
    then show ?thesis
      by (auto simp: prune_step_def drop_client_def Let_def slots_def registers_def
          split: list.split prune_act.split option.split)
  next
    case (Connect d)
    then show ?thesis by (auto simp: connect_def slots_def set_handler_def registers_def)
  next
    case (ReadFailed d)
    then show ?thesis by (auto simp: read_failed_def slots_def set_handler_def registers_def split: option.split)
  next
    case FlushTurn
    then show ?thesis by (simp add: flush_turn_def slots_def conns_def Let_def)
  next
    case (Browser sub)
    then show ?thesis by (simp add: ui_connect_def slots_def conns_def)
  next
    case (BrowserGone sub)
    then show ?thesis by (simp add: ui_disconnect_def slots_def conns_def)
  qed (auto simp: slots_def registers_def got_pong_def got_ping_def ping_turn_def read_failed_def set_handler_def prune_tick_def ui_tick_def Let_def
      split: option.split)
  then show ?thesis by (simp add: server_step_def slots_def)
qed

lemma conns_grow: "\<exists>xs. conns (server_step now e s) = conns s @ xs"
proof -
  have "\<exists>xs. conns t = conns s @ xs" if "moves now s t" for t
    using that
  proof induction
    case (other t u)
    then show ?case by (simp add: conns_def)
  qed auto
  then show ?thesis using moves_step by blast
qed

text \<open>What waits for a connection is what waits for the client installed first with it.\<close>

definition client_of :: "nat \<Rightarrow> Server \<Rightarrow> nat" where [go_eval]:
  "client_of c s = length (takeWhile (\<lambda>d. d \<noteq> c) (conns s))"

definition waiting :: "nat option \<Rightarrow> Server \<Rightarrow> step list" where [go_eval]:
  "waiting conn s = (case conn of None \<Rightarrow> [] | Some c \<Rightarrow> out_steps s (client_of c s))"

lemma takeWhile_absent: "c \<notin> set xs \<Longrightarrow> takeWhile (\<lambda>d. d \<noteq> c) (xs @ ys) = xs @ takeWhile (\<lambda>d. d \<noteq> c) ys"
  by (rule takeWhile_append2) auto

lemma out_steps_absent: "c \<notin> set (conns s) \<Longrightarrow> out_steps s (client_of c s) = []"
proof -
  assume "c \<notin> set (conns s)"
  then have "takeWhile (\<lambda>d. d \<noteq> c) (conns s) = conns s" by (subst takeWhile_eq_all_conv) auto
  then have "client_of c s = length (conns s)" unfolding client_of_def by (rule arg_cong)
  then have "client_of c s = length (svWs s)" by (simp add: conns_def)
  then show ?thesis by (simp add: out_steps_def)
qed

lemma client_of_unique:
  assumes "count_list (conns s) c \<le> 1" "i < length (svWs s)" "wcConn (svWs s ! i) = c"
  shows "client_of c s = i"
proof -
  have i: "i < length (conns s)" "conns s ! i = c" using assms(2,3) by (simp_all add: conns_def)
  have split: "conns s = take i (conns s) @ c # drop (Suc i) (conns s)" using i id_take_nth_drop by metis
  have "count_list (conns s) c = count_list (take i (conns s)) c + 1 + count_list (drop (Suc i) (conns s)) c"
    by (subst split) simp
  then have "c \<notin> set (take i (conns s))" using assms(1) by (simp add: count_list_0_iff)
  then have "takeWhile (\<lambda>d. d \<noteq> c) (conns s) = take i (conns s)"
    by (subst split) (simp add: takeWhile_absent)
  then show ?thesis using i by (simp add: client_of_def)
qed

lemma client_of_grows:
  assumes "conns t = conns s @ xs" "c \<in> set (conns s)"
  shows "client_of c t = client_of c s"
  using assms by (simp add: client_of_def takeWhile_append1)

text \<open>So what waits for a connection only loses steps and gains newly commanded ones.\<close>

lemma waiting_progress:
  assumes "server_reachable s" "svNow s \<le> now"
  shows "\<exists>new. commanded (oSent (orch (server_step now e s))) = commanded (oSent (orch s)) @ new \<and>
    subseq (waiting conn (server_step now e s)) (waiting conn s @ new)"
proof -
  let ?t = "server_step now e s"
  obtain new where new: "commanded (oSent (orch ?t)) = commanded (oSent (orch s)) @ new"
      "\<And>i. subseq (out_steps ?t i) (out_steps s i @ new)"
    using reachable_progress [OF assms] by (auto simp: progress_def)
  have "subseq (waiting conn ?t) (waiting conn s @ new)"
  proof (cases conn)
    case (Some c)
    show ?thesis
    proof (cases "c \<in> set (conns s)")
      case True
      with conns_grow have "client_of c ?t = client_of c s" using client_of_grows by metis
      then show ?thesis using new(2) by (simp add: Some waiting_def)
    next
      case False
      have "length (conns s) \<le> client_of c ?t"
        using conns_grow [of now e s] False by (auto simp: client_of_def takeWhile_absent)
      then have "out_steps s (client_of c ?t) = []" by (simp add: out_steps_def conns_def)
      then show ?thesis using new(2) [of "client_of c ?t"] False by (simp add: Some waiting_def out_steps_absent)
    qed
  qed (simp add: waiting_def)
  with new(1) show ?thesis by blast
qed

end
