(* ===== verification/Fleet.thy ===== *)
theory Fleet
  imports Delivery Agent
begin

text \<open>
  Controller and agent together: the server of theory Server with all its clients, browsers and
  requests, one agent of theory Agent, and the connections it dials, each a stream of messages in
  either direction that breaks at any point. The other clients are not restricted: they may send
  whatever they like, also under the agent's id.
\<close>

section \<open>One agent and its connection\<close>

text \<open>\<open>lkConn\<close> is the connection of the agent's session, \<open>lkDown\<close> and \<open>lkUp\<close> are what is under way on it.\<close>

record Link =
  lkServer :: Server
  lkAgent :: Agent
  lkConn :: "nat option"
  lkDown :: "Envelope list"
  lkUp :: "Envelope list"

datatype link_event =
    Controller server_event
  | ControllerReads string
  | AgentReads "string list"
  | AgentActs agent_event
  | Dial nat
  | HangUp

text \<open>
  The server reads from the session's connection what the agent wrote there, and that connection is
  accepted once; what remains of an earlier connection may still be read.
\<close>

fun of_link :: "nat option \<Rightarrow> server_event \<Rightarrow> bool" where
  "of_link conn (Message d uuid env) = (conn = Some d)"
| "of_link conn (Connect d) = (conn = Some d)"
| "of_link conn _ = False"

text \<open>What a turn of a writer puts on the connection of the session.\<close>

fun arrived :: "nat option \<Rightarrow> server_event \<Rightarrow> Server \<Rightarrow> Envelope list" where
  "arrived conn (Written i ok) s =
    (if ok \<and> i < length (svWs s) \<and> wcWriter (svWs s ! i) \<and> wcOut (svWs s ! i) \<noteq> [] \<and>
        conn = Some (wcConn (svWs s ! i))
     then [hd (wcOut (svWs s ! i))] else [])"
| "arrived conn _ s = []"

definition fresh_conn :: "nat \<Rightarrow> Server \<Rightarrow> bool" where [go_eval]:
  "fresh_conn c s \<longleftrightarrow> c \<notin> fst ` set (svHandlers s) \<and> c \<notin> set (svClosed s) \<and> c \<notin> wcConn ` set (svWs s)"

text \<open>A step of the agent, with what it says.\<close>

definition agent_acts :: "agent_event \<Rightarrow> Link \<Rightarrow> Link" where [go_eval]:
  "agent_acts e l =
    (let a = agent_step (lkAgent l) e
     in l\<lparr>lkAgent := a, lkUp := lkUp l @ drop (length (agSent (lkAgent l))) (agSent a)\<rparr>)"

fun of_session :: "agent_event \<Rightarrow> bool" where
  "of_session (GotMessage stuck env) = True"
| "of_session SessionStart = True"
| "of_session SessionEnd = True"
| "of_session _ = False"

definition reading :: "nat \<Rightarrow> Server \<Rightarrow> bool" where [go_eval]:
  "reading c s = (case map_of (svHandlers s) c of None \<Rightarrow> False | Some h \<Rightarrow> hTodo h = [])"

fun link_event_step :: "time \<Rightarrow> link_event \<Rightarrow> Link \<Rightarrow> Link" where
  "link_event_step now (Controller e) l =
    (if of_link (lkConn l) e then l
     else l\<lparr>lkServer := server_step now e (lkServer l), lkDown := lkDown l @ arrived (lkConn l) e (lkServer l)\<rparr>)"
| "link_event_step now (ControllerReads uuid) l =
    (case (lkConn l, lkUp l) of
       (Some c, env # rest) \<Rightarrow>
         if reading c (lkServer l)
         then l\<lparr>lkServer := server_step now (Message c uuid env) (lkServer l), lkUp := rest\<rparr> else l
     | _ \<Rightarrow> l)"
| "link_event_step now (AgentReads stuck) l =
    (case lkDown l of
       [] \<Rightarrow> l
     | env # rest \<Rightarrow> agent_acts (GotMessage stuck env) (l\<lparr>lkDown := rest\<rparr>))"
| "link_event_step now (AgentActs e) l = (if of_session e then l else agent_acts e l)"
| "link_event_step now (Dial c) l =
    (if lkConn l = None \<and> fresh_conn c (lkServer l)
     then agent_acts SessionStart (l\<lparr>lkServer := server_step now (Connect c) (lkServer l), lkConn := Some c, lkUp := []\<rparr>)
     else l)"
| "link_event_step now HangUp l = (agent_acts SessionEnd l)\<lparr>lkConn := None, lkDown := [], lkUp := []\<rparr>"

inductive link_reachable :: "Link \<Rightarrow> bool" where
  begins: "link_reachable \<lparr>lkServer = NewServer loaded path host now, lkAgent = NewAgent hostname osHostname,
    lkConn = None, lkDown = [], lkUp = []\<rparr>"
| goes_on: "link_reachable l \<Longrightarrow> svNow (lkServer l) \<le> now \<Longrightarrow> link_reachable (link_event_step now e l)"

section \<open>What the agent reports\<close>

text \<open>The steps an agent reports to be running.\<close>

definition report_step :: "Envelope \<Rightarrow> step option" where [go_eval]:
  "report_step env =
    (if envType env = ''status''
     then (case envStatus env of
             None \<Rightarrow> None
           | Some m \<Rightarrow> if smStatus m = ''running'' then Some (smPhase m, smPercent m) else None)
     else None)"

definition reported_steps :: "Envelope list \<Rightarrow> step list" where [go_eval]:
  "reported_steps envs = List.map_filter report_step envs"

lemma reported_steps_simps [simp]:
  "reported_steps [] = []" "reported_steps (xs @ ys) = reported_steps xs @ reported_steps ys"
  "reported_steps [env] = (case report_step env of None \<Rightarrow> [] | Some x \<Rightarrow> [x])"
  by (simp_all add: reported_steps_def map_filter_simps split: option.split)

text \<open>The steps an agent has reported, and then those it has in its queue.\<close>

definition agent_view :: "Agent \<Rightarrow> step list" where
  "agent_view a = reported_steps (agSent a) @ map cmd_step (agCmdCh a)"

lemma agent_view_cong: "agSent b = agSent a \<Longrightarrow> agCmdCh b = agCmdCh a \<Longrightarrow> agent_view b = agent_view a"
  by (simp add: agent_view_def)

lemma reported_steps_status [simp]:
  "st \<noteq> ''running'' \<Longrightarrow> reported_steps (agSent (sendStatus st ph pct d n a)) = reported_steps (agSent a)"
  "reported_steps (agSent (sendStatus ''running'' ph pct d n a)) = reported_steps (agSent a) @ (if agConn a \<and> agClientID a \<noteq> [] then [(ph, pct)] else [])"
  by (simp_all add: sendStatus_def agent_send_def status_envelope_def zero_Envelope_def report_step_def)

lemma stopWork_sent [simp]: "agSent (stopWork a) = agSent a" "agClientID (stopWork a) = agClientID a"
  by (simp_all add: stopWork_def)

lemma interval_sent [simp]:
  "agSent (setMetricsInterval sec a) = agSent a" "agCmdCh (setMetricsInterval sec a) = agCmdCh a"
  by (simp_all add: setMetricsInterval_def Let_def)

lemma take_view: "subseq (agent_view (fst (command_take dead a))) (agent_view a)"
  by (cases "agCmdCh a")
    (auto simp: agent_view_def command_take_def Let_def cmd_step_def subseq_append' split: option.split)

lemma done_view: "agent_view (command_done run a) = agent_view a"
  by (simp add: agent_view_def command_done_def split: prod.split)

lemma tl_view: "subseq (map f (tl q)) (map f q)"
  by (cases q) auto

lemma command_view: "subseq (agent_view (on_command cmd a)) (agent_view a @ [cmd_step cmd])"
proof -
  define k where "k = (if agPrefix a \<noteq> [] then cmd\<lparr>pcPrefix := agPrefix a\<rparr> else cmd)"
  have k: "cmd_step k = cmd_step cmd" by (simp add: k_def cmd_step_def)
  have "subseq (map cmd_step q) (map cmd_step (agCmdCh a) @ [cmd_step cmd])" if "queue_command k (agCmdCh a) = Some q" for q
    using that tl_view [of cmd_step "agCmdCh a"]
    by (auto simp: queue_command_def try_send_def k intro: list_emb_append_mono split: if_splits)
  then show ?thesis
    unfolding on_command_def Let_def k_def [symmetric]
    by (auto simp: agent_view_def subseq_append' intro: subseq_rev_drop_many split: option.split)
qed

lemma message_view: "subseq (agent_view (handle_message stuck env a)) (agent_view a @ steps [env])"
proof -
  have same: "agent_view (on_welcome m a) = agent_view a" "agent_view (on_config c a) = agent_view a"
    "agent_view (setMetricsInterval sec a) = agent_view a" "agent_view (on_stop stuck st a) = agent_view a" for m c sec st
    by (simp_all add: agent_view_def on_welcome_def on_config_def on_stop_def Let_def)
  show ?thesis
    using command_view by (auto simp: handle_message_def same env_step_def split: option.split)
qed

lemma step_view:
  "subseq (agent_view (agent_step a e)) (agent_view a @ (case e of GotMessage stuck env \<Rightarrow> steps [env] | _ \<Rightarrow> []))"
proof (cases e)
  case (GotMessage stuck env)
  then show ?thesis using message_view [of stuck env a] by (auto simp del: steps_simps(2))
next
  case TakeCommand
  have "agent_view (x\<lparr>agBusy := run\<rparr>) = agent_view x" for x run by (simp add: agent_view_def)
  then show ?thesis using TakeCommand take_view [of False a] by (auto simp: loop_take_def split: prod.split)
next
  case (StaleTake i)
  have "agent_view (x\<lparr>agStale := run\<rparr>) = agent_view x" for x run by (simp add: agent_view_def)
  then show ?thesis using StaleTake take_view [of True a] by (auto simp: stale_take_def split: prod.split)
next
  case RunEnds
  have "agent_view (x\<lparr>agBusy := run\<rparr>) = agent_view x" for x run by (simp add: agent_view_def)
  then show ?thesis by (simp add: RunEnds loop_done_def done_view split: option.split)
next
  case (StaleEnds i)
  have "agent_view (x\<lparr>agStale := run\<rparr>) = agent_view x" for x run by (simp add: agent_view_def)
  then show ?thesis by (simp add: StaleEnds stale_done_def done_view split: option.split)
next
  case (Tick now ok)
  have "agent_view (metrics_tick now ok a) = agent_view a"
    by (simp add: agent_view_def metrics_tick_def Let_def agent_send_def metrics_envelope_def zero_Envelope_def report_step_def split: prod.split)
  then show ?thesis by (simp add: Tick)
next
  case SessionStart
  have "agent_view (session_start a) = agent_view a"
    by (simp add: agent_view_def session_start_def metrics_start_def agent_send_def register_envelope_def zero_Envelope_def report_step_def)
  then show ?thesis by (simp add: SessionStart)
next
  case SessionEnd
  have "agent_view (session_end a) = agent_view a"
    by (simp add: agent_view_def session_end_def Let_def split: option.split)
  then show ?thesis by (simp add: SessionEnd)
qed (simp_all add: agent_view_def works_def stale_return_def metrics_interval_step_def split: list.split)

section \<open>What the agent says\<close>

text \<open>An agent registers once in a session, when the session begins.\<close>

definition registrations :: "Envelope list \<Rightarrow> nat" where
  "registrations envs = length (filter (\<lambda>env. envType env = ''register'') envs)"

lemma registrations_simps [simp]:
  "registrations [] = 0" "registrations (xs @ ys) = registrations xs + registrations ys"
  "registrations (env # envs) = of_bool (envType env = ''register'') + registrations envs"
  by (simp_all add: registrations_def)

definition says :: "Agent \<Rightarrow> Agent \<Rightarrow> nat \<Rightarrow> bool" where
  "says a b n \<longleftrightarrow> (\<exists>new. agSent b = agSent a @ new \<and> registrations new = n)"

lemma says_status [simp]: "agSent x = agSent a \<Longrightarrow> says a (sendStatus st ph pct d n x) 0"
  by (simp add: says_def sendStatus_def agent_send_def status_envelope_def zero_Envelope_def)

lemma says_nothing [simp]: "agSent b = agSent a \<Longrightarrow> says a b 0"
  by (simp add: says_def)

lemma says_fields [simp]:
  "says a (b\<lparr>agBusy := run\<rparr>) n = says a b n" "says a (b\<lparr>agStale := rs\<rparr>) n = says a b n"
  by (simp_all add: says_def)

lemma says_message [simp]: "says a (handle_message stuck env a) 0"
proof -
  have "says a (on_welcome m a) 0" "says a (on_config c a) 0" "says a (on_command k a) 0" "says a (on_stop stuck st a) 0"
    for m c k st
    by (simp_all add: on_welcome_def on_config_def on_command_def on_stop_def Let_def split: option.split)
  then show ?thesis by (simp add: handle_message_def split: option.split)
qed

lemma says_take [simp]: "says a (fst (command_take dead a)) 0"
  by (simp add: command_take_def Let_def split: list.split)

lemma says_done [simp]: "says a (command_done run a) 0"
  by (simp add: command_done_def split: prod.split)

lemma says_step: "says a (agent_step a e) (if e = SessionStart \<and> \<not> agConn a then 1 else 0)"
proof (cases e)
  case TakeCommand
  then show ?thesis using says_take [of a False] by (auto simp: loop_take_def simp del: says_take split: prod.split)
next
  case (StaleTake i)
  then show ?thesis using says_take [of a True] by (auto simp: stale_take_def simp del: says_take split: prod.split)
next
  case (Tick now ok)
  have "says a (metrics_tick now ok a) 0"
    by (simp add: says_def metrics_tick_def Let_def agent_send_def metrics_envelope_def zero_Envelope_def split: prod.split)
  with Tick show ?thesis by simp
next
  case SessionStart
  then show ?thesis
    by (simp add: says_def session_start_def metrics_start_def agent_send_def register_envelope_def zero_Envelope_def)
next
  case SessionEnd
  then show ?thesis by (simp add: says_def session_end_def Let_def split: option.split)
qed (simp_all add: loop_done_def stale_done_def works_def stale_return_def metrics_interval_step_def
    split: list.split option.split)

lemma conn_frame [simp]:
  "agConn (handle_message stuck env a) = agConn a" "agConn (metrics_tick now ok a) = agConn a"
  "agConn (loop_take a) = agConn a" "agConn (stale_take i a) = agConn a"
proof -
  have "agConn (on_welcome m a) = agConn a" "agConn (on_config c a) = agConn a" "agConn (on_command k a) = agConn a"
    "agConn (on_stop stuck st a) = agConn a" "agConn (setMetricsInterval sec a) = agConn a" for m c k st sec
    by (simp_all add: on_welcome_def on_config_def on_command_def on_stop_def setMetricsInterval_def Let_def
        split: option.split)
  then show "agConn (handle_message stuck env a) = agConn a" by (simp add: handle_message_def split: option.split)
  show "agConn (metrics_tick now ok a) = agConn a"
    by (simp add: metrics_tick_def Let_def agent_send_def split: prod.split)
  show "agConn (loop_take a) = agConn a"
    using loop_frame(9) [of False a] by (auto simp: loop_take_def simp del: loop_frame split: prod.split)
  show "agConn (stale_take i a) = agConn a"
    using loop_frame(9) [of True a] by (auto simp: stale_take_def simp del: loop_frame split: prod.split)
qed

lemma conn_step:
  "agConn (agent_step a e) = (case e of SessionStart \<Rightarrow> True | SessionEnd \<Rightarrow> False | _ \<Rightarrow> agConn a)"
  by (cases e) (simp_all add: session_start_def session_end_def Let_def metrics_start_def agent_send_def
      loop_done_def stale_done_def stale_return_def works_def metrics_interval_step_def split: option.split list.split)

section \<open>Steps keep their order\<close>

text \<open>
  Everything on its way: what the agent has reported, what waits in its queue, on the connection and
  in the controller's queue, in this order.
\<close>

definition on_the_way :: "Link \<Rightarrow> step list" where
  "on_the_way l =
    reported_steps (agSent (lkAgent l)) @ map cmd_step (agCmdCh (lkAgent l)) @ steps (lkDown l) @
    waiting (lkConn l) (lkServer l)"

lemma on_the_way_view: "on_the_way l = agent_view (lkAgent l) @ steps (lkDown l) @ waiting (lkConn l) (lkServer l)"
  by (simp add: on_the_way_def agent_view_def)

definition link_inv :: "Link \<Rightarrow> bool" where
  "link_inv l \<longleftrightarrow>
    server_reachable (lkServer l) \<and> agConn (lkAgent l) = (lkConn l \<noteq> None) \<and>
    (lkConn l = None \<longrightarrow> lkDown l = []) \<and>
    (\<forall>c. lkConn l = Some c \<longrightarrow> registrations (lkUp l) + slots c (lkServer l) \<le> 1) \<and>
    subseq (on_the_way l) (commanded (oSent (orch (lkServer l))))"

text \<open>A step of the server, with what arrives on the connection.\<close>

lemma written_steps:
  assumes "arrived conn e s = [env]" "\<And>c. conn = Some c \<Longrightarrow> slots c s \<le> 1"
  shows "steps [env] @ waiting conn (server_step now e s) = waiting conn s \<and>
    oSent (orch (server_step now e s)) = oSent (orch s)"
proof -
  from assms(1) obtain i where e: "e = Written i True" and i: "i < length (svWs s)" "wcWriter (svWs s ! i)"
    "wcOut (svWs s ! i) \<noteq> []" "conn = Some (wcConn (svWs s ! i))" "env = hd (wcOut (svWs s ! i))"
    by (cases "(conn, e, s)" rule: arrived.cases) (auto split: if_split_asm)
  let ?t = "server_step now e s"
  have "count_list (conns s) (wcConn (svWs s ! i)) \<le> 1" using assms(2) [OF i(4)] by (simp add: slots_def)
  then have cl: "client_of (wcConn (svWs s ! i)) s = i" using i(1) client_of_unique by blast
  have t: "svWs ?t = (svWs s)[i := (svWs s ! i)\<lparr>wcOut := tl (wcOut (svWs s ! i)), wcWriter := True\<rparr>]"
    "svSys ?t = svSys s"
    using i by (simp_all add: e server_step_def write_turn_def on_ws_def)
  have "conns ?t = conns s" by (simp add: conns_def t map_conn_update)
  then have "client_of (wcConn (svWs s ! i)) ?t = i" using cl by (simp add: client_of_def)
  then have "waiting conn ?t = steps (tl (wcOut (svWs s ! i)))" using i(1) by (simp add: waiting_def i(4) out_steps_def t)
  moreover have "waiting conn s = steps (wcOut (svWs s ! i))" using i(1) cl by (simp add: waiting_def i(4) out_steps_def)
  moreover have "steps [env] @ steps (tl (wcOut (svWs s ! i))) = steps (wcOut (svWs s ! i))"
    using i(3,5) by (cases "wcOut (svWs s ! i)") (simp_all split: option.split)
  ultimately show ?thesis by (simp add: t)
qed

lemma arrived_one: "arrived conn e s = [] \<or> (\<exists>env. arrived conn e s = [env])"
  by (cases "(conn, e, s)" rule: arrived.cases) simp_all

lemma order_server:
  assumes "server_reachable s" "svNow s \<le> now" "\<And>c. conn = Some c \<Longrightarrow> slots c s \<le> 1"
    and "subseq (X @ waiting conn s) (commanded (oSent (orch s)))"
  shows "subseq (X @ steps (arrived conn e s) @ waiting conn (server_step now e s))
    (commanded (oSent (orch (server_step now e s))))"
proof (cases "arrived conn e s = []")
  case True
  obtain new where new: "commanded (oSent (orch (server_step now e s))) = commanded (oSent (orch s)) @ new"
      "subseq (waiting conn (server_step now e s)) (waiting conn s @ new)"
    using waiting_progress [OF assms(1,2)] by blast
  have "subseq (X @ waiting conn (server_step now e s)) ((X @ waiting conn s) @ new)"
    using new(2) by (simp add: subseq_append')
  also have "subseq \<dots> (commanded (oSent (orch s)) @ new)" using assms(4) by (intro list_emb_append_mono) simp_all
  finally show ?thesis by (simp add: True new(1))
next
  case False
  then obtain env where "arrived conn e s = [env]" using arrived_one by blast
  with written_steps [OF this assms(3), of now] assms(4) show ?thesis by simp
qed

text \<open>A step of the agent, with the message it handles.\<close>

lemma order_agent:
  assumes "subseq (agent_view a @ (case e of GotMessage stuck env \<Rightarrow> steps [env] | _ \<Rightarrow> []) @ Y) L"
  shows "subseq (agent_view (agent_step a e) @ Y) L"
proof -
  have "subseq (agent_view (agent_step a e) @ Y) ((agent_view a @ (case e of GotMessage stuck env \<Rightarrow> steps [env] | _ \<Rightarrow> [])) @ Y)"
    by (intro list_emb_append_mono step_view) simp
  with assms show ?thesis using subseq_order.order_trans by fastforce
qed

lemma acts_fields [simp]:
  "lkServer (agent_acts e l) = lkServer l" "lkConn (agent_acts e l) = lkConn l" "lkDown (agent_acts e l) = lkDown l"
  "lkAgent (agent_acts e l) = agent_step (lkAgent l) e"
  by (simp_all add: agent_acts_def Let_def)

lemma acts_up:
  "registrations (lkUp (agent_acts e l)) =
   registrations (lkUp l) + (if e = SessionStart \<and> \<not> agConn (lkAgent l) then 1 else 0)"
  using says_step [of "lkAgent l" e] by (auto simp: agent_acts_def Let_def says_def)

lemma link_inv_acts:
  assumes "link_inv l" "\<not> of_session e"
  shows "link_inv (agent_acts e l)"
proof -
  have none: "(case e of GotMessage stuck env \<Rightarrow> steps [env] | _ \<Rightarrow> []) = []" "e \<noteq> SessionStart" "e \<noteq> SessionEnd"
    using assms(2) by (auto split: agent_event.split)
  have "agConn (agent_step (lkAgent l) e) = agConn (lkAgent l)"
    using assms(2) conn_step [of "lkAgent l" e] by (cases e) (auto simp del: agent_step.simps)
  with assms(1) none order_agent [of "lkAgent l" e "steps (lkDown l) @ waiting (lkConn l) (lkServer l)"] show ?thesis
    by (simp add: link_inv_def on_the_way_view acts_up)
qed

lemma link_inv_server:
  assumes "link_inv l" "svNow (lkServer l) \<le> now" "\<not> of_link (lkConn l) e"
  shows "link_inv (l\<lparr>lkServer := server_step now e (lkServer l), lkDown := lkDown l @ arrived (lkConn l) e (lkServer l)\<rparr>)"
proof -
  have inv: "server_reachable (lkServer l)" "\<And>c. lkConn l = Some c \<Longrightarrow> registrations (lkUp l) + slots c (lkServer l) \<le> 1"
    using assms(1) by (simp_all add: link_inv_def)
  have "registers c e = 0" if "lkConn l = Some c" for c
    using assms(3) that by (cases e) (auto simp: registers_def)
  then have slots: "registrations (lkUp l) + slots c (server_step now e (lkServer l)) \<le> 1" if "lkConn l = Some c" for c
    using that inv(2) [OF that] slots_step [of c now e "lkServer l"] by simp
  have "arrived None e s = []" for s by (cases e) simp_all
  then show ?thesis
    using assms(1) slots server_reachable.step [OF inv(1) assms(2), of e]
      order_server [OF inv(1) assms(2), of "lkConn l" "agent_view (lkAgent l) @ steps (lkDown l)" e] inv(2)
    by (force simp: link_inv_def on_the_way_view)
qed

lemma link_inv_reads:
  assumes "link_inv l" "svNow (lkServer l) \<le> now" "lkConn l = Some c" "lkUp l = env # rest"
  shows "link_inv (l\<lparr>lkServer := server_step now (Message c uuid env) (lkServer l), lkUp := rest\<rparr>)"
proof -
  have inv: "server_reachable (lkServer l)" "registrations (lkUp l) + slots c (lkServer l) \<le> 1"
    using assms(1,3) by (simp_all add: link_inv_def)
  have "registrations rest + slots c (server_step now (Message c uuid env) (lkServer l)) \<le> 1"
    using inv(2) slots_step [of c now "Message c uuid env" "lkServer l"] by (simp add: assms(4) registers_def)
  then show ?thesis
    using assms(1,3) server_reachable.step [OF inv(1) assms(2), of "Message c uuid env"] inv(2)
      order_server [OF inv(1) assms(2), of "lkConn l" "agent_view (lkAgent l) @ steps (lkDown l)" "Message c uuid env"]
    by (simp add: link_inv_def on_the_way_view)
qed

lemma link_inv_got:
  assumes "link_inv l" "lkDown l = env # rest"
  shows "link_inv (agent_acts (GotMessage stuck env) (l\<lparr>lkDown := rest\<rparr>))"
proof -
  have "agConn (lkAgent l)" "lkConn l \<noteq> None" using assms by (auto simp: link_inv_def)
  moreover have "steps (lkDown l) = steps [env] @ steps rest" using assms(2) by (simp split: option.split)
  moreover have "agConn (agent_step (lkAgent l) (GotMessage stuck env)) = agConn (lkAgent l)" by simp
  ultimately show ?thesis
    using assms(1) order_agent [of "lkAgent l" "GotMessage stuck env" "steps rest @ waiting (lkConn l) (lkServer l)"]
    by (auto simp: link_inv_def on_the_way_view acts_up simp del: steps_simps(2) agent_step.simps)
qed

lemma fresh_slots: "fresh_conn c s \<Longrightarrow> slots c s = 0"
proof -
  assume fresh: "fresh_conn c s"
  then have "map_of (svHandlers s) c = None" by (simp add: fresh_conn_def map_of_eq_None_iff)
  moreover have "count_list (conns s) c = 0" using fresh by (simp add: fresh_conn_def conns_def count_list_0_iff)
  ultimately show ?thesis by (simp add: slots_def installs_def)
qed

lemma link_inv_dial:
  assumes "link_inv l" "svNow (lkServer l) \<le> now" "lkConn l = None" "fresh_conn c (lkServer l)"
  shows "link_inv (agent_acts SessionStart
    (l\<lparr>lkServer := server_step now (Connect c) (lkServer l), lkConn := Some c, lkUp := []\<rparr>))"
proof -
  let ?t = "server_step now (Connect c) (lkServer l)"
  have inv: "server_reachable (lkServer l)" "\<not> agConn (lkAgent l)" "lkDown l = []"
    using assms(1,3) by (simp_all add: link_inv_def)
  have slots: "slots c ?t = 0"
    using slots_step [of c now "Connect c" "lkServer l"] fresh_slots [OF assms(4)] by (simp add: registers_def)
  then have "c \<notin> set (conns ?t)" by (simp add: slots_def count_list_0_iff)
  then have none: "waiting (Some c) ?t = []" by (simp add: waiting_def out_steps_absent)
  have "subseq (agent_view (lkAgent l)) (commanded (oSent (orch ?t)))"
    using order_server [OF inv(1) assms(2), of None "agent_view (lkAgent l)" "Connect c"] assms(1,3) inv(3)
    by (simp add: link_inv_def on_the_way_view waiting_def)
  then have "subseq (agent_view (agent_step (lkAgent l) SessionStart)) (commanded (oSent (orch ?t)))"
    using order_agent [of "lkAgent l" SessionStart "[]"] by (simp del: agent_step.simps)
  then show ?thesis
    using inv slots none server_reachable.step [OF inv(1) assms(2), of "Connect c"] conn_step [of "lkAgent l" SessionStart]
    by (simp add: link_inv_def on_the_way_view acts_up del: agent_step.simps)
qed

lemma link_inv_hangup:
  assumes "link_inv l"
  shows "link_inv ((agent_acts SessionEnd l)\<lparr>lkConn := None, lkDown := [], lkUp := []\<rparr>)"
proof -
  have "subseq (agent_view (lkAgent l)) (on_the_way l)" by (simp add: on_the_way_view subseq_rev_drop_many)
  then have "subseq (agent_view (lkAgent l)) (commanded (oSent (orch (lkServer l))))"
    using assms by (auto simp: link_inv_def intro: subseq_order.order_trans)
  then have "subseq (agent_view (agent_step (lkAgent l) SessionEnd)) (commanded (oSent (orch (lkServer l))))"
    using order_agent [of "lkAgent l" SessionEnd "[]"] by (simp del: agent_step.simps)
  then show ?thesis
    using assms conn_step [of "lkAgent l" SessionEnd]
    by (simp add: link_inv_def on_the_way_view waiting_def del: agent_step.simps)
qed

lemma link_inv_step:
  assumes "link_inv l" "svNow (lkServer l) \<le> now"
  shows "link_inv (link_event_step now e l)"
proof (cases e)
  case (Controller x)
  with assms link_inv_server show ?thesis by simp
next
  case (ControllerReads uuid)
  with assms link_inv_reads show ?thesis by (auto split: option.split list.split)
next
  case (AgentReads stuck)
  with assms link_inv_got show ?thesis by (auto split: list.split)
next
  case (AgentActs x)
  with assms link_inv_acts show ?thesis by simp
next
  case (Dial c)
  with assms link_inv_dial show ?thesis by simp
next
  case HangUp
  with assms link_inv_hangup show ?thesis by simp
qed

lemma link_inv_reachable: "link_reachable l \<Longrightarrow> link_inv l"
proof (induction rule: link_reachable.induct)
  case (begins loaded path host now hostname osHostname)
  show ?case
    by (simp add: link_inv_def server_reachable.start NewAgent_def on_the_way_def waiting_def)
next
  case (goes_on l now e)
  then show ?case by (intro link_inv_step)
qed

text \<open>
  C2. From the controller to the client the steps of a test keep their order: whatever the other
  clients, the browsers and the API do, and however often the connection breaks and is dialled again,
  the steps a client reports to be running, then those in its queue, under way to it and waiting for
  it in the controller are together a subsequence of the steps the orchestrator commanded. So no
  step is run twice for one command, and none before an earlier one.
\<close>

theorem steps_arrive_in_order:
  assumes "link_reachable l"
  shows "subseq
    (reported_steps (agSent (lkAgent l)) @ map cmd_step (agCmdCh (lkAgent l)) @ steps (lkDown l) @
      waiting (lkConn l) (lkServer l))
    (commanded (oSent (orch (lkServer l))))"
  using link_inv_reachable [OF assms] by (simp add: link_inv_def on_the_way_def)

section \<open>What waits can be delivered\<close>

definition link_trace :: "(time \<times> link_event) list \<Rightarrow> Link \<Rightarrow> Link" where [go_eval]:
  "link_trace es l = foldl (\<lambda>l te. link_event_step (fst te) (snd te) l) l es"

lemma message_queue:
  assumes "length (agCmdCh a) + length (steps [env]) \<le> cmdQueue"
  shows "map cmd_step (agCmdCh (handle_message stuck env a)) = map cmd_step (agCmdCh a) @ steps [env]"
proof -
  have same: "agCmdCh (on_welcome m a) = agCmdCh a" "agCmdCh (on_config c a) = agCmdCh a" "agCmdCh (on_stop stuck st a) = agCmdCh a"
    for m c st
    by (simp_all add: on_welcome_def on_config_def on_stop_def Let_def)
  have "map cmd_step (agCmdCh (on_command cmd a)) = map cmd_step (agCmdCh a) @ [cmd_step cmd]"
    if "length (agCmdCh a) < cmdQueue" for cmd
    using that by (simp add: on_command_def queue_command_def try_send_def Let_def cmd_step_def)
  with assms show ?thesis
    by (auto simp: handle_message_def same env_step_def cmdQueue_def split: option.splits if_split_asm)
qed

lemma message_reports: "reported_steps (agSent (handle_message stuck env a)) = reported_steps (agSent a)"
proof -
  have "agSent (on_config c a) = agSent a" "agSent (on_command k a) = agSent a" for c k
    by (simp_all add: on_config_def on_command_def Let_def split: option.split)
  then show ?thesis by (simp add: handle_message_def on_welcome_def on_stop_def Let_def split: option.split)
qed

text \<open>The agent reads everything that is under way.\<close>

lemma read_all:
  assumes "agConn (lkAgent l)" "length (agCmdCh (lkAgent l)) + length (steps (lkDown l)) \<le> cmdQueue"
  shows "let l2 = link_trace (map (Pair now) (replicate (length (lkDown l)) (AgentReads []))) l
    in lkDown l2 = [] \<and> lkServer l2 = lkServer l \<and> lkConn l2 = lkConn l \<and>
      map cmd_step (agCmdCh (lkAgent l2)) = map cmd_step (agCmdCh (lkAgent l)) @ steps (lkDown l) \<and>
      reported_steps (agSent (lkAgent l2)) = reported_steps (agSent (lkAgent l))"
  using assms
proof (induction "lkDown l" arbitrary: l)
  case Nil
  then show ?case by (simp add: link_trace_def flip: Nil.hyps)
next
  case (Cons env rest)
  define l1 where "l1 = link_event_step now (AgentReads []) l"
  have down: "lkDown l = env # rest" using Cons.hyps(2) by simp
  then have l1: "lkDown l1 = rest" "lkServer l1 = lkServer l" "lkConn l1 = lkConn l"
    "lkAgent l1 = handle_message [] env (lkAgent l)"
    using Cons.prems(1) by (simp_all add: l1_def)
  have all: "steps (lkDown l) = steps [env] @ steps rest" by (simp add: down split: option.split)
  then have q: "map cmd_step (agCmdCh (lkAgent l1)) = map cmd_step (agCmdCh (lkAgent l)) @ steps [env]"
    using Cons.prems(2) by (simp add: l1 message_queue del: steps_simps(2))
  from arg_cong [OF this, of length] have len: "length (agCmdCh (lkAgent l1)) = length (agCmdCh (lkAgent l)) + length (steps [env])"
    by (simp del: steps_simps(2))
  have "link_trace (map (Pair now) (replicate (length (lkDown l)) (AgentReads []))) l =
      link_trace (map (Pair now) (replicate (length (lkDown l1)) (AgentReads []))) l1"
    unfolding link_trace_def l1(1) down by (simp add: l1_def del: link_event_step.simps)
  then show ?case
    using Cons.hyps(1) [of l1] Cons.prems all len q
    by (simp add: l1 message_reports Let_def del: steps_simps(2))
qed

text \<open>The writer puts everything that waits on the connection.\<close>

lemma write_all:
  assumes "i < length (svWs (lkServer l))" "wcWriter (svWs (lkServer l) ! i)"
    and "lkConn l = Some (wcConn (svWs (lkServer l) ! i))"
  shows "let l2 = link_trace (map (Pair now) (replicate (length (wcOut (svWs (lkServer l) ! i))) (Controller (Written i True)))) l
    in lkDown l2 = lkDown l @ wcOut (svWs (lkServer l) ! i) \<and> wcOut (svWs (lkServer l2) ! i) = [] \<and>
      lkAgent l2 = lkAgent l \<and> lkConn l2 = lkConn l \<and> conns (lkServer l2) = conns (lkServer l) \<and>
      length (svWs (lkServer l2)) = length (svWs (lkServer l))"
  using assms
proof (induction "wcOut (svWs (lkServer l) ! i)" arbitrary: l)
  case Nil
  then show ?case by (simp add: link_trace_def flip: Nil.hyps)
next
  case (Cons env rest)
  define l1 where "l1 = link_event_step now (Controller (Written i True)) l"
  have out: "wcOut (svWs (lkServer l) ! i) = env # rest" using Cons.hyps(2) by simp
  have ws: "svWs (lkServer l1) = (svWs (lkServer l))[i := (svWs (lkServer l) ! i)\<lparr>wcOut := rest, wcWriter := True\<rparr>]"
    using Cons.prems(1,2) by (simp add: l1_def out server_step_def write_turn_def on_ws_def)
  have l1: "lkDown l1 = lkDown l @ [env]" "lkAgent l1 = lkAgent l" "lkConn l1 = lkConn l"
    using Cons.prems out by (simp_all add: l1_def)
  have conns: "conns (lkServer l1) = conns (lkServer l)" by (simp add: conns_def ws map_conn_update)
  have "link_trace (map (Pair now) (replicate (length (wcOut (svWs (lkServer l) ! i))) (Controller (Written i True)))) l =
      link_trace (map (Pair now) (replicate (length (wcOut (svWs (lkServer l1) ! i))) (Controller (Written i True)))) l1"
    using Cons.prems(1) unfolding link_trace_def out by (simp add: ws l1_def [symmetric] del: link_event_step.simps)
  then show ?case
    using Cons.hyps(1) [of l1] Cons.prems by (simp add: l1 ws conns out Let_def)
qed

definition drain :: "nat \<Rightarrow> Link \<Rightarrow> link_event list" where [go_eval]:
  "drain i l =
    (let out = wcOut (svWs (lkServer l) ! i)
     in replicate (length out) (Controller (Written i True)) @ replicate (length (lkDown l) + length out) (AgentReads []))"

lemma link_trace_append: "link_trace (xs @ ys) l = link_trace ys (link_trace xs l)"
  by (simp add: link_trace_def)

text \<open>
  C6. Nothing is stuck on the way: in every state in which a connection is up with its writer, and
  at most eight steps are in the client's queue, under way or waiting, the writer and the reader
  alone bring all of them into the client's queue, in order and without a loss.
\<close>

theorem waiting_steps_can_arrive:
  assumes "link_reachable l" "i < length (svWs (lkServer l))" "wcWriter (svWs (lkServer l) ! i)"
    and "lkConn l = Some (wcConn (svWs (lkServer l) ! i))"
    and "length (agCmdCh (lkAgent l)) + length (steps (lkDown l)) + length (waiting (lkConn l) (lkServer l)) \<le> cmdQueue"
  shows "let l2 = link_trace (map (Pair (svNow (lkServer l))) (drain i l)) l
    in lkDown l2 = [] \<and> waiting (lkConn l2) (lkServer l2) = [] \<and>
      map cmd_step (agCmdCh (lkAgent l2)) =
        map cmd_step (agCmdCh (lkAgent l)) @ steps (lkDown l) @ waiting (lkConn l) (lkServer l) \<and>
      reported_steps (agSent (lkAgent l2)) = reported_steps (agSent (lkAgent l))"
proof -
  let ?now = "svNow (lkServer l)" and ?ws = "svWs (lkServer l) ! i"
  define l1 where "l1 = link_trace (map (Pair ?now) (replicate (length (wcOut ?ws)) (Controller (Written i True)))) l"
  have inv: "link_inv l" by (rule link_inv_reachable [OF assms(1)])
  have w: "lkDown l1 = lkDown l @ wcOut ?ws" "wcOut (svWs (lkServer l1) ! i) = []" "lkAgent l1 = lkAgent l" "lkConn l1 = lkConn l"
    "conns (lkServer l1) = conns (lkServer l)" "length (svWs (lkServer l1)) = length (svWs (lkServer l))"
    using write_all [OF assms(2-4), of ?now] by (simp_all add: l1_def Let_def)
  have "count_list (conns (lkServer l)) (wcConn ?ws) \<le> 1" using inv assms(4) by (simp add: link_inv_def slots_def)
  then have cl: "client_of (wcConn ?ws) (lkServer l) = i" using assms(2) client_of_unique by blast
  then have cl1: "client_of (wcConn ?ws) (lkServer l1) = i" by (simp add: client_of_def w)
  have waits: "waiting (lkConn l) (lkServer l) = steps (wcOut ?ws)" "waiting (lkConn l) (lkServer l1) = []"
    using assms(2) by (simp_all add: waiting_def assms(4) w out_steps_def cl cl1)
  have "agConn (lkAgent l1)" using inv assms(4) by (simp add: link_inv_def w)
  moreover have "length (agCmdCh (lkAgent l1)) + length (steps (lkDown l1)) \<le> cmdQueue"
    using assms(5) by (simp add: w waits)
  ultimately have r: "let l2 = link_trace (map (Pair ?now) (replicate (length (lkDown l1)) (AgentReads []))) l1
    in lkDown l2 = [] \<and> lkServer l2 = lkServer l1 \<and> lkConn l2 = lkConn l1 \<and>
      map cmd_step (agCmdCh (lkAgent l2)) = map cmd_step (agCmdCh (lkAgent l1)) @ steps (lkDown l1) \<and>
      reported_steps (agSent (lkAgent l2)) = reported_steps (agSent (lkAgent l1))"
    by (rule read_all)
  have "link_trace (map (Pair ?now) (drain i l)) l =
      link_trace (map (Pair ?now) (replicate (length (lkDown l1)) (AgentReads []))) l1"
    unfolding drain_def Let_def map_append link_trace_append l1_def [symmetric] by (simp add: w)
  with r show ?thesis by (simp add: Let_def w waits)
qed
section \<open>A run of one step\<close>

definition demo_link :: Link where [go_eval]:
  "demo_link =
    \<lparr>lkServer = NewServer (Loaded (bare_config\<lparr>Prefixes := []\<rparr>)) ''f'' ''c'' 0, lkAgent = NewAgent ''h'' ''h'',
     lkConn = None, lkDown = [], lkUp = []\<rparr>"

text \<open>An agent registers and is welcomed, a run is started, and its first command reaches the agent.\<close>

definition demo_run :: "(time \<times> link_event) list" where [go_eval]:
  "demo_run =
    map (\<lambda>e. (1, e))
      ([Dial 1, ControllerReads ''X''] @ replicate 4 (Controller (Handler 1)) @
       [Controller (Written 0 True), AgentReads [], Controller (Request (ApiStart POST))] @
       replicate 6 (Controller (Turn (OfRun True))) @
       [Controller (Written 0 True), AgentReads [], Controller (Written 0 True), AgentReads [], AgentActs TakeCommand])"

lemma link_clock: "svNow (lkServer (link_event_step now e l)) \<in> {svNow (lkServer l), now}"
  by (cases e) (auto simp: server_step_def split: option.split list.split)

lemma link_reachable_trace:
  "link_reachable l \<Longrightarrow> sorted (svNow (lkServer l) # map fst es) \<Longrightarrow> link_reachable (link_trace es l)"
proof (induction es arbitrary: l)
  case (Cons te es)
  let ?l = "link_event_step (fst te) (snd te) l"
  have "link_reachable ?l" using Cons.prems by (intro link_reachable.goes_on) simp_all
  moreover have "sorted (svNow (lkServer ?l) # map fst es)"
    using Cons.prems(2) link_clock [of "fst te" "snd te" l] by auto
  ultimately have "link_reachable (link_trace es ?l)" by (rule Cons.IH)
  then show ?case by (simp add: link_trace_def)
qed (simp add: link_trace_def)

lemma steps_arrive_in_order_witness:
  "subseq [(PhaseCreate, 10)] (commanded (oSent (orch (lkServer (link_trace demo_run demo_link)))))"
proof -
  let ?l = "link_trace demo_run demo_link"
  have "link_reachable demo_link" unfolding demo_link_def by (rule link_reachable.begins)
  then have "link_reachable ?l"
    by (rule link_reachable_trace) (simp add: demo_run_def demo_link_def NewServer_def numeral_eq_Suc)
  from steps_arrive_in_order [OF this]
  have "subseq (reported_steps (agSent (lkAgent ?l))) (commanded (oSent (orch (lkServer ?l))))"
    using subseq_order.order_trans subseq_rev_drop_many by blast
  moreover have "reported_steps (agSent (lkAgent ?l)) = [(PhaseCreate, 10)]" by code_simp
  ultimately show ?thesis by simp
qed

text \<open>The same run before its command is written to the connection.\<close>

definition demo_waiting :: Link where [go_eval]:
  "demo_waiting = link_trace (take 15 demo_run) demo_link"

definition link_summary :: "nat \<Rightarrow> Link \<Rightarrow> (nat \<times> bool \<times> nat) \<times> nat option \<times> step list \<times> step list \<times> step list" where [go_eval]:
  "link_summary i l =
    ((length (svWs (lkServer l)), wcWriter (svWs (lkServer l) ! i), wcConn (svWs (lkServer l) ! i)), lkConn l,
     map cmd_step (agCmdCh (lkAgent l)), steps (lkDown l), waiting (lkConn l) (lkServer l))"

lemma waiting_steps_can_arrive_witness:
  "map cmd_step (agCmdCh (lkAgent (link_trace (map (Pair (svNow (lkServer demo_waiting))) (drain 0 demo_waiting)) demo_waiting))) =
    [(PhaseCreate, 10)]"
proof -
  have "link_reachable demo_link" unfolding demo_link_def by (rule link_reachable.begins)
  then have reach: "link_reachable demo_waiting"
    unfolding demo_waiting_def by (rule link_reachable_trace) (simp add: demo_run_def demo_link_def NewServer_def numeral_eq_Suc)
  have "link_summary 0 demo_waiting = ((1, True, 1), Some 1, [], [], [(PhaseCreate, 10)])" by code_simp
  then have state: "length (svWs (lkServer demo_waiting)) = 1" "wcWriter (svWs (lkServer demo_waiting) ! 0)"
    "lkConn demo_waiting = Some 1" "wcConn (svWs (lkServer demo_waiting) ! 0) = 1" "agCmdCh (lkAgent demo_waiting) = []"
    "steps (lkDown demo_waiting) = []" "waiting (Some 1) (lkServer demo_waiting) = [(PhaseCreate, 10)]"
    by (auto simp: link_summary_def)
  show ?thesis
    using waiting_steps_can_arrive [OF reach, of 0] by (simp add: state Let_def cmdQueue_def del: One_nat_def)
qed

end
