(* ===== verification/DirectIO.thy ===== *)
theory DirectIO
  imports Bandwidth
begin

text \<open>
  How the client opens files past the cache, once per platform
  (\<^verbatim>\<open>internal/client/direct_linux.go\<close>, \<^verbatim>\<open>direct_darwin.go\<close>,
  \<^verbatim>\<open>direct_other.go\<close>), and that these opens, with the second attempts of \<^verbatim>\<open>worker.go\<close>, end
  in the ways the bandwidth phases take as answers of the environment.
\<close>

section \<open>Opening a file\<close>

text \<open>
  What the system answers: whether the call gets a descriptor, whether a failed creation leaves its empty
  file behind, and whether the cache can be switched off. A file is created with length 0; with
  \<open>O_EXCL\<close> an existing one is an error.
\<close>

record open_env =
  oeOpen :: bool
  oeLeft :: bool
  oeNoCache :: bool

definition OpenFile_create :: "open_env \<Rightarrow> bool \<Rightarrow> string \<Rightarrow> world \<Rightarrow> bool \<times> world" where [go_eval]:
  "OpenFile_create env excl path w =
    (if on_disk w path then (oeOpen env \<and> \<not> excl, w)
     else if oeOpen env then (True, write_file path 0 w)
     else (False, if oeLeft env then write_file path 0 w else w))"

definition Open_read :: "open_env \<Rightarrow> string \<Rightarrow> world \<Rightarrow> bool" where [go_eval]:
  "Open_read env path w \<longleftrightarrow> on_disk w path \<and> oeOpen env"

section \<open>The platforms\<close>

definition setNoCache :: "open_env \<Rightarrow> bool" where [go_eval]:
  "setNoCache env = oeNoCache env"

definition openDirectWrite_darwin :: "open_env \<Rightarrow> string \<Rightarrow> world \<Rightarrow> bool \<times> world" where [go_eval]:
  "openDirectWrite_darwin env path w =
    (case OpenFile_create env True path w of (False, w) \<Rightarrow> (False, w) | (True, w) \<Rightarrow> (setNoCache env, w))"

definition openDirectRead_darwin :: "open_env \<Rightarrow> string \<Rightarrow> world \<Rightarrow> bool" where [go_eval]:
  "openDirectRead_darwin env path w = (if \<not> Open_read env path w then False else setNoCache env)"

definition openDirectReadWrite_darwin :: "open_env \<Rightarrow> string \<Rightarrow> world \<Rightarrow> bool \<times> world" where [go_eval]:
  "openDirectReadWrite_darwin env path w =
    (case OpenFile_create env False path w of (False, w) \<Rightarrow> (False, w) | (True, w) \<Rightarrow> (setNoCache env, w))"

text \<open>With \<open>O_DIRECT\<close>, and without anything special on the remaining platforms.\<close>

definition openDirectWrite_linux :: "open_env \<Rightarrow> string \<Rightarrow> world \<Rightarrow> bool \<times> world" where [go_eval]:
  "openDirectWrite_linux env = OpenFile_create env True"

definition openDirectRead_linux :: "open_env \<Rightarrow> string \<Rightarrow> world \<Rightarrow> bool" where [go_eval]:
  "openDirectRead_linux = Open_read"

definition openDirectReadWrite_linux :: "open_env \<Rightarrow> string \<Rightarrow> world \<Rightarrow> bool \<times> world" where [go_eval]:
  "openDirectReadWrite_linux env = OpenFile_create env False"

definition openDirectWrite_other :: "open_env \<Rightarrow> string \<Rightarrow> world \<Rightarrow> bool \<times> world" where [go_eval]:
  "openDirectWrite_other env = OpenFile_create env True"

definition openDirectRead_other :: "open_env \<Rightarrow> string \<Rightarrow> world \<Rightarrow> bool" where [go_eval]:
  "openDirectRead_other = Open_read"

definition openDirectReadWrite_other :: "open_env \<Rightarrow> string \<Rightarrow> world \<Rightarrow> bool \<times> world" where [go_eval]:
  "openDirectReadWrite_other env = OpenFile_create env False"

section \<open>What a caller relies on\<close>

text \<open>
  An exclusive open gives a new empty file, or fails and has left an existing file alone and at most an
  empty new one behind.
\<close>

locale exclusive_open =
  fixes opn :: "open_env \<Rightarrow> string \<Rightarrow> world \<Rightarrow> bool \<times> world"
  assumes opens: "opn env path w = (True, v) \<Longrightarrow> \<not> on_disk w path \<and> v = write_file path 0 w"
    and fails: "opn env path w = (False, v) \<Longrightarrow> v = w \<or> \<not> on_disk w path \<and> v = write_file path 0 w"
begin

text \<open>The first attempt and, with the path removed, the second one, as the callers in the worker make them.\<close>

definition open_new :: "open_env \<Rightarrow> bool \<Rightarrow> open_env \<Rightarrow> string \<Rightarrow> world \<Rightarrow> bool \<times> world" where
  "open_new env removed env2 path w =
    (case opn env path w of
       (True, w) \<Rightarrow> (True, w)
     | (False, w) \<Rightarrow> OpenFile_create env2 True path (if removed then remove_file path w else w))"

text \<open>
  The bandwidth phases have an answer for each of its outcomes, when the second open, which is a plain
  one, leaves nothing behind if it fails.
\<close>

lemma open_new_answered:
  assumes "\<not> oeLeft env2"
  shows "\<exists>t. create_exclusive t path w = open_new env removed env2 path w"
proof -
  obtain ok v where first: "opn env path w = (ok, v)" by fastforce
  fix t0 :: bw_tick
  let ?t = "t0\<lparr>btDirect := ok, btLeft := v \<noteq> w, btRemove := removed, btBuffered := oeOpen env2\<rparr>"
  have "create_exclusive ?t path w = open_new env removed env2 path w"
  proof (cases ok)
    case True
    with opens [of env path w v] first show ?thesis by (simp add: create_exclusive_def open_new_def)
  next
    case False
    with fails [of env path w v] first assms show ?thesis
      by (auto simp: create_exclusive_def open_new_def OpenFile_create_def)
  qed
  then show ?thesis by blast
qed

end

interpretation linux_write: exclusive_open openDirectWrite_linux
  by unfold_locales (auto simp: openDirectWrite_linux_def OpenFile_create_def split: if_split_asm)

interpretation other_write: exclusive_open openDirectWrite_other
  by unfold_locales (auto simp: openDirectWrite_other_def OpenFile_create_def split: if_split_asm)

interpretation darwin_write: exclusive_open openDirectWrite_darwin
  by unfold_locales (auto simp: openDirectWrite_darwin_def OpenFile_create_def split: if_split_asm)

text \<open>An open for reading with its second attempt, and the open of a file that has been prepared.\<close>

lemma read_answered:
  "(openDirectRead_linux env path w \<or> Open_read env2 path w) = (on_disk w path \<and> (oeOpen env \<or> oeOpen env2))"
  "(openDirectRead_darwin env path w \<or> Open_read env2 path w) =
    (on_disk w path \<and> (oeOpen env \<and> oeNoCache env \<or> oeOpen env2))"
  "(openDirectRead_other env path w \<or> Open_read env2 path w) = (on_disk w path \<and> (oeOpen env \<or> oeOpen env2))"
  by (auto simp: openDirectRead_linux_def openDirectRead_darwin_def openDirectRead_other_def Open_read_def setNoCache_def)

lemma prepared_unchanged:
  assumes "on_disk w path"
  shows "snd (openDirectReadWrite_linux env path w) = w" "snd (openDirectReadWrite_darwin env path w) = w"
    "snd (openDirectReadWrite_other env path w) = w"
  using assms
  by (simp_all add: openDirectReadWrite_linux_def openDirectReadWrite_darwin_def openDirectReadWrite_other_def OpenFile_create_def
      split: bool.split)

text \<open>
  With every platform's open and whatever the system answers, opening a new file for writing ends in a
  way the bandwidth phases take into account, so that what is proved of them holds on each platform.
\<close>

theorem direct_opens_are_answered:
  assumes "\<not> oeLeft env2"
  shows "\<exists>t. create_exclusive t path w = linux_write.open_new env removed env2 path w"
    and "\<exists>t. create_exclusive t path w = darwin_write.open_new env removed env2 path w"
    and "\<exists>t. create_exclusive t path w = other_write.open_new env removed env2 path w"
  using assms by (rule linux_write.open_new_answered darwin_write.open_new_answered other_write.open_new_answered)+

end
