(* ===== verification/Spec2Isabelle.thy ===== *)
theory Spec2Isabelle
  imports RunProgress ClientPhases Agent Server ConfigFile CommandContract Fleet DirectIO
begin

text \<open>
  Homebench is a stress test for distributed file systems: a controller with a web interface drives
  a fleet of clients through the phases of a test, and each client works on the file system under
  test and reports what it did. This development models the controller
  (\<^verbatim>\<open>internal/controller\<close>), the client (\<^verbatim>\<open>internal/client\<close>), the protocol
  between them (\<^verbatim>\<open>internal/protocol\<close>) and the shared software artefacts
  (\<^verbatim>\<open>internal/software\<close>). It is one theory per component; definitions keep the names of the Go
  functions and stand in the order of the code.

  \<^bold>\<open>How the parts interact.\<close> A request of the web interface or a timer makes the server call the
  orchestrator; the orchestrator starts a run, which broadcasts one command after the other through
  the server's queues; an agent takes the commands from its connection, queues them and lets its
  worker run them; the worker counts in the statistics, which the agent ships to the server, which
  puts them into the metrics store. The models are composed the same way: \<open>Server\<close> contains the
  system of \<open>RunSystem\<close>, which contains the orchestrator with registry and metrics store, and \<open>Fleet\<close>
  puts an agent on a connection to the server.

  \<^bold>\<open>Shared.\<close> \<open>Prelude\<close> has the types of Go (words of 64 bits where a counter wraps, integers
  of the width of the platform as \<open>int\<close>, floats as rationals), durations, the strings functions the
  code uses, and association lists for maps. The collection \<open>go_eval\<close> holds the executable
  definitions, \<open>ok_intros\<close> the preservation of invariants.

  \<^bold>\<open>Protocol.\<close>
  \<^item> \<open>Latency\<close> (\<^verbatim>\<open>latency.go\<close>): histograms with two tables of edges; merging shipments equals
    observing all samples in one histogram.
  \<^item> \<open>HostPrefix\<close> (\<^verbatim>\<open>prefix.go\<close>): FNV-1a and the choice of a prefix, also for a 32-bit \<open>int\<close>.
  \<^item> \<open>Protocol\<close>, \<open>Messages\<close> (\<^verbatim>\<open>protocol.go\<close>): phases, their order and toggle groups, the
    configuration, the reporting interval, and one record per message.

  \<^bold>\<open>Controller.\<close>
  \<^item> \<open>Registry\<close> (\<^verbatim>\<open>registry.go\<close>): the clients; pruning, the capped sorted list. The locale of a
    client directory is interpreted on it.
  \<^item> \<open>Metrics\<close> (\<^verbatim>\<open>metrics.go\<close>): the store of per-second buckets; what reports carry is credited
    exactly once, freezing seals a run, the history is in time order.
  \<^item> \<open>Orchestrator\<close>, \<open>Settings\<close> (\<^verbatim>\<open>orchestrator.go\<close>, \<^verbatim>\<open>participants.go\<close>): the state and its
    methods. The mutex makes a method one step; what it does after unlocking is a list of actions.
  \<^item> \<open>RunPlan\<close> (\<open>run\<close> and the functions it calls): the calls a run makes for a configuration and the
    actions of each call; phases, rates and percentages of the plan.
  \<^item> \<open>RunSystem\<close>, \<open>RunProgress\<close>: the goroutine of the run interleaved with all methods and with
    what methods do after unlocking. The locale \<open>run_neutral\<close> states what every method must keep of a
    run and is interpreted on each of them. Invariants of the reachable states, and the measure by
    which a run can end.
  \<^item> \<open>ConfigFile\<close> (\<^verbatim>\<open>configfile.go\<close>): a save as the sequence of the disks it goes through.
  \<^item> \<open>Server\<close>, \<open>UIPush\<close> (\<^verbatim>\<open>server.go\<close>): connections, the handlers cut into their locked parts,
    queues and writers, pruning, browsers, and every request with its status. The system of
    \<open>RunSystem\<close> is refined: no step of the server leaves its reachable states.
  \<^item> \<open>Queues\<close>: the bounded queues of controller and agent. Their law is the locale \<open>newest_queue\<close>,
    interpreted on the three implementations.

  \<^bold>\<open>Client.\<close>
  \<^item> \<open>Paths\<close> (\<^verbatim>\<open>paths.go\<close>): file names, with \<open>Clean\<close>, \<open>Join\<close>, \<open>Dir\<close>, \<open>Base\<close> and \<open>Rel\<close> of Go.
  \<^item> \<open>ClientStats\<close>, \<open>Ledger\<close>, \<open>Loops\<close>, \<open>Worker\<close>, \<open>Bandwidth\<close>, \<open>ClientPhases\<close>
    (\<^verbatim>\<open>worker.go\<close>, \<^verbatim>\<open>aligned.go\<close>): counters and their reports, the ledger of files, and the
    routine of each phase. A loop is its body as a function on the state, run over the answers
    of the environment, one for each turn; the locales \<open>timed\<close> and \<open>paced\<close> of \<open>Loops\<close> state
    when such a loop ends and how fast it goes, and are interpreted on the loops of every phase.
  \<^item> \<open>DirectIO\<close> (\<^verbatim>\<open>direct_linux.go\<close>, \<^verbatim>\<open>direct_darwin.go\<close>, \<^verbatim>\<open>direct_other.go\<close>): the
    opens of each platform meet the contract \<open>exclusive_open\<close> on which the bandwidth phases rest.
  \<^item> \<open>Software\<close>, \<open>Unpack\<close>, \<open>ClientSoftware\<close> (\<^verbatim>\<open>shared.go\<close>, \<^verbatim>\<open>unpack.go\<close>, \<^verbatim>\<open>software.go\<close>):
    names of artefacts, the extraction of archives on a file system with symbolic links, and the
    phases that start software.
  \<^item> \<open>Agent\<close> (\<^verbatim>\<open>agent.go\<close>): sessions, messages, the command loop and the metrics loop.

  \<^bold>\<open>Together.\<close> \<open>CommandContract\<close> shows that the commands a run sends pass the checks of the worker
  and last as long as the run waits. \<open>Delivery\<close> follows a command through the queues of the server,
  and \<open>Fleet\<close> from the orchestrator to the report of an agent: the order is kept whatever else
  happens.

  \<^bold>\<open>Bounds.\<close> Nothing is bounded for the proofs. Loops of the client take a list of answers, and the
  theorems hold for every list; that a loop ends is stated of lists that reach the deadline. A walk through
  symbolic links follows at most 40 of them, as the operating system does. The queue lengths 64, 8
  and 4 are those of the code. The runs of the orchestrator and of the server are unbounded traces.

  \<^bold>\<open>Not modelled.\<close> Rounding, overflow and NaN of floats (floats are rationals, and a conversion to
  an integer truncates); the encoding of messages and the JSON codec (a parameter where a theorem
  needs it); the websocket and HTTP libraries with deadlines and headers; the generation of
  ids (they are inputs); the bodies of the external commands \<^verbatim>\<open>git\<close>, \<^verbatim>\<open>tar\<close> and \<^verbatim>\<open>bash\<close> and the
  readers of gzip and tar (their results are inputs); file contents and modes; the order in which a disk
  cache reaches the medium; the main functions (\<^verbatim>\<open>cmd\<close>) and the web page.
\<close>

end
